(* ===== verification/Prelude.thy ===== *)
theory Prelude
  imports Main "HOL-Library.Word"
begin

text \<open>
  Shared vocabulary of the development: the value a Go function computes or the panic it
  raises, slices and indexing with Go's bounds checks, 64-bit integer wrap-around, and two
  interfaces. \<open>guarded_machine\<close> is what every stateful component offers (a step function that
  keeps an invariant); \<open>step_system\<close> is the same for a step relation. Their lemmas lift one
  step to whole runs, so that no component repeats that induction.
\<close>

named_theorems go_defs \<open>definitions of Go primitives, unfolded together\<close>

section \<open>Results that may panic\<close>

datatype 'a go = Ret 'a | Panic

fun go_bind :: "'a go \<Rightarrow> ('a \<Rightarrow> 'b go) \<Rightarrow> 'b go" where
  "go_bind Panic f = Panic"
| "go_bind (Ret x) f = f x"

lemma go_bind_Ret_iff [simp]: "go_bind m f = Ret y \<longleftrightarrow> (\<exists>x. m = Ret x \<and> f x = Ret y)"
  by (cases m) auto

lemma go_bind_Panic_iff [simp]:
  "go_bind m f = Panic \<longleftrightarrow> m = Panic \<or> (\<exists>x. m = Ret x \<and> f x = Panic)"
  by (cases m) auto

lemma go_not_Panic [simp]: "x \<noteq> Panic \<longleftrightarrow> (\<exists>y. x = Ret y)"
  by (cases x) auto

section \<open>Slices and indexing\<close>

text \<open>
  \<open>xs[i:j]\<close> and \<open>xs[i]\<close> of Go. The list stands for the whole backing array of the slice
  (Go checks the upper bound of a slice expression against the capacity).
\<close>

definition go_slice :: "'a list \<Rightarrow> int \<Rightarrow> int \<Rightarrow> 'a list go" where
  "go_slice xs i j =
     (if 0 \<le> i \<and> i \<le> j \<and> j \<le> int (length xs)
      then Ret (take (nat (j - i)) (drop (nat i) xs)) else Panic)"

definition go_index :: "'a list \<Rightarrow> int \<Rightarrow> 'a go" where
  "go_index xs i = (if 0 \<le> i \<and> i < int (length xs) then Ret (xs ! nat i) else Panic)"

lemma go_slice_Ret [simp]:
  "go_slice xs i j = Ret ys \<longleftrightarrow>
     0 \<le> i \<and> i \<le> j \<and> j \<le> int (length xs) \<and> ys = take (nat (j - i)) (drop (nat i) xs)"
  by (auto simp: go_slice_def)

lemma go_slice_Panic [simp]:
  "go_slice xs i j = Panic \<longleftrightarrow> \<not> (0 \<le> i \<and> i \<le> j \<and> j \<le> int (length xs))"
  by (auto simp: go_slice_def)

lemma go_index_Ret [simp]:
  "go_index xs i = Ret y \<longleftrightarrow> 0 \<le> i \<and> i < int (length xs) \<and> y = xs ! nat i"
  by (auto simp: go_index_def)

lemma go_index_Panic [simp]:
  "go_index xs i = Panic \<longleftrightarrow> \<not> (0 \<le> i \<and> i < int (length xs))"
  by (auto simp: go_index_def)

section \<open>64-bit integers\<close>

text \<open>Go's \<open>int\<close> on the 64-bit platforms the program runs on: two's complement wrap-around.\<close>

definition wrap64 :: "int \<Rightarrow> int" where
  "wrap64 x = (x + 2 ^ 63) mod 2 ^ 64 - 2 ^ 63"

lemma wrap64_id [simp]: "- (2 ^ 63) \<le> x \<Longrightarrow> x < 2 ^ 63 \<Longrightarrow> wrap64 x = x"
  by (simp add: wrap64_def)

lemma wrap64_range: "- (2 ^ 63) \<le> wrap64 x \<and> wrap64 x < 2 ^ 63"
  using pos_mod_bound [of "2 ^ 64 :: int" "x + 2 ^ 63"] pos_mod_sign [of "2 ^ 64 :: int" "x + 2 ^ 63"]
  by (simp add: wrap64_def)

section \<open>Runs and state machines\<close>

text \<open>A sequence of operations, any of which may panic and then ends the run.\<close>

fun go_fold :: "('e \<Rightarrow> 's \<Rightarrow> 's go) \<Rightarrow> 'e list \<Rightarrow> 's \<Rightarrow> 's go" where
  "go_fold f [] s = Ret s"
| "go_fold f (e # es) s = go_bind (f e s) (go_fold f es)"

lemma go_fold_append: "go_fold f (xs @ ys) s = go_bind (go_fold f xs s) (go_fold f ys)"
proof (induction xs arbitrary: s)
  case Nil
  then show ?case by simp
next
  case (Cons x xs)
  then show ?case by (cases "f x s") auto
qed

text \<open>
  A component with a step function some of whose operations may panic: from a state that satisfies
  the invariant, an operation either returns and keeps it, or it is one of the bad ones.
\<close>

locale risky_machine =
  fixes step :: "'e \<Rightarrow> 's \<Rightarrow> 's go"
    and invar :: "'s \<Rightarrow> bool"
    and bad :: "'e \<Rightarrow> bool"
  assumes step_cases: "invar s \<Longrightarrow> (\<exists>t. step e s = Ret t \<and> invar t) \<or> step e s = Panic \<and> bad e"
begin

lemma run_cases:
  "invar s \<Longrightarrow> (\<exists>t. go_fold step es s = Ret t \<and> invar t) \<or> go_fold step es s = Panic \<and> (\<exists>e\<in>set es. bad e)"
proof (induction es arbitrary: s)
  case Nil
  then show ?case by simp
next
  case (Cons e es)
  from step_cases [OF Cons.prems, of e] Cons.IH show ?case by force
qed

lemma run_returns: "invar s \<Longrightarrow> \<forall>e\<in>set es. \<not> bad e \<Longrightarrow> \<exists>t. go_fold step es s = Ret t \<and> invar t"
  using run_cases by blast

end

text \<open>
  A component none of whose operations is bad: under its invariant no operation panics and every one
  keeps the invariant, so every run returns and ends in a state that satisfies it.
\<close>

locale guarded_machine =
  fixes step :: "'e \<Rightarrow> 's \<Rightarrow> 's go"
    and invar :: "'s \<Rightarrow> bool"
  assumes step_ok: "invar s \<Longrightarrow> \<exists>t. step e s = Ret t \<and> invar t"
begin

lemma run_ok: "invar s \<Longrightarrow> \<exists>t. go_fold step es s = Ret t \<and> invar t"
proof (induction es arbitrary: s)
  case Nil
  then show ?case by simp
next
  case (Cons e es)
  from step_ok [OF Cons.prems, of e] obtain u where "step e s = Ret u" "invar u" by blast
  with Cons.IH [of u] show ?case by simp
qed

lemma run_keeps:
  assumes "\<And>s e t. invar s \<Longrightarrow> Q s \<Longrightarrow> e \<in> E \<Longrightarrow> step e s = Ret t \<Longrightarrow> Q t"
  shows "invar s \<Longrightarrow> Q s \<Longrightarrow> set es \<subseteq> E \<Longrightarrow> go_fold step es s = Ret t \<Longrightarrow> Q t"
proof (induction es arbitrary: s)
  case Nil
  then show ?case by simp
next
  case (Cons e es)
  from step_ok [OF Cons.prems(1), of e] obtain u where u: "step e s = Ret u" "invar u" by blast
  with assms [of s e u] Cons.prems have "Q u" by simp
  with u Cons.IH [of u] Cons.prems show ?case by simp
qed

end

sublocale guarded_machine \<subseteq> safe: risky_machine step invar "\<lambda>e. False"
  by unfold_locales (use step_ok in blast)

text \<open>
  A machine that implements another one: every concrete operation is, in the state it is made
  in, one operation of the specification. A run then is a run of the specification on the trace
  of these.
\<close>

fun spec_trace :: "('e \<Rightarrow> 's \<Rightarrow> 's go) \<Rightarrow> ('e \<Rightarrow> 's \<Rightarrow> 'o) \<Rightarrow> 'e list \<Rightarrow> 's \<Rightarrow> 'o list" where
  "spec_trace step as_spec [] s = []"
| "spec_trace step as_spec (e # es) s =
     as_spec e s # (case step e s of Panic \<Rightarrow> [] | Ret t \<Rightarrow> spec_trace step as_spec es t)"

locale refined_machine = guarded_machine step invar
  for step :: "'e \<Rightarrow> 's \<Rightarrow> 's go" and invar :: "'s \<Rightarrow> bool" +
  fixes view :: "'s \<Rightarrow> 'a"
    and as_spec :: "'e \<Rightarrow> 's \<Rightarrow> 'o"
    and spec_step :: "'o \<Rightarrow> 'a \<Rightarrow> 'a"
  assumes simulates: "invar s \<Longrightarrow> step e s = Ret t \<Longrightarrow> view t = spec_step (as_spec e s) (view s)"
begin

lemma run_refines:
  "invar s \<Longrightarrow> \<exists>t. go_fold step es s = Ret t \<and> view t = fold spec_step (spec_trace step as_spec es s) (view s)"
proof (induction es arbitrary: s)
  case (Cons e es)
  from step_ok [OF Cons.prems, of e] obtain u where "step e s = Ret u" "invar u" by blast
  with Cons.IH [of u] simulates [OF Cons.prems, of e u] show ?case by simp
qed simp

end

text \<open>A component with a step relation.\<close>

locale step_system =
  fixes step :: "'s \<Rightarrow> 's \<Rightarrow> bool"
    and invar :: "'s \<Rightarrow> bool"
  assumes step_invar: "invar s \<Longrightarrow> step s t \<Longrightarrow> invar t"
begin

lemma reach_invar: "step\<^sup>*\<^sup>* s t \<Longrightarrow> invar s \<Longrightarrow> invar t"
  by (induction rule: rtranclp_induct) (auto intro: step_invar)

end

section \<open>List lemmas\<close>

lemma fold_append_map: "fold (\<lambda>x acc. acc @ [f x]) xs ys = ys @ map f xs"
  by (induction xs arbitrary: ys) auto

lemma take_drop_next: "length xs \<le> n \<Longrightarrow> take n (xs @ ys) = xs @ take (n - length xs) ys"
  by simp

end
