(* ===== verification/Go_Strings.thy ===== *)
theory Go_Strings
  imports Prelude
begin

text \<open>
  The functions of Go's \<open>strings\<close> and \<open>strconv\<close> packages that the program calls, on byte
  strings (\<open>string\<close>, one \<open>char\<close> per byte). Letter case and white space are those of ASCII:
  the identifiers, headers and configuration values the program handles are ASCII, and bytes
  from 128 up are never letters, digits or spaces here.
\<close>

section \<open>Characters\<close>

definition code :: "char \<Rightarrow> nat" where
  "code c = of_char c"

definition is_lower :: "char \<Rightarrow> bool" where
  "is_lower c \<longleftrightarrow> 97 \<le> code c \<and> code c \<le> 122"

definition is_upper :: "char \<Rightarrow> bool" where
  "is_upper c \<longleftrightarrow> 65 \<le> code c \<and> code c \<le> 90"

definition is_digit :: "char \<Rightarrow> bool" where
  "is_digit c \<longleftrightarrow> 48 \<le> code c \<and> code c \<le> 57"

definition digit_val :: "char \<Rightarrow> int" where
  "digit_val c = int (code c) - 48"

definition is_space :: "char \<Rightarrow> bool" where
  "is_space c \<longleftrightarrow> code c \<in> {9, 10, 11, 12, 13, 32}"

definition lower_char :: "char \<Rightarrow> char" where
  "lower_char c = (if is_upper c then char_of (code c + 32) else c)"

lemma code_lt_256: "code c < 256"
  by (simp add: code_def)

lemma code_char_of [simp]: "n < 256 \<Longrightarrow> code (char_of n) = n"
  by (simp add: code_def)

lemma code_eq_iff: "code c = code d \<longleftrightarrow> c = d"
  by (simp add: code_def)

lemma code_lower_char: "code (lower_char c) = (if is_upper c then code c + 32 else code c)"
  by (simp add: lower_char_def is_upper_def)

lemma lower_char_not_upper [simp]: "\<not> is_upper (lower_char c)"
  by (simp add: is_upper_def code_lower_char)

lemma lower_char_idem [simp]: "lower_char (lower_char c) = lower_char c"
  using lower_char_not_upper [of c] by (simp add: lower_char_def [of "lower_char c"])

lemma is_lower_lower_char: "is_lower (lower_char c) \<longleftrightarrow> is_lower c \<or> is_upper c"
  by (auto simp: is_lower_def is_upper_def code_lower_char)

lemma is_digit_lower_char [simp]: "is_digit (lower_char c) \<longleftrightarrow> is_digit c"
  by (auto simp: is_digit_def is_upper_def code_lower_char)

lemma digit_val_range: "is_digit c \<Longrightarrow> 0 \<le> digit_val c \<and> digit_val c \<le> 9"
  by (auto simp: is_digit_def digit_val_def)

section \<open>Prefixes, suffixes, searching\<close>

definition to_lower :: "string \<Rightarrow> string" where
  "to_lower s = map lower_char s"

definition equal_fold :: "string \<Rightarrow> string \<Rightarrow> bool" where
  "equal_fold a b \<longleftrightarrow> to_lower a = to_lower b"

definition has_prefix :: "string \<Rightarrow> string \<Rightarrow> bool" where
  "has_prefix s p \<longleftrightarrow> take (length p) s = p"

definition trim_prefix :: "string \<Rightarrow> string \<Rightarrow> string" where
  "trim_prefix s p = (if has_prefix s p then drop (length p) s else s)"

definition trim_suffix :: "string \<Rightarrow> string \<Rightarrow> string" where
  "trim_suffix s p =
     (if length p \<le> length s \<and> drop (length s - length p) s = p
      then take (length s - length p) s else s)"

text \<open>\<open>strings.Index\<close>: the least position at which the pattern occurs.\<close>

fun str_index :: "string \<Rightarrow> string \<Rightarrow> nat option" where
  "str_index [] p = (if p = [] then Some 0 else None)"
| "str_index (c # s) p = (if has_prefix (c # s) p then Some 0 else map_option Suc (str_index s p))"

definition contains :: "string \<Rightarrow> string \<Rightarrow> bool" where
  "contains s p \<longleftrightarrow> str_index s p \<noteq> None"

text \<open>\<open>strings.IndexAny\<close>: the least position of a byte of the set.\<close>

fun index_any :: "(char \<Rightarrow> bool) \<Rightarrow> string \<Rightarrow> nat option" where
  "index_any P [] = None"
| "index_any P (c # s) = (if P c then Some 0 else map_option Suc (index_any P s))"

definition trim_left :: "(char \<Rightarrow> bool) \<Rightarrow> string \<Rightarrow> string" where
  "trim_left P s = dropWhile P s"

definition trim_right :: "(char \<Rightarrow> bool) \<Rightarrow> string \<Rightarrow> string" where
  "trim_right P s = rev (dropWhile P (rev s))"

definition trim :: "(char \<Rightarrow> bool) \<Rightarrow> string \<Rightarrow> string" where
  "trim P s = trim_right P (trim_left P s)"

abbreviation trim_space :: "string \<Rightarrow> string" where
  "trim_space \<equiv> trim is_space"

text \<open>\<open>strings.Split\<close> on a one-byte separator: always at least one part.\<close>

fun split_on :: "char \<Rightarrow> string \<Rightarrow> string list" where
  "split_on sep [] = [[]]"
| "split_on sep (c # s) =
     (if c = sep then [] # split_on sep s
      else case split_on sep s of [] \<Rightarrow> [[c]] | p # ps \<Rightarrow> (c # p) # ps)"

text \<open>
  \<open>%q\<close>: a byte inside the quotes \<open>q\<close>. The quote and the backslash are escaped, control bytes have
  their letter or two hexadecimal digits; bytes from 128 up belong to printable text.
\<close>

definition hex_digit :: "nat \<Rightarrow> char" where
  "hex_digit n = char_of (if n < 10 then 48 + n else 87 + n)"

definition quote_char :: "char \<Rightarrow> char \<Rightarrow> string" where
  "quote_char q c =
     (let n = code c; bs = CHR 0x5C in
      if c = q \<or> c = bs then [bs, c]
      else if n = 7 then [bs, CHR ''a''] else if n = 8 then [bs, CHR ''b'']
      else if n = 9 then [bs, CHR ''t''] else if n = 10 then [bs, CHR ''n'']
      else if n = 11 then [bs, CHR ''v''] else if n = 12 then [bs, CHR ''f'']
      else if n = 13 then [bs, CHR ''r'']
      else if n < 32 \<or> n = 127 then [bs, CHR ''x'', hex_digit (n div 16), hex_digit (n mod 16)]
      else [c])"

definition go_quote :: "string \<Rightarrow> string" where
  "go_quote s = CHR 0x22 # concat (map (quote_char (CHR 0x22)) s) @ [CHR 0x22]"

definition quote_rune :: "char \<Rightarrow> string" where
  "quote_rune c = CHR 0x27 # quote_char (CHR 0x27) c @ [CHR 0x27]"

definition nonEmpty :: "string \<Rightarrow> string \<Rightarrow> string" where
  "nonEmpty a b = (if a \<noteq> [] then a else b)"

lemma to_lower_idem [simp]: "to_lower (to_lower s) = to_lower s"
  by (simp add: to_lower_def)

lemma equal_fold_refl [simp]: "equal_fold s s"
  by (simp add: equal_fold_def)

lemma equal_fold_sym: "equal_fold a b \<Longrightarrow> equal_fold b a"
  by (simp add: equal_fold_def)

lemma equal_fold_to_lower [simp]: "equal_fold (to_lower a) b = equal_fold a b"
  by (simp add: equal_fold_def)

lemma has_prefix_append [simp]: "has_prefix (p @ s) p"
  by (simp add: has_prefix_def)

lemma has_prefixE: "has_prefix s p \<Longrightarrow> \<exists>t. s = p @ t"
  by (metis append_take_drop_id has_prefix_def)

lemma has_prefix_iff: "has_prefix s p \<longleftrightarrow> (\<exists>t. s = p @ t)"
  by (auto dest: has_prefixE)

lemma trim_prefix_append [simp]: "trim_prefix (p @ s) p = s"
  by (simp add: trim_prefix_def)

lemma split_on_ne [simp]: "split_on c s \<noteq> []"
  by (cases s) (auto split: list.splits)

lemma split_on_nosep: "c \<notin> set s \<Longrightarrow> split_on c s = [s]"
  by (induction s) auto

lemma split_on_append: "c \<notin> set s \<Longrightarrow> split_on c (s @ c # t) = s # split_on c t"
  by (induction s) auto

lemma str_index_append_le: "\<exists>n. str_index (s @ p @ t) p = Some n \<and> n \<le> length s"
proof (induction s)
  case Nil
  show ?case using has_prefix_append [of p t] by (cases "p @ t") auto
next
  case (Cons c s)
  then show ?case by auto
qed

lemma str_index_Some: "str_index s p = Some n \<Longrightarrow> \<exists>u v. s = u @ p @ v \<and> length u = n"
proof (induction s arbitrary: n)
  case Nil
  then show ?case by (auto split: if_splits)
next
  case (Cons c s)
  show ?case
  proof (cases "has_prefix (c # s) p")
    case True
    with Cons.prems have "n = 0" and "\<exists>v. c # s = p @ v"
      by (auto dest: has_prefixE)
    then show ?thesis by (metis append_Nil list.size(3))
  next
    case False
    with Cons.prems obtain m where "str_index s p = Some m" and n: "n = Suc m" by auto
    then obtain u v where "s = u @ p @ v" and "length u = m" using Cons.IH by blast
    then have "c # s = (c # u) @ p @ v \<and> length (c # u) = n" using n by simp
    then show ?thesis by blast
  qed
qed

lemma index_any_None: "index_any P s = None \<longleftrightarrow> (\<forall>c\<in>set s. \<not> P c)"
  by (induction s) auto

lemma index_any_Some: "index_any P s = Some n \<Longrightarrow> take n s = takeWhile (\<lambda>c. \<not> P c) s"
  by (induction s arbitrary: n) (auto split: if_splits)

lemma take_index_any:
  "(case index_any P s of None \<Rightarrow> s | Some n \<Rightarrow> take n s) = takeWhile (\<lambda>c. \<not> P c) s"
proof (cases "index_any P s")
  case None
  then have "takeWhile (\<lambda>c. \<not> P c) s = s" by (simp add: index_any_None takeWhile_eq_all_conv)
  then show ?thesis by (simp only: None option.case)
next
  case (Some n)
  then show ?thesis by (simp add: index_any_Some)
qed

section \<open>Numbers\<close>

text \<open>\<open>strconv.Itoa\<close>.\<close>

fun show_nat :: "nat \<Rightarrow> string" where
  "show_nat n = (if n < 10 then [char_of (48 + n)]
                 else show_nat (n div 10) @ [char_of (48 + n mod 10)])"

declare show_nat.simps [simp del]

definition itoa :: "int \<Rightarrow> string" where
  "itoa i = (if i < 0 then ''-'' @ show_nat (nat (- i)) else show_nat (nat i))"

definition digits_val :: "string \<Rightarrow> int" where
  "digits_val s = fold (\<lambda>c n. 10 * n + digit_val c) s 0"

text \<open>\<open>strconv.Atoi\<close>: an optional sign, at least one digit, and the 64-bit range.\<close>

definition atoi :: "string \<Rightarrow> int option" where
  "atoi s =
     (let neg = (case s of c # _ \<Rightarrow> c = CHR ''-'' | [] \<Rightarrow> False);
          sgnd = (case s of c # _ \<Rightarrow> c = CHR ''-'' \<or> c = CHR ''+'' | [] \<Rightarrow> False);
          ds = (if sgnd then tl s else s);
          v = (if neg then - digits_val ds else digits_val ds)
      in if ds \<noteq> [] \<and> list_all is_digit ds \<and> - (2 ^ 63) \<le> v \<and> v < 2 ^ 63 then Some v else None)"

text \<open>
  \<open>%v\<close> of a \<open>time.Duration\<close>, in nanoseconds: the fraction without trailing zeros, the unit of the
  size below a second, hours and minutes above it.
\<close>

definition frac_text :: "nat \<Rightarrow> nat \<Rightarrow> string" where
  "frac_text v prec =
     (let f = v mod 10 ^ prec; ds = show_nat f; padded = replicate (prec - length ds) (CHR ''0'') @ ds
      in if f = 0 then [] else CHR ''.'' # trim_right (\<lambda>c. c = CHR ''0'') padded)"

definition duration_string :: "int \<Rightarrow> string" where
  "duration_string d =
     (let u = nat \<bar>d\<bar>; secs = u div 1000000000; mins = secs div 60;
          body = (if u = 0 then ''0s''
            else if u < 1000 then show_nat u @ ''ns''
            else if u < 1000000 then show_nat (u div 1000) @ frac_text u 3 @ [CHR 0xC2, CHR 0xB5, CHR ''s'']
            else if u < 1000000000 then show_nat (u div 1000000) @ frac_text u 6 @ ''ms''
            else (if mins div 60 > 0 then show_nat (mins div 60) @ ''h'' else [])
              @ (if mins > 0 then show_nat (mins mod 60) @ ''m'' else [])
              @ show_nat (secs mod 60) @ frac_text u 9 @ ''s'')
      in if d < 0 then ''-'' @ body else body)"

lemma show_nat_ne [simp]: "show_nat n \<noteq> []"
  by (subst show_nat.simps) simp

lemma show_nat_digits: "list_all is_digit (show_nat n)"
proof (induction n rule: show_nat.induct)
  case (1 n)
  show ?case
  proof (cases "n < 10")
    case True
    then show ?thesis by (subst show_nat.simps) (simp add: is_digit_def)
  next
    case False
    with 1 show ?thesis by (subst show_nat.simps) (simp, simp add: is_digit_def)
  qed
qed

lemma digits_val_snoc: "digits_val (s @ [c]) = 10 * digits_val s + digit_val c"
  by (simp add: digits_val_def)

lemma digits_val_show_nat: "digits_val (show_nat n) = int n"
proof (induction n rule: show_nat.induct)
  case (1 n)
  show ?case
  proof (cases "n < 10")
    case True
    then show ?thesis by (subst show_nat.simps) (simp add: digits_val_def digit_val_def)
  next
    case False
    then have "digits_val (show_nat n) = 10 * int (n div 10) + int (n mod 10)"
      using 1 by (subst show_nat.simps) (simp add: digits_val_snoc digit_val_def)
    also have "\<dots> = int n" by presburger
    finally show ?thesis .
  qed
qed

lemma show_nat_hd: "c # s = show_nat n \<Longrightarrow> is_digit c"
  using show_nat_digits [of n] by (metis list.pred_inject(2))

lemma atoi_show_nat: "int n < 2 ^ 63 \<Longrightarrow> atoi (show_nat n) = Some (int n)"
proof -
  assume n: "int n < 2 ^ 63"
  obtain c s where cs: "show_nat n = c # s" by (cases "show_nat n") auto
  have "is_digit c" using cs show_nat_hd by metis
  then have "c \<noteq> CHR ''-''" and "c \<noteq> CHR ''+''" by (auto simp: is_digit_def code_def)
  then show ?thesis using n digits_val_show_nat [of n] show_nat_digits [of n]
    by (simp add: atoi_def cs)
qed

end
