(* ===== verification/Json.thy ===== *)
theory Json
  imports Go_Strings
begin

text \<open>
  JSON values as Go's \<open>encoding/json\<close> decodes them into \<open>any\<close>, and the decoder itself, for the
  bodies and frames that reach the program as bytes. A number is kept as its decimal value
  (mantissa and power of ten), without the rounding to \<open>float64\<close>. An object is a list of
  members in some order with distinct keys (a repeated key keeps its last value); the order
  stands for the iteration order of the Go map, which the language leaves open.
\<close>

datatype json =
    JNull
  | JBool bool
  | JNum int int
  | JStr string
  | JArr "json list"
  | JObj "(string \<times> json) list"

type_synonym members = "(string \<times> json) list"

text \<open>Type assertions: \<open>v.(string)\<close>, \<open>v.(map[string]any)\<close>, with the second result.\<close>

fun as_str :: "json \<Rightarrow> string option" where
  "as_str (JStr s) = Some s"
| "as_str _ = None"

fun as_obj :: "json \<Rightarrow> members option" where
  "as_obj (JObj m) = Some m"
| "as_obj _ = None"

fun as_bool :: "json \<Rightarrow> bool option" where
  "as_bool (JBool b) = Some b"
| "as_bool _ = None"

text \<open>\<open>m[k]\<close>: the nil interface for an absent key.\<close>

definition member_of :: "members \<Rightarrow> string \<Rightarrow> json" where
  "member_of m k = (case map_of m k of None \<Rightarrow> JNull | Some v \<Rightarrow> v)"

definition str_member :: "members \<Rightarrow> string \<Rightarrow> string option" where
  "str_member m k = as_str (member_of m k)"

definition obj_member :: "members \<Rightarrow> string \<Rightarrow> members option" where
  "obj_member m k = as_obj (member_of m k)"

text \<open>\<open>v, _ := m[k].(string)\<close>: the empty string unless the member is a string.\<close>

definition str_member0 :: "members \<Rightarrow> string \<Rightarrow> string" where
  "str_member0 m k = (case str_member m k of None \<Rightarrow> [] | Some s \<Rightarrow> s)"

text \<open>\<open>int(v)\<close> of a number: truncation toward zero.\<close>

definition num_trunc :: "int \<Rightarrow> int \<Rightarrow> int" where
  "num_trunc m e =
     (if 0 \<le> e then m * 10 ^ nat e else sgn m * (\<bar>m\<bar> div 10 ^ nat (- e)))"

section \<open>The decoder\<close>

definition skip_ws :: "string \<Rightarrow> string" where
  "skip_ws = dropWhile (\<lambda>c. code c \<in> {9, 10, 13, 32})"

definition hex_val :: "char \<Rightarrow> nat option" where
  "hex_val c =
     (let n = code c in
      if 48 \<le> n \<and> n \<le> 57 then Some (n - 48)
      else if 97 \<le> n \<and> n \<le> 102 then Some (n - 87)
      else if 65 \<le> n \<and> n \<le> 70 then Some (n - 55) else None)"

definition hex4 :: "string \<Rightarrow> (nat \<times> string) option" where
  "hex4 s =
     (case s of
        a # b # c # d # r \<Rightarrow>
          (case (hex_val a, hex_val b, hex_val c, hex_val d) of
             (Some w, Some x, Some y, Some z) \<Rightarrow> Some (4096 * w + 256 * x + 16 * y + z, r)
           | _ \<Rightarrow> None)
      | _ \<Rightarrow> None)"

text \<open>UTF-8 of a code point; a surrogate encodes as U+FFFD.\<close>

definition utf8 :: "nat \<Rightarrow> string" where
  "utf8 n =
     (if 55296 \<le> n \<and> n < 57344 \<or> 1114111 < n then [char_of (239 :: nat), char_of (191 :: nat), char_of (189 :: nat)]
      else if n < 128 then [char_of n]
      else if n < 2048 then [char_of (192 + n div 64), char_of (128 + n mod 64)]
      else if n < 65536 then
        [char_of (224 + n div 4096), char_of (128 + n div 64 mod 64), char_of (128 + n mod 64)]
      else [char_of (240 + n div 262144), char_of (128 + n div 4096 mod 64),
            char_of (128 + n div 64 mod 64), char_of (128 + n mod 64)])"

text \<open>After \<open>\u\<close>: one code unit, or a surrogate pair written as two escapes.\<close>

definition unicode_escape :: "string \<Rightarrow> (string \<times> string) option" where
  "unicode_escape s =
     (case hex4 s of
        None \<Rightarrow> None
      | Some (n, r) \<Rightarrow>
          if 55296 \<le> n \<and> n < 56320 then
            (case r of
               b # u # r1 \<Rightarrow>
                 if b = CHR 0x5C \<and> u = CHR ''u'' then
                   (case hex4 r1 of
                      Some (n2, r2) \<Rightarrow>
                        if 56320 \<le> n2 \<and> n2 < 57344
                        then Some (utf8 (65536 + (n - 55296) * 1024 + (n2 - 56320)), r2)
                        else Some (utf8 n, r)
                    | None \<Rightarrow> Some (utf8 n, r))
                 else Some (utf8 n, r)
             | _ \<Rightarrow> Some (utf8 n, r))
          else Some (utf8 n, r))"

definition simple_escape :: "char \<Rightarrow> char option" where
  "simple_escape c =
     (if c = CHR 0x22 \<or> c = CHR 0x5C \<or> c = CHR ''/'' then Some c
      else if c = CHR ''b'' then Some (CHR 0x08)
      else if c = CHR ''f'' then Some (CHR 0x0C)
      else if c = CHR ''n'' then Some (CHR 0x0A)
      else if c = CHR ''r'' then Some (CHR 0x0D)
      else if c = CHR ''t'' then Some (CHR 0x09)
      else None)"

text \<open>
  A string after its opening quote. Every recursive call is on a shorter rest; the test
  \<open>length r < length s\<close> only makes that visible to the termination proof.
\<close>

function parse_str :: "string \<Rightarrow> (string \<times> string) option" where
  "parse_str s =
     (case s of
        [] \<Rightarrow> None
      | c # cs \<Rightarrow>
          if c = CHR 0x22 then Some ([], cs)
          else if code c < 32 then None
          else if c = CHR 0x5C then
            (case cs of
               [] \<Rightarrow> None
             | e # r \<Rightarrow>
                 (case (if e = CHR ''u'' then unicode_escape r
                        else map_option (\<lambda>x. ([x], r)) (simple_escape e)) of
                    None \<Rightarrow> None
                  | Some (x, r') \<Rightarrow>
                      if length r' < length s
                      then map_option (\<lambda>(y, t). (x @ y, t)) (parse_str r') else None))
          else map_option (\<lambda>(y, t). (c # y, t)) (parse_str cs))"
  by pat_completeness auto
termination by (relation "measure length") auto

declare parse_str.simps [simp del]

definition parse_num :: "string \<Rightarrow> (json \<times> string) option" where
  "parse_num s =
     (let neg = has_prefix s ''-'';
          s1 = trim_prefix s ''-'';
          ip = (if has_prefix s1 ''0'' then ''0'' else takeWhile is_digit s1);
          s2 = drop (length ip) s1;
          fp = (if has_prefix s2 ''.'' then takeWhile is_digit (tl s2) else []);
          s3 = (if has_prefix s2 ''.'' then drop (length fp) (tl s2) else s2);
          isexp = has_prefix s3 ''e'' \<or> has_prefix s3 ''E'';
          eneg = isexp \<and> has_prefix (tl s3) ''-'';
          s4 = (if isexp then trim_prefix (trim_prefix (tl s3) ''-'') (if eneg then [] else ''+'') else s3);
          ep = (if isexp then takeWhile is_digit s4 else []);
          s5 = drop (length ep) s4;
          m = digits_val (ip @ fp);
          e = (if eneg then - digits_val ep else digits_val ep)
      in if ip = [] \<or> (has_prefix s2 ''.'' \<and> fp = []) \<or> (isexp \<and> ep = []) then None
         else Some (JNum (if neg then - m else m) (e - int (length fp)), s5))"

text \<open>Decoding keeps the last value of a repeated key.\<close>

definition put_member :: "string \<Rightarrow> json \<Rightarrow> members \<Rightarrow> members" where
  "put_member k v m = (if k \<in> fst ` set m then m else (k, v) # m)"

function (sequential)
  parse_value :: "string \<Rightarrow> (json \<times> string) option" and
  parse_elems :: "string \<Rightarrow> (json list \<times> string) option" and
  parse_members :: "string \<Rightarrow> (members \<times> string) option" where
  "parse_value s0 =
     (let s = skip_ws s0 in
      if has_prefix s ''null'' then Some (JNull, drop 4 s)
      else if has_prefix s ''true'' then Some (JBool True, drop 4 s)
      else if has_prefix s ''false'' then Some (JBool False, drop 5 s)
      else case s of
        [] \<Rightarrow> None
      | c # cs \<Rightarrow>
          if c = CHR 0x22 then map_option (\<lambda>(x, r). (JStr x, r)) (parse_str cs)
          else if c = CHR ''['' then
            (if has_prefix (skip_ws cs) '']'' then Some (JArr [], tl (skip_ws cs))
             else if length cs < length s0
             then map_option (\<lambda>(x, r). (JArr x, r)) (parse_elems cs) else None)
          else if c = CHR ''{'' then
            (if has_prefix (skip_ws cs) ''}'' then Some (JObj [], tl (skip_ws cs))
             else if length cs < length s0
             then map_option (\<lambda>(x, r). (JObj x, r)) (parse_members cs) else None)
          else parse_num s)"
| "parse_elems s =
     (case parse_value s of
        None \<Rightarrow> None
      | Some (v, r0) \<Rightarrow>
          (case skip_ws r0 of
             [] \<Rightarrow> None
           | c # r \<Rightarrow>
               if c = CHR '']'' then Some ([v], r)
               else if c = CHR '','' \<and> length r < length s
               then map_option (\<lambda>(vs, t). (v # vs, t)) (parse_elems r)
               else None))"
| "parse_members s0 =
     (case skip_ws s0 of
        [] \<Rightarrow> None
      | q # s \<Rightarrow>
          if q \<noteq> CHR 0x22 then None
          else case parse_str s of
            None \<Rightarrow> None
          | Some (k, r0) \<Rightarrow>
              (case skip_ws r0 of
                 [] \<Rightarrow> None
               | c # r1 \<Rightarrow>
                   if c \<noteq> CHR '':'' \<or> \<not> length r1 < length s0 then None
                   else case parse_value r1 of
                     None \<Rightarrow> None
                   | Some (v, r2) \<Rightarrow>
                       (case skip_ws r2 of
                          [] \<Rightarrow> None
                        | d # r \<Rightarrow>
                            if d = CHR ''}'' then Some ([(k, v)], r)
                            else if d = CHR '','' \<and> length r < length s0
                            then map_option (\<lambda>(m, t). (put_member k v m, t)) (parse_members r)
                            else None)))"
  by pat_completeness auto
termination
  by (relation "measure (\<lambda>x. case x of Inl s \<Rightarrow> 2 * length s
        | Inr (Inl s) \<Rightarrow> 2 * length s + 1 | Inr (Inr s) \<Rightarrow> 2 * length s + 1)") auto

declare parse_value.simps [simp del] parse_elems.simps [simp del] parse_members.simps [simp del]

text \<open>\<open>json.Unmarshal\<close> into \<open>any\<close>: one value and nothing but white space after it.\<close>

definition unmarshal :: "string \<Rightarrow> json option" where
  "unmarshal s =
     (case parse_value s of
        Some (v, r) \<Rightarrow> if skip_ws r = [] then Some v else None
      | None \<Rightarrow> None)"

lemma unmarshal_Nil: "unmarshal [] = None"
  by code_simp

text \<open>
  \<open>json.Unmarshal\<close> into a \<open>map[string]any\<close>: the outer option is the error, the inner one a nil
  map (the body \<open>null\<close>).
\<close>

definition unmarshal_map :: "string \<Rightarrow> members option option" where
  "unmarshal_map s =
     (case unmarshal s of
        Some (JObj m) \<Rightarrow> Some (Some m)
      | Some JNull \<Rightarrow> Some None
      | _ \<Rightarrow> None)"

lemma member_of_Nil [simp]: "member_of [] k = JNull"
  by (simp add: member_of_def)

lemma member_of_Cons [simp]: "member_of ((k, v) # m) k' = (if k = k' then v else member_of m k')"
  by (simp add: member_of_def)

lemma str_member_Some: "str_member m k = Some s \<longleftrightarrow> member_of m k = JStr s"
  by (cases "member_of m k") (auto simp: str_member_def)

lemma obj_member_Some: "obj_member m k = Some s \<longleftrightarrow> member_of m k = JObj s"
  by (cases "member_of m k") (auto simp: obj_member_def)

end
