(* ===== verification/Go_Chan.thy ===== *)
theory Go_Chan
  imports Prelude
begin

text \<open>
  Buffered Go channels as the program uses them: a \<open>select\<close> with a \<open>default\<close> branch never
  blocks, a send on a closed channel panics, a closed channel still delivers what it buffered.
  \<open>bounded_sink\<close> is the contract of a non-blocking recorder built on such a channel (keep in
  arrival order what fits, count what does not); the webhook session's callback queue and the
  WebSocket frame queue both provide it.
\<close>

record 'a chan =
  ch_buf :: "'a list"
  ch_cap :: nat
  ch_closed :: bool

definition make_chan :: "nat \<Rightarrow> 'a chan" where
  "make_chan n = \<lparr>ch_buf = [], ch_cap = n, ch_closed = False\<rparr>"

text \<open>\<open>select { case c <- x: ... default: ... }\<close>: \<open>None\<close> is the default branch.\<close>

definition try_send :: "'a \<Rightarrow> 'a chan \<Rightarrow> 'a chan option go" where
  "try_send x c =
     (if ch_closed c then Panic
      else if length (ch_buf c) < ch_cap c then Ret (Some (c\<lparr>ch_buf := ch_buf c @ [x]\<rparr>))
      else Ret None)"

datatype 'a recv = Got 'a "'a chan" | RecvClosed | RecvWouldBlock

definition try_recv :: "'a chan \<Rightarrow> 'a recv" where
  "try_recv c =
     (case ch_buf c of
        x # xs \<Rightarrow> Got x (c\<lparr>ch_buf := xs\<rparr>)
      | [] \<Rightarrow> if ch_closed c then RecvClosed else RecvWouldBlock)"

definition close_chan :: "'a chan \<Rightarrow> 'a chan go" where
  "close_chan c = (if ch_closed c then Panic else Ret (c\<lparr>ch_closed := True\<rparr>))"

lemma make_chan_sel [simp]:
  "ch_buf (make_chan n) = []" "ch_cap (make_chan n) = n" "ch_closed (make_chan n) = False"
  by (simp_all add: make_chan_def)

lemma try_send_open:
  "\<not> ch_closed c \<Longrightarrow>
     try_send x c = Ret (if length (ch_buf c) < ch_cap c
                         then Some (c\<lparr>ch_buf := ch_buf c @ [x]\<rparr>) else None)"
  by (simp add: try_send_def)

lemma try_send_closed: "ch_closed c \<Longrightarrow> try_send x c = Panic"
  by (simp add: try_send_def)

lemma try_send_panic_iff [simp]: "try_send x c = Panic \<longleftrightarrow> ch_closed c"
  by (simp add: try_send_def)

section \<open>The contract of a non-blocking recorder\<close>

locale bounded_sink =
  fixes put :: "'a \<Rightarrow> 's \<Rightarrow> 's go"
    and items :: "'s \<Rightarrow> 'a list"
    and dropped :: "'s \<Rightarrow> nat"
    and ready :: "'s \<Rightarrow> bool"
    and room :: nat
  assumes put_fits: "ready s \<Longrightarrow> length (items s) < room \<Longrightarrow>
           \<exists>t. put x s = Ret t \<and> ready t \<and> items t = items s @ [x] \<and> dropped t = dropped s"
    and put_full: "ready s \<Longrightarrow> \<not> length (items s) < room \<Longrightarrow>
           \<exists>t. put x s = Ret t \<and> ready t \<and> items t = items s \<and> dropped t = Suc (dropped s)"
    and ready_bound: "ready s \<Longrightarrow> length (items s) \<le> room"
begin

lemma put_ready: "ready s \<Longrightarrow> \<exists>t. put x s = Ret t \<and> ready t"
  using put_fits put_full by metis

sublocale machine: guarded_machine put ready
  by unfold_locales (rule put_ready)

lemma run_items:
  "ready s \<Longrightarrow> go_fold put xs s = Ret t \<Longrightarrow>
     items t = items s @ take (room - length (items s)) xs"
proof (induction xs arbitrary: s)
  case Nil
  then show ?case by simp
next
  case (Cons x xs)
  show ?case
  proof (cases "length (items s) < room")
    case True
    from put_fits [OF Cons.prems(1) True, of x] obtain u
      where u: "put x s = Ret u" "ready u" "items u = items s @ [x]" by blast
    from True obtain k where "room - length (items s) = Suc k"
      by (cases "room - length (items s)") auto
    moreover from this have "room - Suc (length (items s)) = k" by simp
    ultimately show ?thesis using Cons.IH [OF u(2)] Cons.prems(2) u by simp
  next
    case False
    from put_full [OF Cons.prems(1) False, of x] obtain u
      where u: "put x s = Ret u" "ready u" "items u = items s" by blast
    then show ?thesis using Cons.IH [OF u(2)] Cons.prems(2) False by simp
  qed
qed

lemma run_conserves:
  "ready s \<Longrightarrow> go_fold put xs s = Ret t \<Longrightarrow>
     length (items t) + dropped t = length (items s) + dropped s + length xs"
proof (induction xs arbitrary: s)
  case Nil
  then show ?case by simp
next
  case (Cons x xs)
  from put_fits [OF Cons.prems(1), of x] put_full [OF Cons.prems(1), of x] obtain u
    where u: "put x s = Ret u" "ready u"
      and "length (items u) + dropped u = Suc (length (items s) + dropped s)"
    by (cases "length (items s) < room") auto
  then show ?case using Cons.IH [OF u(2)] Cons.prems(2) by simp
qed

lemma run_spec:
  assumes "ready s"
  shows "\<exists>t. go_fold put xs s = Ret t \<and> ready t
            \<and> items t = items s @ take (room - length (items s)) xs
            \<and> length (items t) + dropped t = length (items s) + dropped s + length xs
            \<and> length (items t) \<le> room"
proof -
  from machine.run_ok [OF assms] obtain t where t: "go_fold put xs s = Ret t" "ready t" by blast
  with run_items [OF assms t(1)] run_conserves [OF assms t(1)] ready_bound show ?thesis by blast
qed

end

section \<open>The contract of a keyed store\<close>

text \<open>
  A Go map behind a mutex whose writer ignores some keys (the empty call id, the anonymous
  test). What a lookup returns is the last value accepted for its key.
\<close>

locale keyed_store =
  fixes look :: "'k \<Rightarrow> 's \<Rightarrow> 'v option"
    and put :: "'k \<Rightarrow> 'v \<Rightarrow> 's \<Rightarrow> 's"
    and accepts :: "'k \<Rightarrow> 'v \<Rightarrow> bool"
  assumes look_put: "accepts k v \<Longrightarrow> look k (put k v s) = Some v"
    and look_put_other: "k' \<noteq> k \<Longrightarrow> look k' (put k v s) = look k' s"
    and put_rejected: "\<not> accepts k v \<Longrightarrow> put k v s = s"
begin

lemma look_put_cases:
  "look k' (put k v s) = (if k' = k \<and> accepts k v then Some v else look k' s)"
  using look_put look_put_other put_rejected by (metis (full_types))

lemma look_puts:
  "look k (fold (\<lambda>(a, v). put a v) ps s)
     = (case filter (\<lambda>(a, v). a = k \<and> accepts a v) (rev ps) of
          [] \<Rightarrow> look k s | p # _ \<Rightarrow> Some (snd p))"
proof (induction ps rule: rev_induct)
  case Nil
  then show ?case by simp
next
  case (snoc p ps)
  then show ?case by (cases p) (auto simp: look_put_cases split: list.splits)
qed

lemma look_stable:
  "\<forall>(a, v)\<in>set ps. a = k \<longrightarrow> look k s = Some v \<or> \<not> accepts a v \<Longrightarrow>
     look k (fold (\<lambda>(a, v). put a v) ps s) = look k s"
proof (induction ps arbitrary: s)
  case Nil
  then show ?case by simp
next
  case (Cons p ps)
  obtain a v where p: "p = (a, v)" by (cases p)
  have "look k (put a v s) = look k s" using Cons.prems p by (auto simp: look_put_cases)
  then show ?case using Cons p by simp
qed

end

end
