(* ===== verification/Webhook_Types.thy ===== *)
theory Webhook_Types
  imports Json Go_Chan
begin

text \<open>
  The data of the webhook server (\<open>internal/webhook/types.go\<close>, and the frame and session types
  of \<open>ws.go\<close>): captured callbacks with their accessors, hook outcomes, WebSocket frames. The
  lemmas show that the path accessor \<open>NestedAny\<close> cannot index out of range, that it finds
  every value a well-formed path leads to, and what it makes of a signed index.
\<close>

section \<open>Callbacks\<close>

type_synonym script = "json list"

definition TransportHTTP :: string where "TransportHTTP = ''http''"
definition TransportWS :: string where "TransportWS = ''ws''"

record callback =
  cb_Hook :: string
  cb_Transport :: string
  cb_Received :: int
  cb_Method :: string
  cb_Headers :: "string \<rightharpoonup> string"
  cb_Body :: string
  cb_JSON :: "members option"
  cb_TestID :: string
  cb_Transport2 :: string

definition no_callback :: callback where
  "no_callback = \<lparr>cb_Hook = [], cb_Transport = [], cb_Received = 0, cb_Method = [],
     cb_Headers = Map.empty, cb_Body = [], cb_JSON = None, cb_TestID = [], cb_Transport2 = []\<rparr>"

definition cb_String :: "callback \<Rightarrow> string \<Rightarrow> string" where
  "cb_String c field =
     (case cb_JSON c of None \<Rightarrow> [] | Some m \<Rightarrow> str_member0 m field)"

definition cb_Int :: "callback \<Rightarrow> string \<Rightarrow> int" where
  "cb_Int c field =
     (case cb_JSON c of None \<Rightarrow> 0
      | Some m \<Rightarrow> (case member_of m field of JNum n e \<Rightarrow> num_trunc n e | _ \<Rightarrow> 0))"

definition cb_Bool :: "callback \<Rightarrow> string \<Rightarrow> bool" where
  "cb_Bool c field =
     (case cb_JSON c of None \<Rightarrow> False
      | Some m \<Rightarrow> (case as_bool (member_of m field) of Some b \<Rightarrow> b | None \<Rightarrow> False))"

definition CustomerData :: "callback \<Rightarrow> members option" where
  "CustomerData c =
     (case cb_JSON c of None \<Rightarrow> None | Some m \<Rightarrow> obj_member m ''customerData'')"

fun splitPath_loop :: "string list \<Rightarrow> string \<Rightarrow> string \<Rightarrow> string list" where
  "splitPath_loop out cur [] = (if cur \<noteq> [] then out @ [cur] else out)"
| "splitPath_loop out cur (ch # p) =
     (if ch = CHR ''.'' then splitPath_loop (out @ [cur]) [] p
      else splitPath_loop out (cur @ [ch]) p)"

definition splitPath :: "string \<Rightarrow> string list" where
  "splitPath p = splitPath_loop [] [] p"

text \<open>
  The index loop of \<open>NestedAny\<close>: \<open>None\<close> is its early \<open>return nil\<close>. The flag is \<open>i == 0\<close>.
\<close>

fun seg_index :: "bool \<Rightarrow> int \<Rightarrow> string \<Rightarrow> int option" where
  "seg_index first idx [] = Some idx"
| "seg_index first idx (ch # seg) =
     (if first \<and> ch = CHR ''-'' then seg_index False 0 seg
      else if \<not> is_digit ch then None
      else let idx1 = (if idx < 0 then 0 else idx)
           in seg_index False (wrap64 (wrap64 (idx1 * 10) + digit_val ch)) seg)"

fun descend :: "json \<Rightarrow> string list \<Rightarrow> json go" where
  "descend cur [] = Ret cur"
| "descend cur (seg # segs) =
     (case cur of
        JObj m \<Rightarrow>
          (let cur' = member_of m seg in if cur' = JNull then Ret JNull else descend cur' segs)
      | JArr xs \<Rightarrow>
          (case seg_index True (- 1) seg of
             None \<Rightarrow> Ret JNull
           | Some idx \<Rightarrow>
               if idx < 0 \<or> int (length xs) \<le> idx then Ret JNull
               else go_bind (go_index xs idx)
                      (\<lambda>cur'. if cur' = JNull then Ret JNull else descend cur' segs))
      | _ \<Rightarrow> Ret JNull)"

definition NestedAny :: "callback \<Rightarrow> string \<Rightarrow> json go" where
  "NestedAny c path =
     (case cb_JSON c of None \<Rightarrow> Ret JNull
      | Some m \<Rightarrow> if path = [] then Ret JNull else descend (JObj m) (splitPath path))"

definition NestedString :: "callback \<Rightarrow> string \<Rightarrow> string go" where
  "NestedString c path =
     go_bind (NestedAny c path)
       (\<lambda>v. Ret (case as_str v of Some s \<Rightarrow> s | None \<Rightarrow> []))"

section \<open>Hook outcomes\<close>

record hook_outcome =
  out_Status :: int
  out_Verbs :: "script option"
  out_Body :: string
  out_BodyFunc :: "(callback \<Rightarrow> string) option"

definition no_outcome :: hook_outcome where
  "no_outcome = \<lparr>out_Status = 0, out_Verbs = None, out_Body = [], out_BodyFunc = None\<rparr>"

definition httpStatusOf :: "hook_outcome \<Rightarrow> int" where
  "httpStatusOf out = (if out_Status out = 0 then 200 else out_Status out)"

section \<open>WebSocket frames and sessions\<close>

datatype ws_kind = WSText | WSBinary

record ws_message =
  msg_Kind :: ws_kind
  msg_Received :: int
  msg_Text :: string
  msg_Binary :: string
  msg_JSON :: "members option"

record ws_session =
  ws_conn :: "nat option"
  ws_inbound :: "ws_message chan"
  ws_metadata :: "members option"
  ws_closed :: bool
  ws_closedCh :: "unit chan"

definition newWSSession :: ws_session where
  "newWSSession = \<lparr>ws_conn = None, ws_inbound = make_chan 256, ws_metadata = None,
     ws_closed = False, ws_closedCh = make_chan 0\<rparr>"

section \<open>Paths\<close>

text \<open>
  What a path means: a step into an object by key or into an array by position. A path is
  written as its steps joined by dots.
\<close>

datatype path_step = Key string | Pos nat

fun seg_of :: "path_step \<Rightarrow> string" where
  "seg_of (Key k) = k"
| "seg_of (Pos n) = show_nat n"

fun join_dots :: "string list \<Rightarrow> string" where
  "join_dots [] = []"
| "join_dots [s] = s"
| "join_dots (s # t # r) = s @ CHR ''.'' # join_dots (t # r)"

fun value_at :: "json \<Rightarrow> path_step list \<Rightarrow> json option" where
  "value_at v [] = Some v"
| "value_at (JObj m) (Key k # p) =
     (if member_of m k = JNull then None else value_at (member_of m k) p)"
| "value_at (JArr xs) (Pos n # p) =
     (if n < length xs \<and> xs ! n \<noteq> JNull then value_at (xs ! n) p else None)"
| "value_at _ _ = None"

fun writable :: "path_step \<Rightarrow> bool" where
  "writable (Key k) \<longleftrightarrow> k \<noteq> [] \<and> CHR ''.'' \<notin> set k"
| "writable (Pos n) \<longleftrightarrow> int n < 2 ^ 63"

lemma splitPath_loop_eq:
  "CHR ''.'' \<notin> set s \<Longrightarrow> splitPath_loop out cur (s @ CHR ''.'' # p) = splitPath_loop (out @ [cur @ s]) [] p"
  by (induction s arbitrary: cur) auto

lemma splitPath_loop_last:
  "CHR ''.'' \<notin> set s \<Longrightarrow> s \<noteq> [] \<Longrightarrow> splitPath_loop out [] s = out @ [s]"
proof -
  have "CHR ''.'' \<notin> set s \<Longrightarrow> splitPath_loop out cur s = (if cur @ s \<noteq> [] then out @ [cur @ s] else out)" for cur
    by (induction s arbitrary: cur) auto
  then show "CHR ''.'' \<notin> set s \<Longrightarrow> s \<noteq> [] \<Longrightarrow> splitPath_loop out [] s = out @ [s]" by simp
qed

lemma splitPath_join_aux:
  "list_all (\<lambda>s. s \<noteq> [] \<and> CHR ''.'' \<notin> set s) segs \<Longrightarrow> segs \<noteq> [] \<Longrightarrow>
     splitPath_loop out [] (join_dots segs) = out @ segs"
proof (induction segs arbitrary: out rule: join_dots.induct)
  case 1
  then show ?case by simp
next
  case (2 s)
  then show ?case by (simp add: splitPath_loop_last)
next
  case (3 s t r)
  then show ?case by (simp add: splitPath_loop_eq)
qed

lemma splitPath_join:
  "list_all (\<lambda>s. s \<noteq> [] \<and> CHR ''.'' \<notin> set s) segs \<Longrightarrow> segs \<noteq> [] \<Longrightarrow>
     splitPath (join_dots segs) = segs"
  by (simp add: splitPath_def splitPath_join_aux)

lemma seg_index_digits:
  "list_all is_digit ds \<Longrightarrow> 0 \<le> n \<Longrightarrow>
     fold (\<lambda>c n. 10 * n + digit_val c) ds n < 2 ^ 63 \<Longrightarrow>
     seg_index False n ds = Some (fold (\<lambda>c n. 10 * n + digit_val c) ds n)"
proof (induction ds arbitrary: n)
  case Nil
  then show ?case by simp
next
  case (Cons d ds)
  have mono: "m \<le> fold (\<lambda>c n. 10 * n + digit_val c) es m"
    if "list_all is_digit es" "0 \<le> m" for es m
    using that
  proof (induction es arbitrary: m)
    case Nil
    then show ?case by simp
  next
    case (Cons e es)
    then have "0 \<le> 10 * m + digit_val e" and "m \<le> 10 * m + digit_val e"
      using digit_val_range [of e] by auto
    with Cons show ?case by fastforce
  qed
  have d: "0 \<le> digit_val d" "digit_val d \<le> 9" using Cons.prems(1) digit_val_range by auto
  then have "10 * n + digit_val d \<le> fold (\<lambda>c n. 10 * n + digit_val c) ds (10 * n + digit_val d)"
    using Cons.prems mono by simp
  then have "10 * n + digit_val d < 2 ^ 63" using Cons.prems(3) by simp
  then have "wrap64 (wrap64 (n * 10) + digit_val d) = 10 * n + digit_val d"
    using Cons.prems(2) d by simp
  then show ?case using Cons d by simp
qed

lemma seg_index_show_nat:
  assumes "int n < 2 ^ 63"
  shows "seg_index True (- 1) (show_nat n) = Some (int n)"
    and "seg_index False 0 (show_nat n) = Some (int n)"
proof -
  obtain d ds where s: "show_nat n = d # ds" by (cases "show_nat n") auto
  have all: "list_all is_digit (d # ds)" using show_nat_digits [of n] s by simp
  have v: "fold (\<lambda>c n. 10 * n + digit_val c) (d # ds) 0 = int n"
    using digits_val_show_nat [of n] s by (simp add: digits_val_def)
  have f: "seg_index False 0 (d # ds) = Some (int n)"
    using seg_index_digits [OF all, of 0] v assms by simp
  then show "seg_index False 0 (show_nat n) = Some (int n)" by (simp add: s)
  have "d \<noteq> CHR ''-''" using all by (auto simp: is_digit_def code_def)
  then have "seg_index True (- 1) (d # ds) = seg_index False 0 (d # ds)" using all by simp
  with f s show "seg_index True (- 1) (show_nat n) = Some (int n)" by simp
qed

lemma descend_value_at:
  "list_all writable p \<Longrightarrow> value_at v p = Some w \<Longrightarrow> descend v (map seg_of p) = Ret w"
  by (induction v p rule: value_at.induct)
     (auto simp: seg_index_show_nat Let_def split: if_splits)

lemma descend_ret: "\<exists>v. descend cur segs = Ret v"
  by (induction cur segs rule: descend.induct)
     (auto simp: Let_def split: json.splits option.splits)

lemma writable_seg: "writable s \<Longrightarrow> seg_of s \<noteq> [] \<and> CHR ''.'' \<notin> set (seg_of s)"
proof (cases s)
  case (Pos n)
  have "\<forall>c\<in>set (show_nat n). is_digit c" using show_nat_digits by (simp add: list_all_iff)
  moreover have "\<not> is_digit (CHR ''.'')" by (simp add: is_digit_def code_def)
  ultimately show ?thesis using Pos by auto
qed simp

section \<open>Properties\<close>

text \<open>
  The path accessor never panics, whatever the decoded body and whatever the path
  (empty, doubled dots, signs, digit strings that overflow the index variable).
\<close>

theorem NestedAny_never_panics: "\<exists>v. NestedAny c path = Ret v"
  by (auto simp: NestedAny_def descend_ret split: option.splits)

text \<open>
  Every value that a sequence of keys and positions leads to is what
  \<open>NestedAny\<close> returns for the dotted text of that sequence.
\<close>

theorem NestedAny_finds:
  assumes "cb_JSON c = Some m" and "p \<noteq> []" and "list_all writable p"
    and "value_at (JObj m) p = Some w"
  shows "NestedAny c (join_dots (map seg_of p)) = Ret w"
proof -
  have segs: "list_all (\<lambda>s. s \<noteq> [] \<and> CHR ''.'' \<notin> set s) (map seg_of p)"
    using assms(3) by (auto simp: list_all_iff dest: writable_seg)
  then have "splitPath (join_dots (map seg_of p)) = map seg_of p"
    using assms(2) by (intro splitPath_join) auto
  moreover have "join_dots (map seg_of p) \<noteq> []"
    using calculation assms(2) by (auto simp: splitPath_def)
  ultimately show ?thesis using assms(1,3,4) descend_value_at by (simp add: NestedAny_def)
qed

definition sample_callback :: callback where
  "sample_callback = no_callback\<lparr>cb_JSON := Some
     [(''speech'', JObj [(''alternatives'', JArr [JObj [(''transcript'', JStr ''hello'')]])])]\<rparr>"

theorem NestedAny_finds_witness:
  "NestedAny sample_callback (join_dots (map seg_of
     [Key ''speech'', Key ''alternatives'', Pos 0, Key ''transcript''])) = Ret (JStr ''hello'')"
  by (rule NestedAny_finds [where m = "the (cb_JSON sample_callback)"])
     (simp_all add: sample_callback_def)

text \<open>
  A signed array index is not rejected: the sign is skipped and the element at the
  absolute position comes back.
\<close>

theorem NestedAny_ignores_sign:
  assumes "cb_JSON c = Some m" and "member_of m k = JArr xs"
    and "k \<noteq> []" and "CHR ''.'' \<notin> set k" and "n < length xs" and "int n < 2 ^ 63"
    and "xs ! n = JStr s"
  shows "NestedAny c (k @ ''.-'' @ show_nat n) = Ret (JStr s)"
proof -
  have "CHR ''.'' \<notin> set (CHR ''-'' # show_nat n)"
    using writable_seg [of "Pos n"] assms(6) by simp
  then have "splitPath (k @ ''.-'' @ show_nat n) = [k, CHR ''-'' # show_nat n]"
    using splitPath_join [of "[k, CHR ''-'' # show_nat n]"] assms(3,4) by simp
  then show ?thesis using assms
    by (simp add: NestedAny_def seg_index_show_nat)
qed

theorem NestedAny_ignores_sign_witness:
  "NestedAny (no_callback\<lparr>cb_JSON := Some [(''a'', JArr [JStr ''x'', JStr ''y''])]\<rparr>)
     (''a'' @ ''.-'' @ show_nat 1) = Ret (JStr ''y'')"
  by (rule NestedAny_ignores_sign
        [where m = "[(''a'', JArr [JStr ''x'', JStr ''y''])]" and xs = "[JStr ''x'', JStr ''y'']"])
     simp_all

end
