(* ===== verification/Webhook_Registry.thy ===== *)
theory Webhook_Registry
  imports Webhook_Types
begin

text \<open>
  \<open>internal/webhook/registry.go\<close>: the registry of per-test sessions, its secondary index from
  call_sid to test id, and the operations of one session. Sessions are shared by pointer (a
  handler keeps the session it resolved, a test keeps the one it was given, also after
  \<open>Release\<close>), so the registry holds addresses into a heap of sessions that only grows.
\<close>

section \<open>Sessions\<close>

record session =
  s_id :: string
  s_callHook :: "hook_outcome option"
  s_actionHooks :: "string \<rightharpoonup> hook_outcome"
  s_pending :: "callback chan"
  s_errs :: "string list"
  s_ws :: "ws_session option"
  s_appConn :: "nat option"

definition new_session :: "string \<Rightarrow> session" where
  "new_session testID = \<lparr>s_id = testID, s_callHook = None, s_actionHooks = Map.empty,
     s_pending = make_chan 32, s_errs = [], s_ws = None, s_appConn = None\<rparr>"

definition BindAppConn :: "nat \<Rightarrow> session \<Rightarrow> session" where
  "BindAppConn c s = s\<lparr>s_appConn := Some c\<rparr>"

text \<open>
  The transport below \<open>SendCommand\<close> is a parameter: the error, if any, of writing a text frame
  to a connection. The result is the frames written and the error returned.
\<close>

definition command_frame :: "string \<Rightarrow> json \<Rightarrow> json" where
  "command_frame command d =
     JObj [(''type'', JStr ''command''), (''command'', JStr command), (''data'', d)]"

definition SendCommand ::
  "(nat \<Rightarrow> json \<Rightarrow> string option) \<Rightarrow> string \<Rightarrow> json \<Rightarrow> session \<Rightarrow> (nat \<times> json) list \<times> string option" where
  "SendCommand write command d s =
     (case s_appConn s of
        None \<Rightarrow> ([], Some (''session '' @ s_id s @ '' has no application WebSocket; ''
                         @ ''place the call with placeWSCallTo to use SendCommand''))
      | Some conn \<Rightarrow>
          (case write conn (command_frame command d) of
             Some err \<Rightarrow> ([], Some (''send command '' @ command @ '': '' @ err))
           | None \<Rightarrow> ([(conn, command_frame command d)], None)))"

definition ScriptCallHook :: "script \<Rightarrow> session \<Rightarrow> session" where
  "ScriptCallHook verbs s = s\<lparr>s_callHook := Some (no_outcome\<lparr>out_Verbs := Some verbs\<rparr>)\<rparr>"

definition ScriptActionHook :: "string \<Rightarrow> script \<Rightarrow> session \<Rightarrow> session" where
  "ScriptActionHook verbName verbs s =
     s\<lparr>s_actionHooks := (s_actionHooks s)(verbName \<mapsto> no_outcome\<lparr>out_Verbs := Some verbs\<rparr>)\<rparr>"

definition ScriptActionHookBody :: "string \<Rightarrow> string \<Rightarrow> session \<Rightarrow> session" where
  "ScriptActionHookBody verbName body s =
     s\<lparr>s_actionHooks := (s_actionHooks s)
         (verbName \<mapsto> no_outcome\<lparr>out_Status := 200, out_Body := body\<rparr>)\<rparr>"

definition ScriptActionHookBodyFunc :: "string \<Rightarrow> (callback \<Rightarrow> string) \<Rightarrow> session \<Rightarrow> session" where
  "ScriptActionHookBodyFunc verbName fn s =
     s\<lparr>s_actionHooks := (s_actionHooks s)
         (verbName \<mapsto> no_outcome\<lparr>out_Status := 200, out_BodyFunc := Some fn\<rparr>)\<rparr>"

definition outcomeForCallHook :: "session \<Rightarrow> hook_outcome" where
  "outcomeForCallHook s =
     (case s_callHook s of
        None \<Rightarrow> no_outcome\<lparr>out_Verbs := Some [JObj [(''verb'', JStr ''hangup'')]]\<rparr>
      | Some out \<Rightarrow> out)"

definition outcomeForActionHook :: "string \<Rightarrow> session \<Rightarrow> hook_outcome" where
  "outcomeForActionHook verbName s =
     (case s_actionHooks s verbName of
        Some out \<Rightarrow> out
      | None \<Rightarrow> no_outcome\<lparr>out_Status := 200, out_Body := ''[]''\<rparr>)"

definition record_cb :: "callback \<Rightarrow> session \<Rightarrow> session go" where
  "record_cb cb s =
     go_bind (try_send cb (s_pending s))
       (\<lambda>sent. Ret (case sent of
            Some ch \<Rightarrow> s\<lparr>s_pending := ch\<rparr>
          | None \<Rightarrow> s\<lparr>s_errs := s_errs s @ [''callback queue full, dropped '' @ cb_Hook cb]\<rparr>))"

text \<open>
  \<open>WaitCallback\<close>: \<open>done\<close> is the context's error once it is done. When a callback is queued and
  the context is done, Go picks either branch; \<open>pick_done\<close> is that choice.
\<close>

datatype wait_result = WaitGot callback session | WaitErr string | WaitBlocked

definition WaitCallback :: "string option \<Rightarrow> bool \<Rightarrow> session \<Rightarrow> wait_result" where
  "WaitCallback done pick_done s =
     (case (done, try_recv (s_pending s)) of
        (Some err, Got cb ch) \<Rightarrow>
          if pick_done then WaitErr err else WaitGot cb (s\<lparr>s_pending := ch\<rparr>)
      | (Some err, _) \<Rightarrow> WaitErr err
      | (None, Got cb ch) \<Rightarrow> WaitGot cb (s\<lparr>s_pending := ch\<rparr>)
      | (None, RecvClosed) \<Rightarrow> WaitGot no_callback s
      | (None, RecvWouldBlock) \<Rightarrow> WaitBlocked)"

text \<open>
  What one round of the loop of \<open>WaitCallbackFor\<close> sees of its surroundings: the time left until
  the deadline (if the context has one), what \<open>ctx.Err()\<close> returns at that moment, the callbacks
  that arrive before the \<open>select\<close> fires, and the state of the inner context then.
\<close>

record wait_round =
  wr_remaining :: "int option"
  wr_ctxErr :: "string option"
  wr_arrivals :: "callback list"
  wr_innerDone :: "string option"
  wr_pickDone :: bool

datatype wait_for = Returned callback "string option" session | StillWaiting session

fun WaitCallbackFor :: "string \<Rightarrow> wait_round list \<Rightarrow> session \<Rightarrow> wait_for go" where
  "WaitCallbackFor hook [] s = Ret (StillWaiting s)"
| "WaitCallbackFor hook (w # ws) s =
     (if (case wr_remaining w of Some d \<Rightarrow> d \<le> 0 | None \<Rightarrow> False)
      then Ret (Returned no_callback (wr_ctxErr w) s)
      else go_bind (go_fold record_cb (wr_arrivals w) s)
        (\<lambda>s1. case WaitCallback (wr_innerDone w) (wr_pickDone w) s1 of
            WaitErr err \<Rightarrow> Ret (Returned no_callback (Some err) s1)
          | WaitBlocked \<Rightarrow> Ret (StillWaiting s1)
          | WaitGot cb s2 \<Rightarrow>
              if cb_Hook cb = hook then Ret (Returned cb None s2)
              else WaitCallbackFor hook ws s2))"

definition Errors :: "session \<Rightarrow> string list" where
  "Errors s = s_errs s"

section \<open>The registry\<close>

record registry =
  r_sessions :: "string \<rightharpoonup> nat"
  r_callSidIndex :: "string \<rightharpoonup> string"
  r_heap :: "session list"

definition NewRegistry :: registry where
  "NewRegistry = \<lparr>r_sessions = Map.empty, r_callSidIndex = Map.empty, r_heap = []\<rparr>"

definition BindCallSid :: "string \<Rightarrow> string \<Rightarrow> registry \<Rightarrow> registry" where
  "BindCallSid callSid testID r =
     (if callSid = [] \<or> testID = [] \<or> testID = ''_anon'' then r
      else r\<lparr>r_callSidIndex := (r_callSidIndex r)(callSid \<mapsto> testID)\<rparr>)"

definition Lookup :: "string \<Rightarrow> registry \<Rightarrow> nat option" where
  "Lookup testID r = r_sessions r testID"

definition LookupByCallSid :: "string \<Rightarrow> registry \<Rightarrow> nat option" where
  "LookupByCallSid callSid r =
     (if callSid = [] then None
      else case r_callSidIndex r callSid of
        None \<Rightarrow> None
      | Some testID \<Rightarrow> r_sessions r testID)"

definition reg_New :: "string \<Rightarrow> registry \<Rightarrow> nat \<times> registry" where
  "reg_New testID r =
     (case r_sessions r testID of
        Some a \<Rightarrow> (a, r)
      | None \<Rightarrow>
          (length (r_heap r),
           r\<lparr>r_sessions := (r_sessions r)(testID \<mapsto> length (r_heap r)),
             r_heap := r_heap r @ [new_session testID]\<rparr>))"

definition Release :: "string \<Rightarrow> registry \<Rightarrow> registry" where
  "Release testID r = r\<lparr>r_sessions := (r_sessions r)(testID := None)\<rparr>"

text \<open>A session method called through a pointer.\<close>

definition at_session :: "nat \<Rightarrow> (session \<Rightarrow> session go) \<Rightarrow> registry \<Rightarrow> registry go" where
  "at_session a f r =
     go_bind (go_index (r_heap r) (int a))
       (\<lambda>s. go_bind (f s) (\<lambda>s'. Ret (r\<lparr>r_heap := (r_heap r)[a := s']\<rparr>)))"

section \<open>Invariants\<close>

definition session_ok :: "session \<Rightarrow> bool" where
  "session_ok s \<longleftrightarrow> \<not> ch_closed (s_pending s) \<and> ch_cap (s_pending s) = 32
     \<and> length (ch_buf (s_pending s)) \<le> 32"

definition registry_ok :: "registry \<Rightarrow> bool" where
  "registry_ok r \<longleftrightarrow>
     (\<forall>tid a. r_sessions r tid = Some a \<longrightarrow> a < length (r_heap r) \<and> s_id (r_heap r ! a) = tid)
     \<and> (\<forall>cs tid. r_callSidIndex r cs = Some tid \<longrightarrow> cs \<noteq> [] \<and> tid \<noteq> [] \<and> tid \<noteq> ''_anon'')
     \<and> list_all session_ok (r_heap r)"

lemma session_ok_new [simp]: "session_ok (new_session tid)"
  by (simp add: session_ok_def new_session_def)

lemma s_id_new [simp]: "s_id (new_session tid) = tid"
  by (simp add: new_session_def)

lemma record_cb_fits:
  "session_ok s \<Longrightarrow> length (ch_buf (s_pending s)) < 32 \<Longrightarrow>
     record_cb cb s = Ret (s\<lparr>s_pending := (s_pending s)\<lparr>ch_buf := ch_buf (s_pending s) @ [cb]\<rparr>\<rparr>)"
  by (simp add: record_cb_def session_ok_def try_send_open)

lemma record_cb_full:
  "session_ok s \<Longrightarrow> \<not> length (ch_buf (s_pending s)) < 32 \<Longrightarrow>
     record_cb cb s = Ret (s\<lparr>s_errs := s_errs s @ [''callback queue full, dropped '' @ cb_Hook cb]\<rparr>)"
  by (simp add: record_cb_def session_ok_def try_send_open)

interpretation pending: bounded_sink record_cb
  "\<lambda>s. ch_buf (s_pending s)" "\<lambda>s. length (s_errs s)" session_ok 32
  by unfold_locales (auto simp: record_cb_fits record_cb_full, auto simp: session_ok_def)

lemma record_cb_id: "session_ok s \<Longrightarrow> record_cb cb s = Ret t \<Longrightarrow> s_id t = s_id s \<and> s_ws t = s_ws s
    \<and> s_callHook t = s_callHook s \<and> s_actionHooks t = s_actionHooks s"
  by (cases "length (ch_buf (s_pending s)) < 32") (auto simp: record_cb_fits record_cb_full)

section \<open>The registry as a machine\<close>

text \<open>
  The atomic operations (each runs under a mutex): those of the registry, and those a handler
  or a test performs on a session it holds. No handler holds an address outside the heap, so
  the step ignores one.
\<close>

datatype reg_op =
    OpNew string
  | OpRelease string
  | OpBind string string
  | OpRecord nat callback
  | OpScriptCall nat script
  | OpScriptAction nat string hook_outcome
  | OpBindApp nat nat
  | OpWait nat "string option" bool

definition take_callback :: "string option \<Rightarrow> bool \<Rightarrow> session \<Rightarrow> session go" where
  "take_callback done pick s =
     Ret (case WaitCallback done pick s of WaitGot _ t \<Rightarrow> t | _ \<Rightarrow> s)"

fun reg_step :: "reg_op \<Rightarrow> registry \<Rightarrow> registry go" where
  "reg_step (OpNew tid) r = Ret (snd (reg_New tid r))"
| "reg_step (OpRelease tid) r = Ret (Release tid r)"
| "reg_step (OpBind cs tid) r = Ret (BindCallSid cs tid r)"
| "reg_step (OpRecord a cb) r = (if a < length (r_heap r) then at_session a (record_cb cb) r else Ret r)"
| "reg_step (OpScriptCall a v) r =
     (if a < length (r_heap r) then at_session a (\<lambda>s. Ret (ScriptCallHook v s)) r else Ret r)"
| "reg_step (OpScriptAction a v out) r =
     (if a < length (r_heap r)
      then at_session a (\<lambda>s. Ret (s\<lparr>s_actionHooks := (s_actionHooks s)(v \<mapsto> out)\<rparr>)) r else Ret r)"
| "reg_step (OpBindApp a c) r =
     (if a < length (r_heap r) then at_session a (\<lambda>s. Ret (BindAppConn c s)) r else Ret r)"
| "reg_step (OpWait a done pick) r =
     (if a < length (r_heap r) then at_session a (take_callback done pick) r else Ret r)"

lemma registry_okI:
  assumes "\<And>tid a. r_sessions r tid = Some a \<Longrightarrow> a < length (r_heap r) \<and> s_id (r_heap r ! a) = tid"
    and "\<And>cs tid. r_callSidIndex r cs = Some tid \<Longrightarrow> cs \<noteq> [] \<and> tid \<noteq> [] \<and> tid \<noteq> ''_anon''"
    and "list_all session_ok (r_heap r)"
  shows "registry_ok r"
  using assms by (simp add: registry_ok_def)

lemma registry_ok_sessions:
  "registry_ok r \<Longrightarrow> r_sessions r tid = Some a \<Longrightarrow> a < length (r_heap r) \<and> s_id (r_heap r ! a) = tid"
  by (simp add: registry_ok_def)

lemma registry_ok_index:
  "registry_ok r \<Longrightarrow> r_callSidIndex r cs = Some tid \<Longrightarrow> cs \<noteq> [] \<and> tid \<noteq> [] \<and> tid \<noteq> ''_anon''"
  unfolding registry_ok_def by blast

lemma registry_ok_heap: "registry_ok r \<Longrightarrow> a < length (r_heap r) \<Longrightarrow> session_ok (r_heap r ! a)"
  by (simp add: registry_ok_def list_all_length)

lemma registry_ok_empty [simp]: "registry_ok NewRegistry"
  by (simp add: registry_ok_def NewRegistry_def)

lemma registry_ok_New: "registry_ok r \<Longrightarrow> registry_ok (snd (reg_New tid r))"
proof (cases "r_sessions r tid")
  case None
  assume ok: "registry_ok r"
  show ?thesis
  proof (rule registry_okI)
    fix i a
    assume "r_sessions (snd (reg_New tid r)) i = Some a"
    then show "a < length (r_heap (snd (reg_New tid r))) \<and> s_id (r_heap (snd (reg_New tid r)) ! a) = i"
      using None registry_ok_sessions [OF ok, of i a]
      by (auto simp: reg_New_def nth_append split: if_splits)
  next
    fix cs i
    assume "r_callSidIndex (snd (reg_New tid r)) cs = Some i"
    then show "cs \<noteq> [] \<and> i \<noteq> [] \<and> i \<noteq> ''_anon''"
      using None registry_ok_index [OF ok] by (simp add: reg_New_def)
  next
    show "list_all session_ok (r_heap (snd (reg_New tid r)))"
      using None ok by (simp add: reg_New_def registry_ok_def)
  qed
qed (simp add: reg_New_def)

lemma registry_ok_Release: "registry_ok r \<Longrightarrow> registry_ok (Release tid r)"
  by (rule registry_okI)
    (auto simp: Release_def registry_ok_def split: if_splits)

lemma registry_ok_Bind: "registry_ok r \<Longrightarrow> registry_ok (BindCallSid cs tid r)"
  by (rule registry_okI)
    (auto simp: BindCallSid_def registry_ok_def split: if_splits)

lemma at_session_ok:
  assumes "registry_ok r" and "a < length (r_heap r)"
    and "\<And>s. session_ok s \<Longrightarrow> \<exists>t. f s = Ret t \<and> session_ok t \<and> s_id t = s_id s"
  shows "\<exists>r'. at_session a f r = Ret r' \<and> registry_ok r' \<and> r_sessions r' = r_sessions r
           \<and> r_callSidIndex r' = r_callSidIndex r \<and> length (r_heap r') = length (r_heap r)
           \<and> (\<forall>b. b \<noteq> a \<longrightarrow> r_heap r' ! b = r_heap r ! b)"
proof -
  from assms(3) registry_ok_heap [OF assms(1,2)] obtain t
    where t: "f (r_heap r ! a) = Ret t" "session_ok t" "s_id t = s_id (r_heap r ! a)" by blast
  let ?r = "r\<lparr>r_heap := (r_heap r)[a := t]\<rparr>"
  have "at_session a f r = Ret ?r" using t(1) assms(2) by (simp add: at_session_def)
  moreover have "registry_ok ?r"
  proof (rule registry_okI)
    fix i b
    assume "r_sessions ?r i = Some b"
    with registry_ok_sessions [OF assms(1), of i b] t(3)
    show "b < length (r_heap ?r) \<and> s_id (r_heap ?r ! b) = i"
      by (cases "b = a") (auto simp: nth_list_update)
  next
    fix cs i
    assume "r_callSidIndex ?r cs = Some i"
    with registry_ok_index [OF assms(1)] show "cs \<noteq> [] \<and> i \<noteq> [] \<and> i \<noteq> ''_anon''" by simp
  next
    show "list_all session_ok (r_heap ?r)"
      using assms(1) t(2) set_update_subset_insert [of "r_heap r" a t]
      by (auto simp: registry_ok_def list_all_iff)
  qed
  ultimately show ?thesis by (auto simp: nth_list_update)
qed

lemma record_cb_keeps:
  "session_ok s \<Longrightarrow> \<exists>t. record_cb cb s = Ret t \<and> session_ok t \<and> s_id t = s_id s"
  using pending.put_ready [of s cb] record_cb_id by blast

lemma take_callback_keeps:
  "session_ok s \<Longrightarrow> \<exists>t. take_callback done pick s = Ret t \<and> session_ok t \<and> s_id t = s_id s"
  by (auto simp: take_callback_def WaitCallback_def try_recv_def session_ok_def
      split: option.splits list.splits)

interpretation reg: guarded_machine reg_step registry_ok
proof unfold_locales
  fix r :: registry and op
  assume ok: "registry_ok r"
  have *: "\<exists>t. (if a < length (r_heap r) then at_session a f r else Ret r) = Ret t \<and> registry_ok t"
    if "\<And>s. session_ok s \<Longrightarrow> \<exists>t. f s = Ret t \<and> session_ok t \<and> s_id t = s_id s" for a f
    using at_session_ok [OF ok _ that, of a] ok by auto
  show "\<exists>t. reg_step op r = Ret t \<and> registry_ok t"
  proof (cases op)
    case (OpNew i)
    then show ?thesis using ok by (simp add: registry_ok_New)
  next
    case (OpRelease i)
    then show ?thesis using ok by (simp add: registry_ok_Release)
  next
    case (OpBind cs i)
    then show ?thesis using ok by (simp add: registry_ok_Bind)
  next
    case (OpRecord a cb)
    then show ?thesis using * [of "record_cb cb" a] record_cb_keeps by simp
  next
    case (OpScriptCall a v)
    then show ?thesis using * [of "\<lambda>s. Ret (ScriptCallHook v s)" a]
      by (simp add: ScriptCallHook_def session_ok_def)
  next
    case (OpScriptAction a v out)
    then show ?thesis
      using * [of "\<lambda>s. Ret (s\<lparr>s_actionHooks := (s_actionHooks s)(v \<mapsto> out)\<rparr>)" a]
      by (simp add: session_ok_def)
  next
    case (OpBindApp a c)
    then show ?thesis using * [of "\<lambda>s. Ret (BindAppConn c s)" a]
      by (simp add: BindAppConn_def session_ok_def)
  next
    case (OpWait a d p)
    then show ?thesis using * [of "take_callback d p" a] take_callback_keeps by simp
  qed
qed

section \<open>The index as a keyed store\<close>

interpretation sid_index: keyed_store "\<lambda>cs r. r_callSidIndex r cs" BindCallSid
  "\<lambda>cs tid. cs \<noteq> [] \<and> tid \<noteq> [] \<and> tid \<noteq> ''_anon''"
  by unfold_locales (auto simp: BindCallSid_def)

lemma BindCallSid_sessions [simp]: "r_sessions (BindCallSid cs tid r) = r_sessions r"
  by (simp add: BindCallSid_def)

lemma BindCallSid_heap [simp]: "r_heap (BindCallSid cs tid r) = r_heap r"
  by (simp add: BindCallSid_def)

lemma reg_New_index [simp]: "r_callSidIndex (snd (reg_New tid r)) = r_callSidIndex r"
  by (simp add: reg_New_def split: option.split)

lemma reg_New_sessions:
  "r_sessions (snd (reg_New tid r)) i = (if i = tid then Some (fst (reg_New tid r)) else r_sessions r i)"
  by (auto simp: reg_New_def split: option.split)

lemma reg_New_heap:
  "\<exists>new. r_heap (snd (reg_New tid r)) = r_heap r @ new \<and> (\<forall>s\<in>set new. s = new_session tid)"
  by (auto simp: reg_New_def split: option.split)

section \<open>Waiting for a hook\<close>

definition quiet :: "wait_round \<Rightarrow> bool" where
  "quiet w \<longleftrightarrow> (case wr_remaining w of Some d \<Rightarrow> 0 < d | None \<Rightarrow> True) \<and> wr_innerDone w = None"

lemma session_ok_pop:
  "session_ok s \<Longrightarrow> ch_buf (s_pending s) = cb # q \<Longrightarrow>
     session_ok (s\<lparr>s_pending := (s_pending s)\<lparr>ch_buf := q\<rparr>\<rparr>)"
  by (auto simp: session_ok_def)

lemma WaitCallback_pop:
  "ch_buf (s_pending s) = cb # q \<Longrightarrow>
     WaitCallback None p s = WaitGot cb (s\<lparr>s_pending := (s_pending s)\<lparr>ch_buf := q\<rparr>\<rparr>)"
  by (simp add: WaitCallback_def try_recv_def)

lemma arrivals_append:
  assumes "session_ok s"
  shows "\<exists>t late. go_fold record_cb cbs s = Ret t \<and> session_ok t
           \<and> ch_buf (s_pending t) = ch_buf (s_pending s) @ late"
  using pending.run_spec [OF assms, of cbs] pending.machine.run_ok [OF assms, of cbs] by auto

lemma WaitCallbackFor_quiet:
  "session_ok s \<Longrightarrow> ch_buf (s_pending s) = pre @ cb # post \<Longrightarrow>
     \<forall>c\<in>set pre. cb_Hook c \<noteq> hook \<Longrightarrow> cb_Hook cb = hook \<Longrightarrow>
     list_all quiet ws \<Longrightarrow> length pre < length ws \<Longrightarrow>
     \<exists>t late. WaitCallbackFor hook ws s = Ret (Returned cb None t)
            \<and> ch_buf (s_pending t) = post @ late"
proof (induction pre arbitrary: ws s post)
  case Nil
  then obtain w ws' where w: "ws = w # ws'" by (cases ws) auto
  from arrivals_append [OF Nil.prems(1), of "wr_arrivals w"] obtain u late
    where u: "go_fold record_cb (wr_arrivals w) s = Ret u"
      "ch_buf (s_pending u) = cb # post @ late" using Nil.prems(2) by auto
  have "quiet w" using Nil.prems(5) w by simp
  with u Nil.prems(4) w WaitCallback_pop [OF u(2), of "wr_pickDone w"] show ?case
    by (auto simp: quiet_def split: option.splits)
next
  case (Cons c pre)
  then obtain w ws' where w: "ws = w # ws'" by (cases ws) auto
  from arrivals_append [OF Cons.prems(1), of "wr_arrivals w"] obtain u late
    where u: "go_fold record_cb (wr_arrivals w) s = Ret u" "session_ok u"
      "ch_buf (s_pending u) = c # pre @ cb # post @ late" using Cons.prems(2) by auto
  let ?v = "u\<lparr>s_pending := (s_pending u)\<lparr>ch_buf := pre @ cb # post @ late\<rparr>\<rparr>"
  have "\<exists>t more. WaitCallbackFor hook ws' ?v = Ret (Returned cb None t)
      \<and> ch_buf (s_pending t) = (post @ late) @ more"
    using Cons.prems w session_ok_pop [OF u(2,3)] by (intro Cons.IH) auto
  moreover have "WaitCallbackFor hook ws s = WaitCallbackFor hook ws' ?v"
    using Cons.prems(3,5) w u(1) WaitCallback_pop [OF u(3), of "wr_pickDone w"]
    by (auto simp: quiet_def split: option.splits)
  ultimately show ?case by auto
qed

lemma WaitCallbackFor_result:
  "session_ok s \<Longrightarrow> WaitCallbackFor hook ws s = Ret (Returned cb None t) \<Longrightarrow>
     cb_Hook cb = hook \<or> (cb = no_callback \<and>
       (\<exists>w\<in>set ws. \<exists>d. wr_remaining w = Some d \<and> d \<le> 0 \<and> wr_ctxErr w = None))"
proof (induction hook ws s rule: WaitCallbackFor.induct)
  case (1 hook s)
  then show ?case by simp
next
  case (2 hook w ws s)
  show ?case
  proof (cases "case wr_remaining w of Some d \<Rightarrow> d \<le> 0 | None \<Rightarrow> False")
    case True
    with "2.prems" show ?thesis by (auto split: option.splits)
  next
    case False
    from arrivals_append [OF "2.prems"(1)] obtain u late
      where u: "go_fold record_cb (wr_arrivals w) s = Ret u" "session_ok u" by blast
    show ?thesis
    proof (cases "WaitCallback (wr_innerDone w) (wr_pickDone w) u")
      case (WaitGot c v)
      have "session_ok v" using WaitGot u(2)
        by (auto simp: WaitCallback_def try_recv_def session_ok_def
            split: option.splits list.splits if_splits)
      with WaitGot False u "2.prems" "2.IH" show ?thesis by (auto split: if_splits)
    next
      case (WaitErr e)
      with False u "2.prems" show ?thesis by auto
    next
      case WaitBlocked
      with False u "2.prems" show ?thesis by auto
    qed
  qed
qed

section \<open>Properties\<close>

text \<open>
  From the empty registry, no sequence of operations (registering, releasing,
  binding a call_sid, recording, scripting, consuming, in any order) panics, and afterwards
  every registered id leads to the session that carries it, the index binds no empty or
  anonymous entry, and every callback queue is open and within its capacity.
\<close>

theorem registry_always_ok:
  "\<exists>r. go_fold reg_step ops NewRegistry = Ret r \<and> registry_ok r"
  by (rule reg.run_ok) simp

text \<open>
  Recording never blocks and never loses count: a fresh session keeps the
  first 32 callbacks in arrival order and flags one error for each further one.
\<close>

theorem record_keeps_first_32:
  "\<exists>t. go_fold record_cb cbs (new_session tid) = Ret t
     \<and> ch_buf (s_pending t) = take 32 cbs \<and> length (Errors t) = length cbs - 32"
proof -
  have "ch_buf (s_pending (new_session tid)) = [] \<and> s_errs (new_session tid) = []"
    by (simp add: new_session_def)
  then show ?thesis using pending.run_spec [of "new_session tid" cbs]
    by (auto simp: Errors_def)
qed

text \<open>
  While the context has time left, waiting for a hook returns the first queued
  callback of that hook, discards the ones before it and leaves the ones behind it queued.
\<close>

theorem WaitCallbackFor_first_match:
  assumes "session_ok s" and "ch_buf (s_pending s) = pre @ cb # post"
    and "\<forall>c\<in>set pre. cb_Hook c \<noteq> hook" and "cb_Hook cb = hook"
    and "list_all quiet ws" and "length pre < length ws"
  shows "\<exists>t late. WaitCallbackFor hook ws s = Ret (Returned cb None t)
           \<and> ch_buf (s_pending t) = post @ late"
  using assms by (rule WaitCallbackFor_quiet)

definition hook_named :: "string \<Rightarrow> callback" where
  "hook_named h = no_callback\<lparr>cb_Hook := h\<rparr>"

definition quiet_round :: wait_round where
  "quiet_round = \<lparr>wr_remaining = Some 5, wr_ctxErr = None, wr_arrivals = [],
     wr_innerDone = None, wr_pickDone = False\<rparr>"

definition queued_session :: "string list \<Rightarrow> session" where
  "queued_session hs = (new_session ''t'')
     \<lparr>s_pending := (make_chan 32)\<lparr>ch_buf := map hook_named hs\<rparr>\<rparr>"

theorem WaitCallbackFor_first_match_witness:
  "\<exists>t late. WaitCallbackFor ''call_hook'' [quiet_round, quiet_round]
       (queued_session [''call_status_hook'', ''call_hook'', ''action/dial''])
     = Ret (Returned (hook_named ''call_hook'') None t)
     \<and> ch_buf (s_pending t) = [hook_named ''action/dial''] @ late"
  by (rule WaitCallbackFor_first_match [where pre = "[hook_named ''call_status_hook'']"])
    (simp_all add: queued_session_def session_ok_def hook_named_def quiet_round_def quiet_def)

text \<open>
  A nil error from \<open>WaitCallbackFor\<close> does not by itself mean that a callback of the
  hook arrived: the other possibility is the empty callback, returned when the deadline has
  just passed and \<open>ctx.Err()\<close> is still nil. There is no third one.
\<close>

theorem WaitCallbackFor_nil_error:
  assumes "session_ok s" and "WaitCallbackFor hook ws s = Ret (Returned cb None t)"
  shows "cb_Hook cb = hook \<or> (cb = no_callback \<and>
           (\<exists>w\<in>set ws. \<exists>d. wr_remaining w = Some d \<and> d \<le> 0 \<and> wr_ctxErr w = None))"
  using assms by (rule WaitCallbackFor_result)

text \<open>The second possibility occurs: the deadline is passed, the context has no error yet.\<close>

theorem WaitCallbackFor_nil_error_witness:
  "cb_Hook no_callback = ''call_hook'' \<or> (no_callback = no_callback \<and>
     (\<exists>w\<in>set [quiet_round\<lparr>wr_remaining := Some 0\<rparr>].
        \<exists>d. wr_remaining w = Some d \<and> d \<le> 0 \<and> wr_ctxErr w = None))"
  by (rule WaitCallbackFor_nil_error [where s = "queued_session []" and t = "queued_session []"])
    (simp_all add: queued_session_def session_ok_def quiet_round_def)

end
