(* ===== verification/Webhook_Correlation.thy ===== *)
theory Webhook_Correlation
  imports Json
begin

text \<open>
  \<open>internal/webhook/correlation.go\<close>: which test an inbound webhook request belongs to. A
  request is what \<open>net/http\<close> hands to a handler: method, path, the header and the parsed query
  (lists of canonical keys with their values) and the body, if any. The lemmas show the exact
  order of precedence of the eight places the id is looked for, and the one input on which an
  earlier place hides a later one although it holds no id.
\<close>

record http_request =
  hr_Method :: string
  hr_Path :: string
  hr_Header :: "(string \<times> string list) list"
  hr_Query :: "(string \<times> string list) list"
  hr_Body :: "string option"

definition CorrelationHeader :: string where
  "CorrelationHeader = ''X-Test-Id''"

definition CorrelationKey :: string where
  "CorrelationKey = ''x_test_id''"

text \<open>\<open>http.Header.Get\<close> and \<open>url.Values.Get\<close>: the first value of a key, or the empty string.\<close>

definition values_get :: "(string \<times> string list) list \<Rightarrow> string \<Rightarrow> string" where
  "values_get h k = (case map_of h k of Some (v # _) \<Rightarrow> v | _ \<Rightarrow> [])"

text \<open>The members of a decoded body; a nil map reads like an empty one.\<close>

definition body_members :: "string \<Rightarrow> members" where
  "body_members body = (case unmarshal_map body of Some (Some m) \<Rightarrow> m | _ \<Rightarrow> [])"

text \<open>The case-insensitive search of \<open>sip.headers\<close>: the first match in iteration order.\<close>

fun ci_header :: "members \<Rightarrow> string option" where
  "ci_header [] = None"
| "ci_header ((k, v) # hdrs) =
     (if equal_fold k CorrelationHeader
      then (case as_str v of Some s \<Rightarrow> Some s | None \<Rightarrow> ci_header hdrs)
      else ci_header hdrs)"

definition sip_headers :: "members \<Rightarrow> members option" where
  "sip_headers m =
     (case obj_member m ''sip'' of None \<Rightarrow> None | Some sip \<Rightarrow> obj_member sip ''headers'')"

definition customer_data_id :: "members \<Rightarrow> string" where
  "customer_data_id m =
     (case obj_member m ''customerData'' of
        None \<Rightarrow> []
      | Some cd \<Rightarrow>
          if str_member0 cd CorrelationKey \<noteq> [] then str_member0 cd CorrelationKey
          else str_member0 cd CorrelationHeader)"

definition extractTestID :: "http_request \<Rightarrow> string \<Rightarrow> string" where
  "extractTestID r body =
     (if values_get (hr_Header r) CorrelationHeader \<noteq> [] then values_get (hr_Header r) CorrelationHeader
      else if values_get (hr_Query r) CorrelationHeader \<noteq> [] then values_get (hr_Query r) CorrelationHeader
      else if body = [] then []
      else if unmarshal_map body = None then []
      else let m = body_members body in
        if str_member0 m CorrelationHeader \<noteq> [] then str_member0 m CorrelationHeader
        else if str_member0 m CorrelationKey \<noteq> [] then str_member0 m CorrelationKey
        else case sip_headers m of
          None \<Rightarrow> customer_data_id m
        | Some hdrs \<Rightarrow>
            if str_member0 hdrs CorrelationHeader \<noteq> [] then str_member0 hdrs CorrelationHeader
            else case ci_header hdrs of
              Some s \<Rightarrow> s
            | None \<Rightarrow> customer_data_id m)"

section \<open>Precedence\<close>

fun first_nonempty :: "string list \<Rightarrow> string" where
  "first_nonempty [] = []"
| "first_nonempty (s # ss) = (if s \<noteq> [] then s else first_nonempty ss)"

definition sip_candidates :: "members \<Rightarrow> string list" where
  "sip_candidates m =
     (case sip_headers m of
        None \<Rightarrow> []
      | Some hdrs \<Rightarrow> [str_member0 hdrs CorrelationHeader,
                      case ci_header hdrs of Some s \<Rightarrow> s | None \<Rightarrow> []])"

definition customer_candidates :: "members \<Rightarrow> string list" where
  "customer_candidates m =
     (case obj_member m ''customerData'' of
        None \<Rightarrow> []
      | Some cd \<Rightarrow> [str_member0 cd CorrelationKey, str_member0 cd CorrelationHeader])"

text \<open>The places, in the order the comments and ADRs give them.\<close>

definition id_candidates :: "http_request \<Rightarrow> string \<Rightarrow> string list" where
  "id_candidates r body =
     [values_get (hr_Header r) CorrelationHeader, values_get (hr_Query r) CorrelationHeader]
     @ [str_member0 (body_members body) CorrelationHeader, str_member0 (body_members body) CorrelationKey]
     @ sip_candidates (body_members body) @ customer_candidates (body_members body)"

definition blank_ci_header :: "string \<Rightarrow> bool" where
  "blank_ci_header body \<longleftrightarrow>
     (case sip_headers (body_members body) of
        None \<Rightarrow> False | Some hdrs \<Rightarrow> ci_header hdrs = Some [])"

lemma first_nonempty_append:
  "first_nonempty (xs @ ys) = (if first_nonempty xs \<noteq> [] then first_nonempty xs else first_nonempty ys)"
  by (induction xs) auto

lemma customer_data_id_eq: "customer_data_id m = first_nonempty (customer_candidates m)"
  by (auto simp: customer_data_id_def customer_candidates_def split: option.splits)

lemma body_members_None: "unmarshal_map body = None \<Longrightarrow> body_members body = []"
  by (simp add: body_members_def)

lemma unmarshal_map_Nil [simp]: "unmarshal_map [] = None"
  by (simp add: unmarshal_map_def unmarshal_def parse_value.simps skip_ws_def has_prefix_def)

lemma no_members_candidates:
  "first_nonempty ([str_member0 [] CorrelationHeader, str_member0 [] CorrelationKey]
     @ sip_candidates [] @ customer_candidates []) = []"
  by (simp add: str_member0_def str_member_def sip_candidates_def customer_candidates_def
      sip_headers_def obj_member_def)

section \<open>Properties\<close>

text \<open>
  The test id of a request is the first non-empty one of: the HTTP header, the
  query parameter, the body members \<open>X-Test-Id\<close> and \<open>x_test_id\<close>, the SIP header under its exact
  and then under any letter case, \<open>customerData.x_test_id\<close>, \<open>customerData.X-Test-Id\<close>; and it is
  empty when there is none. The exception is a SIP header present in another case with an
  empty value.
\<close>

theorem extractTestID_precedence:
  assumes "\<not> blank_ci_header body"
  shows "extractTestID r body = first_nonempty (id_candidates r body)"
proof (cases "unmarshal_map body")
  case None
  then show ?thesis
    using no_members_candidates
    by (simp add: extractTestID_def id_candidates_def body_members_None split: if_splits)
next
  case (Some mo)
  then have "body \<noteq> []" by auto
  then show ?thesis using Some assms
    by (auto simp: extractTestID_def id_candidates_def Let_def blank_ci_header_def
        sip_candidates_def customer_data_id_eq first_nonempty_append split: option.splits)
qed

definition quoted :: "string \<Rightarrow> string" where
  "quoted s = CHR 0x22 # s @ [CHR 0x22]"

definition post_request :: "string \<Rightarrow> http_request" where
  "post_request body = \<lparr>hr_Method = ''POST'', hr_Path = ''/hook'', hr_Header = [], hr_Query = [],
     hr_Body = Some body\<rparr>"

definition tagged_body :: string where
  "tagged_body = ''{'' @ quoted ''customerData'' @ '':{'' @ quoted ''x_test_id'' @ '':''
     @ quoted ''t1'' @ ''}}''"

theorem extractTestID_precedence_witness:
  "extractTestID (post_request tagged_body) tagged_body = ''t1''"
proof -
  have "\<not> blank_ci_header tagged_body" by code_simp
  then have "extractTestID (post_request tagged_body) tagged_body
      = first_nonempty (id_candidates (post_request tagged_body) tagged_body)"
    by (rule extractTestID_precedence)
  also have "\<dots> = ''t1''" by code_simp
  finally show ?thesis .
qed

text \<open>
  A SIP header whose name differs from \<open>X-Test-Id\<close> in case only and whose value is
  empty ends the search: the id that \<open>customerData\<close> carries is not found.
\<close>

theorem extractTestID_blank_header_shadows:
  assumes "values_get (hr_Header r) CorrelationHeader = []"
    and "values_get (hr_Query r) CorrelationHeader = []"
    and "first_nonempty [str_member0 (body_members body) CorrelationHeader,
           str_member0 (body_members body) CorrelationKey] = []"
    and "sip_headers (body_members body) = Some hdrs"
    and "str_member0 hdrs CorrelationHeader = []" and "ci_header hdrs = Some []"
  shows "extractTestID r body = []"
  using assms by (auto simp: extractTestID_def Let_def split: if_splits)

definition shadowing_body :: string where
  "shadowing_body = ''{'' @ quoted ''sip'' @ '':{'' @ quoted ''headers'' @ '':{''
     @ quoted ''x-test-id'' @ '':'' @ quoted [] @ ''}},'' @ quoted ''customerData'' @ '':{''
     @ quoted ''x_test_id'' @ '':'' @ quoted ''t1'' @ ''}}''"

theorem extractTestID_blank_header_shadows_witness:
  "extractTestID (post_request shadowing_body) shadowing_body = []
   \<and> customer_candidates (body_members shadowing_body) = [''t1'', []]"
proof
  show "extractTestID (post_request shadowing_body) shadowing_body = []"
    by (rule extractTestID_blank_header_shadows [where hdrs = "[(''x-test-id'', JStr [])]"])
      code_simp+
  show "customer_candidates (body_members shadowing_body) = [''t1'', []]" by code_simp
qed

end
