(* ===== verification/Contract.thy ===== *)
theory Contract
  imports Json
begin

text \<open>
  \<open>internal/contract/contract.go\<close>: validation of response bodies against schema files, with a
  cache of compiled schemas. The JSON-Schema engine (a third-party package) and the file system
  are parameters: what \<open>filepath.Abs\<close> and \<open>os.Stat\<close> say of a path (the flag of \<open>StatOk\<close>: it is a
  directory), what the compiler makes of a file, and the
  violation, if any, the compiled schema finds in a document.
\<close>

datatype stat_result = StatOk bool | StatNotExist string | StatError string

record 'sch schema_env =
  se_abs :: "string \<Rightarrow> string + string"
  se_stat :: "string \<Rightarrow> stat_result"
  se_compile :: "string \<Rightarrow> string + 'sch"
  se_validate :: "'sch \<Rightarrow> json \<Rightarrow> string option"

datatype contract_error =
    ErrNoSchema string
  | StatFailed string string
  | CompileFailed string string
  | EmptyBody string
  | NotJSON string
  | Violation string string

fun contract_error_text :: "contract_error \<Rightarrow> string" where
  "contract_error_text (ErrNoSchema rel) = ''contract: no schema file for this interaction: '' @ rel"
| "contract_error_text (StatFailed rel e) = ''stat '' @ rel @ '': '' @ e"
| "contract_error_text (CompileFailed rel e) = ''compile '' @ rel @ '': '' @ e"
| "contract_error_text (EmptyBody rel) =
     ''contract: empty body but schema expects content ('' @ rel @ '')''"
| "contract_error_text (NotJSON rel) = ''contract: response is not valid JSON ('' @ rel @ '')''"
| "contract_error_text (Violation rel e) = ''contract: '' @ rel @ '': '' @ e"

record 'sch validator =
  v_root :: string
  v_cache :: "string \<rightharpoonup> 'sch"

definition contract_New :: "'sch schema_env \<Rightarrow> string \<Rightarrow> string + 'sch validator" where
  "contract_New env schemasRoot =
     (case se_abs env schemasRoot of
        Inl err \<Rightarrow> Inl err
      | Inr absp \<Rightarrow>
          (case se_stat env absp of
             StatNotExist err \<Rightarrow> Inl (''schemas root '' @ go_quote absp @ '': '' @ err)
           | StatError err \<Rightarrow> Inl (''schemas root '' @ go_quote absp @ '': '' @ err)
           | StatOk is_dir \<Rightarrow>
               if \<not> is_dir then Inl (''schemas root '' @ go_quote absp @ '' is not a directory'')
               else Inr \<lparr>v_root = absp, v_cache = Map.empty\<rparr>))"

text \<open>The relative path is a clean one, so joining it to the root only inserts a slash.\<close>

definition load_schema ::
  "'sch schema_env \<Rightarrow> string \<Rightarrow> 'sch validator \<Rightarrow> (contract_error + 'sch) \<times> 'sch validator" where
  "load_schema env relPath v =
     (case v_cache v relPath of
        Some s \<Rightarrow> (Inr s, v)
      | None \<Rightarrow>
          let file = v_root v @ ''/'' @ relPath in
          (case se_stat env file of
             StatNotExist _ \<Rightarrow> (Inl (ErrNoSchema relPath), v)
           | StatError e \<Rightarrow> (Inl (StatFailed relPath e), v)
           | StatOk _ \<Rightarrow>
               (case se_compile env (''file://'' @ file) of
                  Inl e \<Rightarrow> (Inl (CompileFailed relPath e), v)
                | Inr s \<Rightarrow> (Inr s, v\<lparr>v_cache := (v_cache v)(relPath \<mapsto> s)\<rparr>))))"

definition contract_Load ::
  "'sch schema_env \<Rightarrow> string \<Rightarrow> 'sch validator \<Rightarrow> contract_error option \<times> 'sch validator" where
  "contract_Load env relPath v =
     (case load_schema env relPath v of
        (Inl e, v') \<Rightarrow> (Some e, v')
      | (Inr _, v') \<Rightarrow> (None, v'))"

definition ValidateResponse ::
  "'sch schema_env \<Rightarrow> string \<Rightarrow> string \<Rightarrow> 'sch validator \<Rightarrow> contract_error option \<times> 'sch validator" where
  "ValidateResponse env relPath body v =
     (case load_schema env relPath v of
        (Inl e, v') \<Rightarrow> (Some e, v')
      | (Inr schema, v') \<Rightarrow>
          (if body = [] then Some (EmptyBody relPath)
           else case unmarshal body of
             None \<Rightarrow> Some (NotJSON relPath)
           | Some data \<Rightarrow>
               map_option (Violation relPath) (se_validate env schema data), v'))"

lemma load_schema_hit:
  "load_schema env rel v = (Inr s, v') \<Longrightarrow> load_schema env' rel v' = (Inr s, v')"
  by (auto simp: load_schema_def Let_def split: option.splits stat_result.splits sum.splits)

lemma load_schema_other:
  "rel' \<noteq> rel \<Longrightarrow> v_cache (snd (load_schema env rel v)) rel' = v_cache v rel'"
  by (auto simp: load_schema_def Let_def split: option.splits stat_result.splits sum.splits)

lemma ValidateResponse_cache:
  "snd (ValidateResponse env rel body v) = snd (load_schema env rel v)"
  by (auto simp: ValidateResponse_def split: prod.splits sum.splits)

lemma load_schema_keeps:
  "v_cache v rel' = Some s \<Longrightarrow> v_cache (snd (load_schema env rel v)) rel' = Some s"
  by (cases "rel' = rel")
    (auto simp: load_schema_other, auto simp: load_schema_def split: option.splits)

section \<open>Properties\<close>

text \<open>
  A response passes the contract exactly when its schema loads, the body is
  not empty, it decodes, and the schema finds no violation in it.
\<close>

theorem ValidateResponse_passes_iff:
  "fst (ValidateResponse env rel body v) = None \<longleftrightarrow>
     (\<exists>schema data. fst (load_schema env rel v) = Inr schema \<and> body \<noteq> []
        \<and> unmarshal body = Some data \<and> se_validate env schema data = None)"
  by (auto simp: ValidateResponse_def split: prod.splits sum.splits option.splits)

text \<open>
  Once a schema has been loaded, every later use of it, after any number of
  other validations, gets the same compiled schema, whatever has become of the file.
\<close>

theorem schema_loaded_once:
  assumes "load_schema env rel v = (Inr s, v1)"
  shows "fst (load_schema env' rel (fold (\<lambda>(r, b) u. snd (ValidateResponse env2 r b u)) rbs v1)) = Inr s"
proof -
  have "v_cache v1 rel = Some s"
    using assms by (auto simp: load_schema_def Let_def split: option.splits stat_result.splits sum.splits)
  then have "v_cache (fold (\<lambda>(r, b) u. snd (ValidateResponse env2 r b u)) rbs v1) rel = Some s"
    by (induction rbs arbitrary: v1) (auto simp: ValidateResponse_cache load_schema_keeps)
  then show ?thesis by (simp add: load_schema_def)
qed

definition sample_env :: "nat schema_env" where
  "sample_env = \<lparr>se_abs = Inr, se_stat = (\<lambda>p. StatOk True), se_compile = (\<lambda>u. Inr (length u)),
     se_validate = (\<lambda>s d. None)\<rparr>"

definition sample_validator :: "nat validator" where
  "sample_validator = \<lparr>v_root = ''/s'', v_cache = Map.empty\<rparr>"

definition gone_env :: "nat schema_env" where
  "gone_env = sample_env\<lparr>se_stat := (\<lambda>p. StatNotExist ''no such file or directory'')\<rparr>"

theorem schema_loaded_once_witness:
  "fst (load_schema gone_env ''a.json''
     (fold (\<lambda>(r, b) u. snd (ValidateResponse gone_env r b u)) [(''b.json'', ''1'')]
       (snd (load_schema sample_env ''a.json'' sample_validator)))) = Inr 16"
  by (rule schema_loaded_once [where env = sample_env and v = sample_validator])
    (simp add: load_schema_def sample_env_def sample_validator_def)

end
