(* ===== verification/Webhook_Server.thy ===== *)
theory Webhook_Server
  imports Webhook_Registry Webhook_Correlation Contract
begin

text \<open>
  \<open>internal/webhook/server.go\<close>: the HTTP handlers that jambonz calls. A handler takes the
  server state and the request and returns the response and the new state; the schema engine,
  the static file server and the clock are parameters. The lemmas show that a handler never
  panics and keeps the registry's invariant, that a request changes no session but the one it
  is routed to, and that a call_sid, once bound, keeps routing to its test.
\<close>

record 'sch server =
  srv_Registry :: registry
  srv_Validator :: "'sch validator option"
  srv_publicURL :: string
  srv_staticDir :: string
  srv_log :: "(string \<times> string) list"

definition server_New :: "'sch validator option \<Rightarrow> 'sch server" where
  "server_New v = \<lparr>srv_Registry = NewRegistry, srv_Validator = v, srv_publicURL = [],
     srv_staticDir = [], srv_log = []\<rparr>"

definition SetStaticDir :: "string \<Rightarrow> 'sch server \<Rightarrow> 'sch server" where
  "SetStaticDir dir s = s\<lparr>srv_staticDir := dir\<rparr>"

definition SetPublicURL :: "string \<Rightarrow> 'sch server \<Rightarrow> 'sch server" where
  "SetPublicURL u s = s\<lparr>srv_publicURL := u\<rparr>"

definition log_line :: "string \<Rightarrow> string \<Rightarrow> 'sch server \<Rightarrow> 'sch server" where
  "log_line level msg s = s\<lparr>srv_log := srv_log s @ [(level, msg)]\<rparr>"

section \<open>Responses\<close>

datatype response_body = RawBody string | Marshalled json

record http_response =
  rs_Status :: int
  rs_ContentType :: string
  rs_Body :: response_body

definition http_error :: "string \<Rightarrow> int \<Rightarrow> http_response" where
  "http_error msg status = \<lparr>rs_Status = status, rs_ContentType = ''text/plain; charset=utf-8'',
     rs_Body = RawBody (msg @ [CHR 0x0A])\<rparr>"

definition http_redirect :: http_response where
  "http_redirect = \<lparr>rs_Status = 301, rs_ContentType = ''text/html; charset=utf-8'', rs_Body = RawBody []\<rparr>"

text \<open>A script has no value that \<open>json.Marshal\<close> rejects, so its error branch is not reached.\<close>

definition writeOutcome :: "hook_outcome \<Rightarrow> http_response" where
  "writeOutcome out =
     (if out_Body out \<noteq> [] then
        \<lparr>rs_Status = httpStatusOf out, rs_ContentType = ''application/json'',
         rs_Body = RawBody (out_Body out)\<rparr>
      else case out_Verbs out of
        Some verbs \<Rightarrow>
          \<lparr>rs_Status = httpStatusOf out, rs_ContentType = ''application/json'',
           rs_Body = Marshalled (JArr verbs)\<rparr>
      | None \<Rightarrow> \<lparr>rs_Status = httpStatusOf out, rs_ContentType = [], rs_Body = RawBody []\<rparr>)"

section \<open>Helpers\<close>

definition readAll :: "http_request \<Rightarrow> string" where
  "readAll r = (case hr_Body r of None \<Rightarrow> [] | Some b \<Rightarrow> b)"

definition decodeJSON :: "string \<Rightarrow> members option" where
  "decodeJSON body =
     (if body = [] then None
      else case unmarshal_map body of None \<Rightarrow> None | Some m \<Rightarrow> m)"

definition flattenHeaders :: "(string \<times> string list) list \<Rightarrow> (string \<rightharpoonup> string)" where
  "flattenHeaders h =
     fold (\<lambda>(k, vs) out. case vs of [] \<Rightarrow> out | v # _ \<Rightarrow> out(k \<mapsto> v)) h Map.empty"

definition extractCallSid :: "string \<Rightarrow> string" where
  "extractCallSid body =
     (case decodeJSON body of None \<Rightarrow> [] | Some m \<Rightarrow> str_member0 m ''call_sid'')"

definition sessionFor :: "string \<Rightarrow> string \<Rightarrow> 'sch server \<Rightarrow> nat \<times> 'sch server" where
  "sessionFor testID callSid s =
     (if testID \<noteq> [] then
        (case Lookup testID (srv_Registry s) of
           Some a \<Rightarrow> (a, s\<lparr>srv_Registry := BindCallSid callSid testID (srv_Registry s)\<rparr>)
         | None \<Rightarrow>
             let s1 = log_line ''WARN'' ''webhook: unknown test id'' s;
                 (a, r) = reg_New testID (srv_Registry s1)
             in (a, s1\<lparr>srv_Registry := BindCallSid callSid testID r\<rparr>))
      else case LookupByCallSid callSid (srv_Registry s) of
        Some a \<Rightarrow> (a, s)
      | None \<Rightarrow>
          let s1 = log_line ''WARN'' ''webhook: no correlation; using anon session'' s;
              (a, r) = reg_New ''_anon'' (srv_Registry s1)
          in (a, s1\<lparr>srv_Registry := r\<rparr>))"

definition captureCallback :: "nat \<Rightarrow> callback \<Rightarrow> 'sch server \<Rightarrow> 'sch server go" where
  "captureCallback a cb s =
     go_bind (at_session a (record_cb cb) (srv_Registry s))
       (\<lambda>r. Ret (s\<lparr>srv_Registry := r\<rparr>))"

definition validateInbound :: "'sch schema_env \<Rightarrow> string \<Rightarrow> string \<Rightarrow> 'sch server \<Rightarrow> 'sch server" where
  "validateInbound env name body s =
     (case srv_Validator s of
        None \<Rightarrow> s
      | Some v \<Rightarrow>
          if body = [] then s
          else let (err, v') = ValidateResponse env (''callbacks/'' @ name @ ''.schema.json'') body v;
                   s' = s\<lparr>srv_Validator := Some v'\<rparr>
               in case err of
                    None \<Rightarrow> s'
                  | Some (ErrNoSchema _) \<Rightarrow> log_line ''DEBUG'' ''webhook: no schema for inbound'' s'
                  | Some e \<Rightarrow>
                      if contains (contract_error_text e) ''no Loader found''
                         \<or> contains (contract_error_text e) ''compilation failed''
                      then log_line ''DEBUG'' ''webhook: schema uses URL $refs; skipping'' s'
                      else log_line ''ERROR'' ''webhook: inbound failed contract'' s')"

section \<open>Handlers\<close>

definition inbound_callback :: "string \<Rightarrow> int \<Rightarrow> http_request \<Rightarrow> callback" where
  "inbound_callback hook now r =
     \<lparr>cb_Hook = hook, cb_Transport = TransportHTTP, cb_Received = now, cb_Method = hr_Method r,
      cb_Headers = flattenHeaders (hr_Header r), cb_Body = readAll r,
      cb_JSON = decodeJSON (readAll r), cb_TestID = extractTestID r (readAll r),
      cb_Transport2 = []\<rparr>"

text \<open>
  What the three handlers share: validate, resolve the session, capture the callback. The
  result is the address of the session, for the outcome the handler then reads.
\<close>

definition intake ::
  "'sch schema_env \<Rightarrow> string \<Rightarrow> string \<Rightarrow> int \<Rightarrow> http_request \<Rightarrow> 'sch server
     \<Rightarrow> (nat \<times> callback \<times> 'sch server) go" where
  "intake env schema hook now r s =
     (let s1 = validateInbound env schema (readAll r) s;
          (a, s2) = sessionFor (extractTestID r (readAll r)) (extractCallSid (readAll r)) s1;
          cb = inbound_callback hook now r
      in go_bind (captureCallback a cb s2) (\<lambda>s3. Ret (a, cb, s3)))"

definition handleCallHook ::
  "'sch schema_env \<Rightarrow> int \<Rightarrow> http_request \<Rightarrow> 'sch server \<Rightarrow> (http_response \<times> 'sch server) go" where
  "handleCallHook env now r s =
     go_bind (intake env ''session-new'' ''call_hook'' now r s)
       (\<lambda>(a, cb, s1). go_bind (go_index (r_heap (srv_Registry s1)) (int a))
          (\<lambda>sess. Ret (writeOutcome (outcomeForCallHook sess), s1)))"

definition handleStatusHook ::
  "'sch schema_env \<Rightarrow> int \<Rightarrow> http_request \<Rightarrow> 'sch server \<Rightarrow> (http_response \<times> 'sch server) go" where
  "handleStatusHook env now r s =
     go_bind (intake env ''call-status'' ''call_status_hook'' now r s)
       (\<lambda>(a, cb, s1). Ret (\<lparr>rs_Status = 200, rs_ContentType = [], rs_Body = RawBody []\<rparr>, s1))"

definition handleActionHook ::
  "'sch schema_env \<Rightarrow> int \<Rightarrow> http_request \<Rightarrow> 'sch server \<Rightarrow> (http_response \<times> 'sch server) go" where
  "handleActionHook env now r s =
     go_bind (go_slice (hr_Path r) (int (length ''/action/'')) (int (length (hr_Path r))))
       (\<lambda>verb.
          if verb = [] then Ret (http_error ''verb required in path'' 400, s)
          else go_bind (intake env verb (''action/'' @ verb) now r s)
            (\<lambda>(a, cb, s1). go_bind (go_index (r_heap (srv_Registry s1)) (int a))
               (\<lambda>sess.
                  let out = outcomeForActionHook verb sess;
                      out' = (case out_BodyFunc out of
                                Some f \<Rightarrow> out\<lparr>out_Body := f cb\<rparr> | None \<Rightarrow> out)
                  in Ret (writeOutcome out', s1))))"

definition staticHandler ::
  "(string \<Rightarrow> string \<Rightarrow> http_response) \<Rightarrow> http_request \<Rightarrow> 'sch server \<Rightarrow> http_response" where
  "staticHandler file_server r s =
     (if srv_staticDir s = [] then http_error ''static dir not configured'' 404
      else file_server (srv_staticDir s) (hr_Path r))"

text \<open>
  The routes registered in \<open>New\<close>, but for the two WebSocket endpoints, which take over the
  connection and are modelled on their own. A pattern that ends in a slash matches a prefix, and
  the multiplexer redirects the path without that slash; the path is clean (no dot segments or
  doubled slashes, which the multiplexer redirects before it looks for a handler).
\<close>

definition serve ::
  "'sch schema_env \<Rightarrow> (string \<Rightarrow> string \<Rightarrow> http_response) \<Rightarrow> int \<Rightarrow> http_request \<Rightarrow> 'sch server
     \<Rightarrow> (http_response \<times> 'sch server) go" where
  "serve env files now r s =
     (if hr_Path r = ''/hook'' then handleCallHook env now r s
      else if hr_Path r = ''/status'' then handleStatusHook env now r s
      else if has_prefix (hr_Path r) ''/action/'' then handleActionHook env now r s
      else if hr_Path r = ''/health'' then
        Ret (\<lparr>rs_Status = 200, rs_ContentType = ''text/plain; charset=utf-8'', rs_Body = RawBody ''ok''\<rparr>, s)
      else if has_prefix (hr_Path r) ''/static/'' then
        Ret (staticHandler files (r\<lparr>hr_Path := trim_prefix (hr_Path r) ''/static/''\<rparr>) s, s)
      else if hr_Path r = ''/action'' \<or> hr_Path r = ''/static'' then Ret (http_redirect, s)
      else Ret (http_error ''404 page not found'' 404, s))"

section \<open>Lemmas\<close>

definition server_ok :: "'sch server \<Rightarrow> bool" where
  "server_ok s \<longleftrightarrow> registry_ok (srv_Registry s)"

lemma log_line_reg [simp]: "srv_Registry (log_line l m s) = srv_Registry s"
  by (simp add: log_line_def)

lemma log_line_validator [simp]: "srv_Validator (log_line l m s) = srv_Validator s"
  by (simp add: log_line_def)

lemma validateInbound_reg [simp]: "srv_Registry (validateInbound env n b s) = srv_Registry s"
  by (auto simp: validateInbound_def Let_def split: option.splits prod.splits contract_error.splits)

text \<open>The session a request is routed to, and the registry after the routing.\<close>

definition routed_reg :: "string \<Rightarrow> string \<Rightarrow> registry \<Rightarrow> nat \<times> registry" where
  "routed_reg testID callSid r =
     (if testID \<noteq> [] then
        (let (a, r') = reg_New testID r in (a, BindCallSid callSid testID r'))
      else case LookupByCallSid callSid r of
        Some a \<Rightarrow> (a, r) | None \<Rightarrow> reg_New ''_anon'' r)"

lemma sessionFor_routed:
  "fst (sessionFor t c s) = fst (routed_reg t c (srv_Registry s))"
  "srv_Registry (snd (sessionFor t c s)) = snd (routed_reg t c (srv_Registry s))"
  by (auto simp: sessionFor_def routed_reg_def Let_def Lookup_def reg_New_def split: option.splits)

lemma routed_reg_ok:
  assumes "registry_ok r"
  shows "registry_ok (snd (routed_reg t c r))"
    and "fst (routed_reg t c r) < length (r_heap (snd (routed_reg t c r)))"
    and "r_sessions r tid = Some a \<Longrightarrow> r_sessions (snd (routed_reg t c r)) tid = Some a"
proof -
  have n: "fst (reg_New i r) < length (r_heap (snd (reg_New i r)))" for i
    using registry_ok_sessions [OF assms, of i] by (auto simp: reg_New_def split: option.splits)
  have l: "LookupByCallSid c r = Some b \<Longrightarrow> b < length (r_heap r)" for b
    using registry_ok_sessions [OF assms] by (auto simp: LookupByCallSid_def split: if_splits option.splits)
  show "registry_ok (snd (routed_reg t c r))"
    using assms registry_ok_New [OF assms] registry_ok_Bind
    by (auto simp: routed_reg_def split: prod.splits option.splits) (metis snd_conv)+
  show "fst (routed_reg t c r) < length (r_heap (snd (routed_reg t c r)))"
    using n l by (auto simp: routed_reg_def split: prod.splits option.splits) (metis fst_conv snd_conv)+
  show "r_sessions (snd (routed_reg t c r)) tid = Some a" if "r_sessions r tid = Some a"
    using that by (auto simp: routed_reg_def reg_New_def split: option.splits)
qed

lemma routed_reg_heap:
  "\<exists>new. r_heap (snd (routed_reg t c r)) = r_heap r @ new \<and> (\<forall>s\<in>set new. \<exists>i. s = new_session i)"
proof (cases "t = []")
  case True
  then show ?thesis using reg_New_heap [of "''_anon''" r]
    by (auto simp: routed_reg_def split: option.splits)
next
  case False
  obtain new where "r_heap (snd (reg_New t r)) = r_heap r @ new"
    and "\<forall>s\<in>set new. \<exists>i. s = new_session i" using reg_New_heap by blast
  with False show ?thesis by (auto simp: routed_reg_def split: prod.splits)
qed

text \<open>The whole intake: no panic, the invariant kept, one session touched.\<close>

lemma intake_ok:
  fixes s :: "'sch server" and r :: http_request
  assumes ok: "registry_ok (srv_Registry s)"
  defines "t \<equiv> extractTestID r (readAll r)" and "c \<equiv> extractCallSid (readAll r)"
  defines "a \<equiv> fst (routed_reg t c (srv_Registry s))" and "r1 \<equiv> snd (routed_reg t c (srv_Registry s))"
  shows "\<exists>s' r'. intake env n h now r s = Ret (a, inbound_callback h now r, s')
     \<and> srv_Registry s' = r' \<and> registry_ok r' \<and> at_session a (record_cb (inbound_callback h now r)) r1 = Ret r'
     \<and> r_sessions r' = r_sessions r1 \<and> r_callSidIndex r' = r_callSidIndex r1
     \<and> length (r_heap r') = length (r_heap r1) \<and> (\<forall>b. b \<noteq> a \<longrightarrow> r_heap r' ! b = r_heap r1 ! b)"
proof -
  let ?v = "validateInbound env n (readAll r) s" and ?cb = "inbound_callback h now r"
  obtain b s2 where sf: "sessionFor t c ?v = (b, s2)" by (cases "sessionFor t c ?v")
  have b: "b = a" and s2: "srv_Registry s2 = r1"
    using sessionFor_routed [of t c ?v] sf by (simp_all add: a_def r1_def)
  have rok: "registry_ok r1" "a < length (r_heap r1)"
    using routed_reg_ok [OF ok] by (simp_all add: a_def r1_def)
  from at_session_ok [OF rok, of "record_cb ?cb"] record_cb_keeps obtain r' where
    r': "at_session a (record_cb ?cb) r1 = Ret r'" "registry_ok r'" "r_sessions r' = r_sessions r1"
      "r_callSidIndex r' = r_callSidIndex r1" "length (r_heap r') = length (r_heap r1)"
      "\<forall>b. b \<noteq> a \<longrightarrow> r_heap r' ! b = r_heap r1 ! b" by blast
  have "intake env n h now r s = Ret (a, ?cb, s2\<lparr>srv_Registry := r'\<rparr>)"
    using sf b s2 r'(1) by (simp add: intake_def captureCallback_def t_def c_def)
  with r' show ?thesis by auto
qed

lemma handleStatusHook_intake:
  "handleStatusHook env now r s = Ret (resp, s') \<Longrightarrow>
     \<exists>a cb. intake env ''call-status'' ''call_status_hook'' now r s = Ret (a, cb, s')"
  by (auto simp: handleStatusHook_def)

lemma handleCallHook_intake:
  "handleCallHook env now r s = Ret (resp, s') \<Longrightarrow>
     \<exists>a cb. intake env ''session-new'' ''call_hook'' now r s = Ret (a, cb, s')"
  by (auto simp: handleCallHook_def)

lemma handleActionHook_intake:
  "handleActionHook env now r s = Ret (resp, s') \<Longrightarrow>
     s' = s \<or> (\<exists>verb a cb. intake env verb (''action/'' @ verb) now r s = Ret (a, cb, s'))"
  by (auto simp: handleActionHook_def Let_def split: if_splits)

text \<open>Every state a served request leads to is the old one or comes from an intake.\<close>

lemma serve_intake:
  assumes "serve env files now r s = Ret (resp, s')"
  shows "s' = s \<or> (\<exists>n h a cb. intake env n h now r s = Ret (a, cb, s'))"
proof -
  have "handleCallHook env now r s = Ret (resp, s') \<or> handleStatusHook env now r s = Ret (resp, s')
      \<or> handleActionHook env now r s = Ret (resp, s') \<or> s' = s"
    using assms by (auto simp: serve_def split: if_splits)
  then show ?thesis
    using handleCallHook_intake [of env now r s resp s'] handleStatusHook_intake [of env now r s resp s']
      handleActionHook_intake [of env now r s resp s'] by blast
qed

lemma handleCallHook_returns:
  assumes "registry_ok (srv_Registry s)"
  shows "\<exists>resp s'. handleCallHook env now r s = Ret (resp, s') \<and> registry_ok (srv_Registry s')"
proof -
  from intake_ok [OF assms, of env "''session-new''" "''call_hook''" now r] routed_reg_ok [OF assms]
  obtain a cb s' where "intake env ''session-new'' ''call_hook'' now r s = Ret (a, cb, s')"
    "registry_ok (srv_Registry s')" "a < length (r_heap (srv_Registry s'))" by force
  then show ?thesis by (simp add: handleCallHook_def)
qed

lemma handleStatusHook_returns:
  assumes "registry_ok (srv_Registry s)"
  shows "\<exists>resp s'. handleStatusHook env now r s = Ret (resp, s') \<and> registry_ok (srv_Registry s')"
  using intake_ok [OF assms, of env "''call-status''" "''call_status_hook''" now r]
  by (auto simp: handleStatusHook_def)

lemma handleActionHook_returns:
  assumes "registry_ok (srv_Registry s)" and "has_prefix (hr_Path r) ''/action/''"
  shows "\<exists>resp s'. handleActionHook env now r s = Ret (resp, s') \<and> registry_ok (srv_Registry s')"
proof -
  from assms(2) obtain verb where p: "hr_Path r = ''/action/'' @ verb" by (auto dest: has_prefixE)
  show ?thesis
  proof (cases "verb = []")
    case True
    then show ?thesis using p assms(1) by (simp add: handleActionHook_def)
  next
    case False
    from intake_ok [OF assms(1), of env verb "''action/'' @ verb" now r] routed_reg_ok [OF assms(1)]
    obtain a cb s' where "intake env verb (''action/'' @ verb) now r s = Ret (a, cb, s')"
      "registry_ok (srv_Registry s')" "a < length (r_heap (srv_Registry s'))" by force
    then show ?thesis using p False by (simp add: handleActionHook_def Let_def)
  qed
qed

lemma serve_returns:
  assumes "registry_ok (srv_Registry s)"
  shows "\<exists>resp s'. serve env files now r s = Ret (resp, s') \<and> registry_ok (srv_Registry s')"
  using assms handleCallHook_returns [OF assms, of env now r] handleStatusHook_returns [OF assms, of env now r]
    handleActionHook_returns [OF assms, of r env now]
  by (auto simp: serve_def)

section \<open>Requests and tests interleaved\<close>

text \<open>
  One event of a run: a request that is served, or an operation a test performs on the registry.
\<close>

datatype srv_event = Request int http_request | TestOp reg_op

fun srv_step ::
  "'sch schema_env \<Rightarrow> (string \<Rightarrow> string \<Rightarrow> http_response) \<Rightarrow> srv_event \<Rightarrow> 'sch server \<Rightarrow> 'sch server go" where
  "srv_step env files (Request now r) s = go_bind (serve env files now r s) (\<lambda>(_, s'). Ret s')"
| "srv_step env files (TestOp op) s =
     go_bind (reg_step op (srv_Registry s)) (\<lambda>r. Ret (s\<lparr>srv_Registry := r\<rparr>))"

interpretation srv: guarded_machine "srv_step env files" server_ok for env files
proof unfold_locales
  fix s :: "'a server" and e
  assume "server_ok s"
  then have ok: "registry_ok (srv_Registry s)" by (simp add: server_ok_def)
  show "\<exists>t. srv_step env files e s = Ret t \<and> server_ok t"
  proof (cases e)
    case (Request now r)
    from serve_returns [OF ok] obtain resp s' where
      "serve env files now r s = Ret (resp, s')" "registry_ok (srv_Registry s')" by blast
    with Request show ?thesis by (simp add: server_ok_def)
  next
    case (TestOp op)
    with reg.step_ok [OF ok, of op] show ?thesis by (auto simp: server_ok_def)
  qed
qed

text \<open>
  An event respects the owner \<open>tid\<close> of call \<open>cs\<close> unless it releases the test, or claims the
  call for another test.
\<close>

fun keeps_owner :: "string \<Rightarrow> string \<Rightarrow> srv_event \<Rightarrow> bool" where
  "keeps_owner cs tid (Request now r) \<longleftrightarrow>
     extractTestID r (readAll r) \<in> {[], tid, ''_anon''} \<or> extractCallSid (readAll r) \<noteq> cs"
| "keeps_owner cs tid (TestOp (OpRelease i)) \<longleftrightarrow> i \<noteq> tid"
| "keeps_owner cs tid (TestOp (OpBind c i)) \<longleftrightarrow> c \<noteq> cs \<or> i \<in> {[], tid, ''_anon''}"
| "keeps_owner cs tid (TestOp _) \<longleftrightarrow> True"

definition owns :: "string \<Rightarrow> string \<Rightarrow> nat \<Rightarrow> registry \<Rightarrow> bool" where
  "owns cs tid a r \<longleftrightarrow> r_callSidIndex r cs = Some tid \<and> r_sessions r tid = Some a"

lemma routed_reg_owns:
  assumes "registry_ok r" and "owns cs tid a r" and "t \<in> {[], tid, ''_anon''} \<or> c \<noteq> cs"
  shows "owns cs tid a (snd (routed_reg t c r))"
  using assms routed_reg_ok(3) [OF assms(1), of tid a t c]
  by (auto simp: owns_def routed_reg_def sid_index.look_put_cases reg_New_def
      split: option.splits prod.splits)

lemma reg_step_owns:
  assumes "registry_ok r" and "owns cs tid a r" and "keeps_owner cs tid (TestOp op)"
    and "reg_step op r = Ret r'"
  shows "owns cs tid a r'"
proof -
  have *: "owns cs tid a r'"
    if "(if b < length (r_heap r) then at_session b f r else Ret r) = Ret r'" for b f
    using that assms(2) by (auto simp: owns_def at_session_def split: if_splits)
  show ?thesis
  proof (cases op)
    case (OpNew i)
    moreover have "fst (reg_New tid r) = a" using assms(2) by (simp add: owns_def reg_New_def)
    ultimately show ?thesis using assms by (auto simp: owns_def reg_New_sessions)
  next
    case (OpRelease i)
    then show ?thesis using assms by (auto simp: owns_def Release_def)
  next
    case (OpBind c i)
    then show ?thesis using assms by (auto simp: owns_def sid_index.look_put_cases)
  qed (use assms(4) * in auto)
qed

lemma srv_step_owns:
  assumes "server_ok s" and "owns cs tid a (srv_Registry s)" and "keeps_owner cs tid e"
    and "srv_step env files e s = Ret t"
  shows "owns cs tid a (srv_Registry t)"
proof -
  have ok: "registry_ok (srv_Registry s)" using assms(1) by (simp add: server_ok_def)
  show ?thesis
  proof (cases e)
    case (Request now r)
    with assms(4) obtain resp where "serve env files now r s = Ret (resp, t)" by auto
    from serve_intake [OF this] show ?thesis
    proof (elim disjE exE)
      assume "t = s" then show ?thesis using assms(2) by simp
    next
      fix n h b cb
      assume "intake env n h now r s = Ret (b, cb, t)"
      with intake_ok [OF ok, of env n h now r] routed_reg_owns [OF ok assms(2)] assms(3) Request
      show ?thesis by (fastforce simp: owns_def)
    qed
  next
    case (TestOp op)
    with assms(3,4) reg_step_owns [OF ok assms(2)] show ?thesis by auto
  qed
qed

section \<open>Properties\<close>


text \<open>
  C11 (safety): a call that is bound to a registered test stays with it: after any sequence of
  requests and test operations that neither releases the test nor claims the call for another,
  a request that carries only the call_sid is routed to that test's session.
\<close>

theorem call_sid_routing_is_stable:
  assumes "registry_ok (srv_Registry s)" and "owns cs tid a (srv_Registry s)"
    and "list_all (keeps_owner cs tid) es" and "go_fold (srv_step env files) es s = Ret t"
  shows "fst (sessionFor [] cs t) = a"
proof -
  have "owns cs tid a (srv_Registry t)"
  proof (rule srv.run_keeps [where Q = "\<lambda>s. owns cs tid a (srv_Registry s)" and E = "{e. keeps_owner cs tid e}"])
    show "owns cs tid a (srv_Registry t)" if "server_ok s" "owns cs tid a (srv_Registry s)"
      "e \<in> {e. keeps_owner cs tid e}" "srv_step env files e s = Ret t" for s e t
      using that srv_step_owns by blast
  qed (use assms in \<open>auto simp: server_ok_def list_all_iff\<close>)
  moreover have "cs \<noteq> []" using assms(1,2) by (auto simp: owns_def dest: registry_ok_index)
  ultimately show ?thesis
    by (simp add: sessionFor_routed routed_reg_def LookupByCallSid_def owns_def)
qed

definition bound_server :: "nat server" where
  "bound_server = (server_New None)\<lparr>srv_Registry :=
     BindCallSid ''c1'' ''t1'' (snd (reg_New ''t1'' NewRegistry))\<rparr>"

theorem call_sid_routing_is_stable_witness:
  "fst (sessionFor [] ''c1'' (bound_server\<lparr>srv_Registry :=
     Release ''t2'' (snd (reg_New ''t2'' (srv_Registry bound_server)))\<rparr>)) = 0"
proof -
  have "fst (reg_New ''t1'' NewRegistry) = 0"
    by (simp add: reg_New_def NewRegistry_def)
  then have "owns ''c1'' ''t1'' 0 (srv_Registry bound_server)"
    by (simp add: bound_server_def owns_def sid_index.look_put_cases reg_New_sessions)
  moreover have "registry_ok (srv_Registry bound_server)"
    by (simp add: bound_server_def registry_ok_New registry_ok_Bind)
  ultimately show ?thesis
    by (intro call_sid_routing_is_stable [where s = bound_server and tid = "''t1''" and env = sample_env
          and files = "\<lambda>d p. http_error [] 404" and es = "[TestOp (OpNew ''t2''), TestOp (OpRelease ''t2'')]"])
      simp_all
qed

end
