(* ===== verification/Webhook_WS.thy ===== *)
theory Webhook_WS
  imports Webhook_Server
begin

text \<open>
  \<open>internal/webhook/ws.go\<close>: the capture transport for the WebSocket connections jambonz opens to
  \<open>/ws/<id>\<close>. The read loop of \<open>handleWS\<close> is a run over the frames of one connection; the
  session's readers take, for each round of their \<open>select\<close>, what happened before it fired and
  which of the ready branches Go picked. The lemmas show what a connection leaves in the
  session, that readers return it completely and in order, and that a second connection to a
  session whose first one has ended panics on its first frame.
\<close>

section \<open>The read loop\<close>

text \<open>
  What \<open>conn.ReadMessage\<close> returns, until it returns an error: the kind of the message and its
  payload. The end of a list of reads is that error.
\<close>

datatype ws_read = ReadText string | ReadBinary string | ReadOther string

record ws_state =
  wc_ws :: ws_session
  wc_warnings :: "string list"

definition frame_of :: "int \<Rightarrow> ws_read \<Rightarrow> ws_message option" where
  "frame_of now rd =
     (case rd of
        ReadText d \<Rightarrow> Some \<lparr>msg_Kind = WSText, msg_Received = now, msg_Text = d, msg_Binary = [],
            msg_JSON = (case unmarshal_map d of Some m \<Rightarrow> m | None \<Rightarrow> None)\<rparr>
      | ReadBinary d \<Rightarrow> Some \<lparr>msg_Kind = WSBinary, msg_Received = now, msg_Text = [], msg_Binary = d,
            msg_JSON = None\<rparr>
      | ReadOther d \<Rightarrow> None)"

definition stash_metadata :: "members option \<Rightarrow> ws_session \<Rightarrow> ws_session" where
  "stash_metadata j ws = (if ws_metadata ws = None then ws\<lparr>ws_metadata := j\<rparr> else ws)"

definition push_frame :: "ws_message \<Rightarrow> ws_state \<Rightarrow> ws_state go" where
  "push_frame msg st =
     go_bind (try_send msg (ws_inbound (wc_ws st)))
       (\<lambda>sent. Ret (case sent of
            Some ch \<Rightarrow> st\<lparr>wc_ws := (wc_ws st)\<lparr>ws_inbound := ch\<rparr>\<rparr>
          | None \<Rightarrow> st\<lparr>wc_warnings := wc_warnings st @ [''webhook: WS inbound queue full; dropping frame'']\<rparr>))"

definition read_frame :: "int \<times> ws_read \<Rightarrow> ws_state \<Rightarrow> ws_state go" where
  "read_frame tr st =
     (case frame_of (fst tr) (snd tr) of
        None \<Rightarrow> Ret st
      | Some msg \<Rightarrow>
          let st1 = (case snd tr of
                 ReadText d \<Rightarrow> (case unmarshal_map d of
                     Some j \<Rightarrow> st\<lparr>wc_ws := stash_metadata j (wc_ws st)\<rparr> | None \<Rightarrow> st)
               | _ \<Rightarrow> st)
          in push_frame msg st1)"

definition end_ws :: "ws_session \<Rightarrow> ws_session go" where
  "end_ws ws =
     (if ws_closed ws then Ret ws
      else go_bind (close_chan (ws_closedCh ws))
        (\<lambda>cl. go_bind (close_chan (ws_inbound ws))
          (\<lambda>inb. Ret (ws\<lparr>ws_closed := True, ws_closedCh := cl, ws_inbound := inb\<rparr>))))"

definition run_ws :: "nat \<Rightarrow> (int \<times> ws_read) list \<Rightarrow> ws_session \<Rightarrow> (ws_session \<times> string list) go" where
  "run_ws conn reads ws =
     go_bind (go_fold read_frame reads \<lparr>wc_ws = ws\<lparr>ws_conn := Some conn\<rparr>, wc_warnings = []\<rparr>)
       (\<lambda>st. go_bind (end_ws (wc_ws st)) (\<lambda>ws'. Ret (ws', wc_warnings st)))"

definition ensure_ws :: "session \<Rightarrow> ws_session" where
  "ensure_ws s = (case s_ws s of None \<Rightarrow> newWSSession | Some ws \<Rightarrow> ws)"

text \<open>
  The handler: \<open>upgrade\<close> is the connection the third-party upgrader hands out, or its failure
  (it has then written the response itself).
\<close>

definition handleWS ::
  "nat option \<Rightarrow> (int \<times> ws_read) list \<Rightarrow> http_request \<Rightarrow> 'sch server
     \<Rightarrow> (http_response option \<times> 'sch server) go" where
  "handleWS upgrade reads r s =
     (let sessID = trim_prefix (hr_Path r) ''/ws/'' in
      if sessID = [] then Ret (Some (http_error ''session id required in /ws/<id>'' 400), s)
      else
        let (a, s1) =
              (case Lookup sessID (srv_Registry s) of
                 Some a \<Rightarrow> (a, s)
               | None \<Rightarrow>
                   let s' = log_line ''WARN'' ''webhook: WS for unknown session; using anon'' s;
                       (a, rg) = reg_New ''_anon'' (srv_Registry s')
                   in (a, s'\<lparr>srv_Registry := rg\<rparr>))
        in case upgrade of
             None \<Rightarrow> Ret (None, log_line ''ERROR'' ''webhook: WS upgrade failed'' s1)
           | Some conn \<Rightarrow>
               go_bind (go_index (r_heap (srv_Registry s1)) (int a))
                 (\<lambda>sess. go_bind (run_ws conn reads (ensure_ws sess))
                   (\<lambda>(ws, warns).
                      let rg = (srv_Registry s1)\<lparr>r_heap :=
                                 (r_heap (srv_Registry s1))[a := sess\<lparr>s_ws := Some ws\<rparr>]\<rparr>
                      in Ret (None, fold (log_line ''WARN'') warns (s1\<lparr>srv_Registry := rg\<rparr>)))))"

section \<open>The session's readers and writers\<close>

definition WSClosed :: "session \<Rightarrow> unit chan \<times> session" where
  "WSClosed s = (ws_closedCh (ensure_ws s), s\<lparr>s_ws := Some (ensure_ws s)\<rparr>)"

text \<open>The nil map is \<open>None\<close>.\<close>

definition WSMetadata :: "session \<Rightarrow> members option" where
  "WSMetadata s =
     (case s_ws s of
        None \<Rightarrow> None
      | Some ws \<Rightarrow> Some (case ws_metadata ws of None \<Rightarrow> [] | Some m \<Rightarrow> m))"

text \<open>
  \<open>WSConnected\<close> polls: each round sees the session at that moment and which branch its \<open>select\<close>
  took (the context's error, or the next tick).
\<close>

datatype poll_result = Connected | PollErr string | StillPolling

fun WSConnected :: "(session \<times> string option) list \<Rightarrow> poll_result" where
  "WSConnected [] = StillPolling"
| "WSConnected ((s, done) # rounds) =
     (if (case s_ws s of Some ws \<Rightarrow> ws_conn ws \<noteq> None | None \<Rightarrow> False) then Connected
      else case done of Some err \<Rightarrow> PollErr err | None \<Rightarrow> WSConnected rounds)"

text \<open>
  One round of a reader's \<open>select\<close>: the state the handler has left the WebSocket session in when
  it fires, the context's error if it is done, and the branch Go picks among the ready ones.
\<close>

record select_round =
  sr_handler :: "ws_session \<Rightarrow> ws_session"
  sr_ctx :: "string option"
  sr_pick :: nat

datatype branch = BrInbound | BrClosedCh | BrDone

definition pick_branch :: "nat \<Rightarrow> branch list \<Rightarrow> branch option" where
  "pick_branch n bs = (if bs = [] then None else Some (bs ! (n mod length bs)))"

definition ready_branches :: "bool \<Rightarrow> string option \<Rightarrow> ws_session \<Rightarrow> branch list" where
  "ready_branches with_closedCh ctx ws =
     (if ch_buf (ws_inbound ws) \<noteq> [] \<or> ch_closed (ws_inbound ws) then [BrInbound] else [])
     @ (if with_closedCh \<and> ch_closed (ws_closedCh ws) then [BrClosedCh] else [])
     @ (if ctx \<noteq> None then [BrDone] else [])"

definition pop_frame :: "ws_session \<Rightarrow> (ws_message \<times> ws_session) option" where
  "pop_frame ws =
     (case try_recv (ws_inbound ws) of
        Got m ch \<Rightarrow> Some (m, ws\<lparr>ws_inbound := ch\<rparr>) | _ \<Rightarrow> None)"

datatype 'a read_result = ReadOk 'a ws_session | ReadErr string ws_session | ReadBlocked ws_session

definition WaitWSMessage :: "select_round \<Rightarrow> session \<Rightarrow> ws_message read_result" where
  "WaitWSMessage rd s =
     (let ws = sr_handler rd (ensure_ws s) in
      case pick_branch (sr_pick rd) (ready_branches False (sr_ctx rd) ws) of
        None \<Rightarrow> ReadBlocked ws
      | Some BrDone \<Rightarrow> ReadErr (the (sr_ctx rd)) ws
      | Some _ \<Rightarrow>
          (case pop_frame ws of
             Some (m, ws') \<Rightarrow> ReadOk m ws' | None \<Rightarrow> ReadErr ''WS: stream closed'' ws))"

fun collect_loop ::
  "select_round list \<Rightarrow> ws_message list \<Rightarrow> ws_session \<Rightarrow> ws_message list read_result" where
  "collect_loop [] out ws = ReadBlocked ws"
| "collect_loop (rd # rds) out ws =
     (let ws1 = sr_handler rd ws in
      case pick_branch (sr_pick rd) (ready_branches True (sr_ctx rd) ws1) of
        None \<Rightarrow> ReadBlocked ws1
      | Some BrDone \<Rightarrow> ReadOk out ws1
      | Some BrClosedCh \<Rightarrow>
          ReadOk (out @ ch_buf (ws_inbound ws1)) (ws1\<lparr>ws_inbound := (ws_inbound ws1)\<lparr>ch_buf := []\<rparr>\<rparr>)
      | Some BrInbound \<Rightarrow>
          (case pop_frame ws1 of
             Some (m, ws2) \<Rightarrow> collect_loop rds (out @ [m]) ws2
           | None \<Rightarrow> ReadOk out ws1))"

definition CollectWS :: "select_round list \<Rightarrow> session \<Rightarrow> ws_message list read_result" where
  "CollectWS rds s = collect_loop rds [] (ensure_ws s)"

definition BinaryConcat :: "ws_message list \<Rightarrow> string" where
  "BinaryConcat msgs =
     fold (\<lambda>m out. if msg_Kind m = WSBinary then out @ msg_Binary m else out) msgs []"

text \<open>\<open>SendWSText\<close> and \<open>SendWSBinary\<close>: \<open>write\<close> is the connection's \<open>WriteMessage\<close>.\<close>

definition send_ws :: "(nat \<Rightarrow> ws_kind \<Rightarrow> string \<Rightarrow> string option) \<Rightarrow> ws_kind \<Rightarrow> string \<Rightarrow> session \<Rightarrow> string option" where
  "send_ws write kind b s =
     (case s_ws s of
        None \<Rightarrow> Some ''WS: not connected''
      | Some ws \<Rightarrow>
          (case ws_conn ws of
             None \<Rightarrow> Some ''WS: not connected'' | Some conn \<Rightarrow> write conn kind b))"

definition SendWSText :: "(nat \<Rightarrow> ws_kind \<Rightarrow> string \<Rightarrow> string option) \<Rightarrow> string \<Rightarrow> session \<Rightarrow> string option" where
  "SendWSText write b s = send_ws write WSText b s"

definition SendWSBinary :: "(nat \<Rightarrow> ws_kind \<Rightarrow> string \<Rightarrow> string option) \<Rightarrow> string \<Rightarrow> session \<Rightarrow> string option" where
  "SendWSBinary write b s = send_ws write WSBinary b s"

record ws_mark =
  mk_Name :: string
  mk_Event :: string

definition parseMark :: "ws_message \<Rightarrow> ws_mark option" where
  "parseMark m =
     (if msg_Kind m \<noteq> WSText then None
      else case msg_JSON m of
        None \<Rightarrow> None
      | Some j \<Rightarrow>
          if str_member0 j ''type'' \<noteq> ''mark'' then None
          else case obj_member j ''data'' of
            None \<Rightarrow> None
          | Some d \<Rightarrow> Some \<lparr>mk_Name = str_member0 d ''name'', mk_Event = str_member0 d ''event''\<rparr>)"

fun mark_loop :: "string \<Rightarrow> select_round list \<Rightarrow> ws_session \<Rightarrow> ws_mark read_result" where
  "mark_loop name [] ws = ReadBlocked ws"
| "mark_loop name (rd # rds) ws =
     (let ws1 = sr_handler rd ws in
      case pick_branch (sr_pick rd) (ready_branches False (sr_ctx rd) ws1) of
        None \<Rightarrow> ReadBlocked ws1
      | Some BrDone \<Rightarrow> ReadErr (the (sr_ctx rd)) ws1
      | Some _ \<Rightarrow>
          (case pop_frame ws1 of
             None \<Rightarrow> ReadErr ''WS: stream closed before mark arrived'' ws1
           | Some (m, ws2) \<Rightarrow>
               (case parseMark m of
                  Some mark \<Rightarrow>
                    if mk_Name mark = name then ReadOk mark ws2 else mark_loop name rds ws2
                | None \<Rightarrow> mark_loop name rds ws2)))"

definition WaitWSMark :: "string \<Rightarrow> select_round list \<Rightarrow> session \<Rightarrow> ws_mark read_result" where
  "WaitWSMark name rds s = mark_loop name rds (ensure_ws s)"

section \<open>What a connection leaves behind\<close>

definition ws_open :: "ws_session \<Rightarrow> bool" where
  "ws_open ws \<longleftrightarrow> \<not> ws_closed ws \<and> \<not> ch_closed (ws_inbound ws) \<and> \<not> ch_closed (ws_closedCh ws)
     \<and> ch_cap (ws_inbound ws) = 256 \<and> length (ch_buf (ws_inbound ws)) \<le> 256"

definition ws_ended :: "ws_session \<Rightarrow> bool" where
  "ws_ended ws \<longleftrightarrow> ws_closed ws \<and> ch_closed (ws_inbound ws) \<and> ch_closed (ws_closedCh ws)"

lemma newWSSession_sel [simp]:
  "ws_inbound newWSSession = make_chan 256" "ws_metadata newWSSession = None"
  by (simp_all add: newWSSession_def)

lemma ws_open_new [simp]: "ws_open newWSSession"
  by (simp add: ws_open_def newWSSession_def)

lemma push_frame_fits:
  "ws_open (wc_ws st) \<Longrightarrow> length (ch_buf (ws_inbound (wc_ws st))) < 256 \<Longrightarrow>
     push_frame m st = Ret (st\<lparr>wc_ws := (wc_ws st)\<lparr>ws_inbound :=
        (ws_inbound (wc_ws st))\<lparr>ch_buf := ch_buf (ws_inbound (wc_ws st)) @ [m]\<rparr>\<rparr>\<rparr>)"
  by (simp add: push_frame_def ws_open_def try_send_open)

lemma push_frame_full:
  "ws_open (wc_ws st) \<Longrightarrow> \<not> length (ch_buf (ws_inbound (wc_ws st))) < 256 \<Longrightarrow>
     push_frame m st = Ret (st\<lparr>wc_warnings := wc_warnings st @
        [''webhook: WS inbound queue full; dropping frame'']\<rparr>)"
  by (simp add: push_frame_def ws_open_def try_send_open)

interpretation inbound: bounded_sink push_frame
  "\<lambda>st. ch_buf (ws_inbound (wc_ws st))" "\<lambda>st. length (wc_warnings st)" "\<lambda>st. ws_open (wc_ws st)" 256
  by unfold_locales (auto simp: push_frame_fits push_frame_full, auto simp: ws_open_def)

definition set_metadata :: "members option \<Rightarrow> ws_state \<Rightarrow> ws_state" where
  "set_metadata j st = st\<lparr>wc_ws := (wc_ws st)\<lparr>ws_metadata := j\<rparr>\<rparr>"

lemma set_metadata_simps [simp]:
  "ws_metadata (wc_ws (set_metadata j st)) = j" "set_metadata j (set_metadata i st) = set_metadata j st"
  "set_metadata (ws_metadata (wc_ws st)) st = st" "ws_inbound (wc_ws (set_metadata j st)) = ws_inbound (wc_ws st)"
  "ws_open (wc_ws (set_metadata j st)) = ws_open (wc_ws st)" "wc_warnings (set_metadata j st) = wc_warnings st"
  "ws_conn (wc_ws (set_metadata j st)) = ws_conn (wc_ws st)"
  by (simp_all add: set_metadata_def ws_open_def)

lemma push_frame_metadata:
  "push_frame m (set_metadata j st) = go_bind (push_frame m st) (\<lambda>t. Ret (set_metadata j t))"
  by (cases "try_send m (ws_inbound (wc_ws st))")
    (auto simp: push_frame_def set_metadata_def simp del: try_send_panic_iff split: option.splits)

lemma push_frame_same:
  "push_frame m st = Ret t \<Longrightarrow> ws_metadata (wc_ws t) = ws_metadata (wc_ws st) \<and> ws_conn (wc_ws t) = ws_conn (wc_ws st)"
  by (auto simp: push_frame_def split: option.splits)

text \<open>The frames of a connection, and the metadata left by them.\<close>

definition frames_of :: "(int \<times> ws_read) list \<Rightarrow> ws_message list" where
  "frames_of reads = List.map_filter (\<lambda>(t, rd). frame_of t rd) reads"

fun metadata_after :: "(int \<times> ws_read) list \<Rightarrow> members option \<Rightarrow> members option" where
  "metadata_after [] j = j"
| "metadata_after ((t, ReadText d) # rds) None =
     metadata_after rds (case unmarshal_map d of Some m \<Rightarrow> m | None \<Rightarrow> None)"
| "metadata_after (_ # rds) j = metadata_after rds j"

lemma frames_of_Cons:
  "frames_of ((t, rd) # rds) = (case frame_of t rd of None \<Rightarrow> frames_of rds | Some m \<Rightarrow> m # frames_of rds)"
  by (simp add: frames_of_def List.map_filter_simps split: option.split)

lemma set_metadata_same: "ws_metadata (wc_ws st) = j \<Longrightarrow> set_metadata j st = st"
  by (auto simp: set_metadata_def)

lemma read_frame_push:
  "read_frame (t, rd) st =
     (case frame_of t rd of
        None \<Rightarrow> Ret st
      | Some m \<Rightarrow> push_frame m (set_metadata (metadata_after [(t, rd)] (ws_metadata (wc_ws st))) st))"
  by (cases "ws_metadata (wc_ws st)"; cases rd)
    (auto simp: read_frame_def frame_of_def stash_metadata_def set_metadata_same
      simp flip: set_metadata_def split: option.splits)

lemma metadata_after_Cons: "metadata_after (x # rds) j = metadata_after rds (metadata_after [x] j)"
  by (cases x; cases "snd x"; cases j) auto

lemma frame_of_None_metadata: "frame_of t rd = None \<Longrightarrow> metadata_after [(t, rd)] j = j"
  by (cases rd) (simp_all add: frame_of_def)

lemma read_frames_push:
  "go_fold read_frame rds st
     = go_fold push_frame (frames_of rds) (set_metadata (metadata_after rds (ws_metadata (wc_ws st))) st)"
proof (induction rds arbitrary: st)
  case Nil
  then show ?case by (simp add: frames_of_def List.map_filter_simps)
next
  case (Cons x rds)
  obtain t rd where x: "x = (t, rd)" by (cases x)
  show ?case
  proof (cases "frame_of t rd")
    case None
    with Cons x frame_of_None_metadata [OF None] show ?thesis
      by (simp add: read_frame_push frames_of_Cons metadata_after_Cons [of _ rds])
  next
    case (Some m)
    let ?j = "metadata_after [x] (ws_metadata (wc_ws st))"
    show ?thesis
    proof (cases "push_frame m st")
      case Panic
      with Some x show ?thesis
        by (simp add: read_frame_push frames_of_Cons push_frame_metadata)
    next
      case (Ret u)
      have "read_frame x st = Ret (set_metadata ?j u)"
        using Some x Ret by (simp add: read_frame_push push_frame_metadata)
      then show ?thesis using Some x Ret Cons
        by (simp add: frames_of_Cons push_frame_metadata metadata_after_Cons [of _ rds])
    qed
  qed
qed

lemma run_ws_spec:
  assumes "ws_open ws"
  shows "\<exists>ws' warns. run_ws conn reads ws = Ret (ws', warns) \<and> ws_ended ws'
     \<and> ch_buf (ws_inbound ws') = ch_buf (ws_inbound ws)
          @ take (256 - length (ch_buf (ws_inbound ws))) (frames_of reads)
     \<and> length (ch_buf (ws_inbound ws')) + length warns
          = length (ch_buf (ws_inbound ws)) + length (frames_of reads)
     \<and> ws_metadata ws' = metadata_after reads (ws_metadata ws)"
proof -
  let ?st = "\<lparr>wc_ws = ws\<lparr>ws_conn := Some conn\<rparr>, wc_warnings = []\<rparr>"
  let ?st' = "set_metadata (metadata_after reads (ws_metadata ws)) ?st"
  have "ws_open (wc_ws ?st')" using assms by (simp add: ws_open_def set_metadata_def)
  from inbound.run_spec [OF this, of "frames_of reads"] obtain t where
    t: "go_fold push_frame (frames_of reads) ?st' = Ret t" "ws_open (wc_ws t)"
      "ch_buf (ws_inbound (wc_ws t)) = ch_buf (ws_inbound ws)
          @ take (256 - length (ch_buf (ws_inbound ws))) (frames_of reads)"
      "length (ch_buf (ws_inbound (wc_ws t))) + length (wc_warnings t)
          = length (ch_buf (ws_inbound ws)) + length (frames_of reads)" by auto
  have keep: "go_fold push_frame ms u = Ret v \<Longrightarrow> ws_metadata (wc_ws v) = ws_metadata (wc_ws u)" for ms u v
    by (induction ms arbitrary: u) (auto dest: push_frame_same)
  have m: "ws_metadata (wc_ws t) = metadata_after reads (ws_metadata ws)" using keep [OF t(1)] by simp
  have "go_fold read_frame reads ?st = Ret t" using t(1) by (simp add: read_frames_push)
  with t m show ?thesis
    by (auto simp: run_ws_def end_ws_def close_chan_def ws_open_def ws_ended_def)
qed

lemma run_ws_ended_panics:
  assumes "ws_ended ws" and "frames_of reads \<noteq> []"
  shows "run_ws conn reads ws = Panic"
proof -
  obtain m ms where f: "frames_of reads = m # ms" using assms(2) by (cases "frames_of reads") auto
  have "push_frame m st = Panic" if "ch_closed (ws_inbound (wc_ws st))" for st
    using that by (simp add: push_frame_def)
  then show ?thesis using assms(1) f by (simp add: run_ws_def read_frames_push ws_ended_def)
qed

section \<open>What readers get\<close>

lemma pick_branch_None [simp]: "pick_branch n bs = None \<longleftrightarrow> bs = []"
  by (simp add: pick_branch_def)

lemma pick_branch_in: "pick_branch n bs = Some b \<Longrightarrow> b \<in> set bs"
  by (auto simp: pick_branch_def split: if_splits)

definition idle :: "select_round \<Rightarrow> bool" where
  "idle rd \<longleftrightarrow> sr_handler rd = (\<lambda>ws. ws) \<and> sr_ctx rd = None"

lemma pop_frame_Cons:
  "ch_buf (ws_inbound ws) = m # ms \<Longrightarrow>
     pop_frame ws = Some (m, ws\<lparr>ws_inbound := (ws_inbound ws)\<lparr>ch_buf := ms\<rparr>\<rparr>)"
  by (simp add: pop_frame_def try_recv_def)

lemma pop_frame_Nil: "ch_buf (ws_inbound ws) = [] \<Longrightarrow> pop_frame ws = None"
  by (simp add: pop_frame_def try_recv_def)

lemma collect_loop_all:
  "ws_ended ws \<Longrightarrow> list_all idle rds \<Longrightarrow> length (ch_buf (ws_inbound ws)) < length rds \<Longrightarrow>
     \<exists>ws'. collect_loop rds out ws = ReadOk (out @ ch_buf (ws_inbound ws)) ws'"
proof (induction rds arbitrary: out ws)
  case Nil
  then show ?case by simp
next
  case (Cons rd rds)
  have rd: "sr_handler rd ws = ws" "sr_ctx rd = None" using Cons.prems(2) by (auto simp: idle_def)
  have ready: "ready_branches True None ws = [BrInbound, BrClosedCh]"
    using Cons.prems(1) by (simp add: ready_branches_def ws_ended_def)
  obtain b where b: "pick_branch (sr_pick rd) [BrInbound, BrClosedCh] = Some b"
    by (cases "pick_branch (sr_pick rd) [BrInbound, BrClosedCh]") auto
  then have "b = BrInbound \<or> b = BrClosedCh" using pick_branch_in by fastforce
  then show ?case
  proof
    assume "b = BrClosedCh"
    then show ?thesis using b rd ready by simp
  next
    assume i: "b = BrInbound"
    show ?thesis
    proof (cases "ch_buf (ws_inbound ws)")
      case Nil
      then show ?thesis using b i rd ready by (simp add: pop_frame_Nil)
    next
      case (Cons m ms)
      let ?ws = "ws\<lparr>ws_inbound := (ws_inbound ws)\<lparr>ch_buf := ms\<rparr>\<rparr>"
      have "\<exists>ws'. collect_loop rds (out @ [m]) ?ws = ReadOk ((out @ [m]) @ ch_buf (ws_inbound ?ws)) ws'"
        using Cons.IH [of ?ws "out @ [m]"] Cons.prems Cons by (simp add: ws_ended_def)
      then show ?thesis using b i rd ready Cons by (simp add: pop_frame_Cons)
    qed
  qed
qed

lemma mark_loop_first:
  "ch_buf (ws_inbound ws) = pre @ m # post \<Longrightarrow> \<forall>f\<in>set pre. \<forall>k. parseMark f = Some k \<longrightarrow> mk_Name k \<noteq> name \<Longrightarrow>
     parseMark m = Some mark \<Longrightarrow> mk_Name mark = name \<Longrightarrow> list_all idle rds \<Longrightarrow> length pre < length rds \<Longrightarrow>
     \<exists>ws'. mark_loop name rds ws = ReadOk mark ws' \<and> ch_buf (ws_inbound ws') = post"
proof (induction rds arbitrary: pre ws)
  case Nil
  then show ?case by simp
next
  case (Cons rd rds)
  have rd: "sr_handler rd ws = ws" "sr_ctx rd = None" using Cons.prems(5) by (auto simp: idle_def)
  have ready: "pick_branch (sr_pick rd) (ready_branches False None ws) = Some BrInbound"
    using Cons.prems(1) by (simp add: ready_branches_def pick_branch_def)
  show ?case
  proof (cases pre)
    case Nil
    then show ?thesis using Cons.prems rd ready by (simp add: pop_frame_Cons)
  next
    case (Cons f fs)
    let ?ws = "ws\<lparr>ws_inbound := (ws_inbound ws)\<lparr>ch_buf := fs @ m # post\<rparr>\<rparr>"
    have "\<exists>ws'. mark_loop name rds ?ws = ReadOk mark ws' \<and> ch_buf (ws_inbound ws') = post"
      using Cons.prems Cons by (intro Cons.IH [of ?ws fs]) auto
    then show ?thesis using Cons.prems rd ready Cons
      by (auto simp: pop_frame_Cons split: option.splits)
  qed
qed

lemma fold_append_filter:
  "fold (\<lambda>m out. if P m then out @ g m else out) ys acc = acc @ concat (map g (filter P ys))"
  by (induction ys arbitrary: acc) auto

lemma BinaryConcat_eq: "BinaryConcat ms = concat (map msg_Binary (filter (\<lambda>m. msg_Kind m = WSBinary) ms))"
  by (simp add: BinaryConcat_def fold_append_filter)

fun audio_of :: "(int \<times> ws_read) list \<Rightarrow> string" where
  "audio_of [] = []"
| "audio_of ((t, ReadBinary d) # rds) = d @ audio_of rds"
| "audio_of (_ # rds) = audio_of rds"

lemma BinaryConcat_frames: "BinaryConcat (frames_of rds) = audio_of rds"
proof (induction rds rule: audio_of.induct)
  case 1
  then show ?case by (simp add: frames_of_def List.map_filter_simps BinaryConcat_eq)
qed (simp_all add: frames_of_Cons frame_of_def BinaryConcat_eq)

lemma fold_log_line_reg [simp]: "srv_Registry (fold (log_line l) warns s) = srv_Registry s"
  by (induction warns arbitrary: s) auto

lemma handleWS_known:
  assumes "registry_ok (srv_Registry s)" and "Lookup sid (srv_Registry s) = Some a" and "sid \<noteq> []"
    and "hr_Path r = ''/ws/'' @ sid"
  shows "handleWS (Some conn) reads r s =
     go_bind (run_ws conn reads (ensure_ws (r_heap (srv_Registry s) ! a)))
       (\<lambda>(ws, warns). Ret (None, fold (log_line ''WARN'') warns (s\<lparr>srv_Registry := (srv_Registry s)
          \<lparr>r_heap := (r_heap (srv_Registry s))[a := (r_heap (srv_Registry s) ! a)\<lparr>s_ws := Some ws\<rparr>]\<rparr>\<rparr>)))"
proof -
  have a: "a < length (r_heap (srv_Registry s))"
    using assms(2) registry_ok_sessions [OF assms(1)] by (auto simp: Lookup_def)
  then show ?thesis using assms(2-4)
    by (auto simp: handleWS_def Let_def trim_prefix_def has_prefix_def go_index_def)
qed

section \<open>Properties\<close>

text \<open>
  C8 (functional): the first connection of a session ends with both channels closed once, the
  first 256 text and binary frames queued in arrival order, one warning for each further one,
  and as metadata the first text frame that decodes to a non-null object.
\<close>

theorem handleWS_captures:
  assumes "registry_ok (srv_Registry s)" and "Lookup sid (srv_Registry s) = Some a" and "sid \<noteq> []"
    and "hr_Path r = ''/ws/'' @ sid" and "s_ws (r_heap (srv_Registry s) ! a) = None"
  shows "\<exists>s' ws. handleWS (Some conn) reads r s = Ret (None, s')
     \<and> s_ws (r_heap (srv_Registry s') ! a) = Some ws \<and> ws_ended ws
     \<and> ch_buf (ws_inbound ws) = take 256 (frames_of reads)
     \<and> length (srv_log s') = length (srv_log s) + (length (frames_of reads) - 256)
     \<and> ws_metadata ws = metadata_after reads None"
proof -
  have a: "a < length (r_heap (srv_Registry s))"
    using assms(2) registry_ok_sessions [OF assms(1)] by (auto simp: Lookup_def)
  have log: "length (srv_log (fold (log_line ''WARN'') ws t)) = length (srv_log t) + length ws"
    for ws and t :: "'a server"
    by (induction ws arbitrary: t) (auto simp: log_line_def)
  from run_ws_spec [of newWSSession conn reads] obtain ws warns where
    "run_ws conn reads newWSSession = Ret (ws, warns)" "ws_ended ws"
    "ch_buf (ws_inbound ws) = take 256 (frames_of reads)"
    "length (ch_buf (ws_inbound ws)) + length warns = length (frames_of reads)"
    "ws_metadata ws = metadata_after reads None"
    by auto
  then show ?thesis using assms a
    by (simp add: handleWS_known ensure_ws_def log)
qed

definition ws_server :: "nat server" where
  "ws_server = (server_New None)\<lparr>srv_Registry :=
     \<lparr>r_sessions = [''t1'' \<mapsto> 0], r_callSidIndex = Map.empty, r_heap = [new_session ''t1'']\<rparr>\<rparr>"

definition ws_request :: http_request where
  "ws_request = \<lparr>hr_Method = ''GET'', hr_Path = ''/ws/t1'', hr_Header = [], hr_Query = [], hr_Body = None\<rparr>"

lemma ws_server_ok: "registry_ok (srv_Registry ws_server)" "Lookup ''t1'' (srv_Registry ws_server) = Some 0"
  "hr_Path ws_request = ''/ws/'' @ ''t1''" "s_ws (r_heap (srv_Registry ws_server) ! 0) = None"
  by (auto simp: ws_server_def ws_request_def registry_ok_def Lookup_def new_session_def session_ok_def split: if_splits)

theorem handleWS_captures_witness:
  "\<exists>s' ws. handleWS (Some 7) [(0, ReadBinary ''ab'')] ws_request ws_server = Ret (None, s')
     \<and> s_ws (r_heap (srv_Registry s') ! 0) = Some ws \<and> ws_ended ws
     \<and> ch_buf (ws_inbound ws) = take 256 (frames_of [(0, ReadBinary ''ab'')])
     \<and> length (srv_log s') = length (srv_log ws_server) + (length (frames_of [(0, ReadBinary ''ab'')]) - 256)
     \<and> ws_metadata ws = metadata_after [(0, ReadBinary ''ab'')] None"
  by (rule handleWS_captures [OF ws_server_ok(1,2) _ ws_server_ok(3,4)]) simp

text \<open>
  C40 (error): a session takes one connection. When a second one for the same id carries any
  text or binary frame after the first has ended, its handler sends on a closed channel and
  panics.
\<close>

theorem second_connection_panics:
  assumes "registry_ok (srv_Registry s)" and "Lookup sid (srv_Registry s) = Some a" and "sid \<noteq> []"
    and "hr_Path r = ''/ws/'' @ sid" and "s_ws (r_heap (srv_Registry s) ! a) = None"
    and "frames_of reads2 \<noteq> []" and "handleWS (Some c1) reads1 r s = Ret (resp, s1)"
  shows "handleWS (Some c2) reads2 r s1 = Panic"
proof -
  let ?g = "srv_Registry s"
  have a: "a < length (r_heap ?g)"
    using assms(2) registry_ok_sessions [OF assms(1)] by (auto simp: Lookup_def)
  from run_ws_spec [of newWSSession c1 reads1] obtain ws warns where
    run: "run_ws c1 reads1 newWSSession = Ret (ws, warns)" "ws_ended ws" by auto
  let ?f = "\<lambda>x. Ret (x\<lparr>s_ws := Some ws\<rparr>)"
  have "\<exists>t. ?f x = Ret t \<and> session_ok t \<and> s_id t = s_id x" if "session_ok x" for x
    using that by (simp add: session_ok_def)
  from at_session_ok [OF assms(1) a, of ?f, OF this]
  have ok: "registry_ok (?g\<lparr>r_heap := (r_heap ?g)[a := (r_heap ?g ! a)\<lparr>s_ws := Some ws\<rparr>]\<rparr>)"
    using a by (auto simp: at_session_def go_index_def)
  have reg: "srv_Registry s1 = ?g\<lparr>r_heap := (r_heap ?g)[a := (r_heap ?g ! a)\<lparr>s_ws := Some ws\<rparr>]\<rparr>"
    using assms run a by (auto simp: handleWS_known ensure_ws_def)
  have known: "registry_ok (srv_Registry s1)" "Lookup sid (srv_Registry s1) = Some a"
    using ok reg assms(2) by (simp_all add: Lookup_def)
  have "ensure_ws (r_heap (srv_Registry s1) ! a) = ws" using reg a by (simp add: ensure_ws_def)
  with run_ws_ended_panics [OF run(2) assms(6)] show ?thesis
    by (simp add: handleWS_known [OF known assms(3,4)])
qed

theorem second_connection_panics_witness:
  "handleWS (Some 8) [(5, ReadText ''{}'')] ws_request
     (snd (case handleWS (Some 7) [] ws_request ws_server of Ret x \<Rightarrow> x | Panic \<Rightarrow> (None, ws_server))) = Panic"
proof (rule second_connection_panics [OF ws_server_ok(1,2) _ ws_server_ok(3,4)])
  show "handleWS (Some 7) [] ws_request ws_server
      = Ret (None, snd (case handleWS (Some 7) [] ws_request ws_server of Ret x \<Rightarrow> x | Panic \<Rightarrow> (None, ws_server)))"
    by (simp add: handleWS_known [OF ws_server_ok(1,2) _ ws_server_ok(3)] run_ws_def end_ws_def close_chan_def
        ensure_ws_def ws_server_ok(4) newWSSession_def make_chan_def)
qed (simp_all add: frames_of_def frame_of_def List.map_filter_simps)

text \<open>
  C26 (functional): after a connection has ended, collecting returns every queued frame in
  order, whichever ready branch each \<open>select\<close> picks; the audio a test concatenates from up to
  256 frames is exactly what was sent.
\<close>

theorem CollectWS_complete:
  assumes "run_ws conn reads newWSSession = Ret (ws, warns)" and "s_ws s = Some ws"
    and "length (frames_of reads) \<le> 256" and "list_all idle rds" and "length (frames_of reads) < length rds"
  shows "\<exists>msgs ws'. CollectWS rds s = ReadOk msgs ws' \<and> msgs = frames_of reads
           \<and> BinaryConcat msgs = audio_of reads"
proof -
  from run_ws_spec [of newWSSession conn reads] assms(1,3)
  have "ws_ended ws" "ch_buf (ws_inbound ws) = frames_of reads"
    by auto
  with collect_loop_all [of ws rds "[]"] assms(2,4,5) show ?thesis
    by (auto simp: CollectWS_def ensure_ws_def BinaryConcat_frames)
qed

definition idle_round :: "nat \<Rightarrow> select_round" where
  "idle_round n = \<lparr>sr_handler = (\<lambda>ws. ws), sr_ctx = None, sr_pick = n\<rparr>"

theorem CollectWS_complete_witness:
  "\<exists>ws warns msgs ws'. run_ws 1 [(0, ReadBinary ''ab''), (1, ReadBinary ''cd'')] newWSSession = Ret (ws, warns)
     \<and> CollectWS [idle_round 0, idle_round 1, idle_round 0] ((new_session ''t'')\<lparr>s_ws := Some ws\<rparr>)
         = ReadOk msgs ws' \<and> BinaryConcat msgs = ''abcd''"
proof -
  let ?rds = "[(0, ReadBinary ''ab''), (1, ReadBinary ''cd'')]"
  from run_ws_spec [of newWSSession 1 ?rds] obtain ws warns
    where r: "run_ws 1 ?rds newWSSession = Ret (ws, warns)" by auto
  have "length (frames_of ?rds) = 2" by (simp add: frames_of_Cons frame_of_def) (simp add: frames_of_def List.map_filter_simps)
  with CollectWS_complete [OF r, of "(new_session ''t'')\<lparr>s_ws := Some ws\<rparr>" "[idle_round 0, idle_round 1, idle_round 0]"] r
  show ?thesis by (auto simp: idle_def idle_round_def)
qed

text \<open>
  Waiting for a named mark skips every other frame, returns the first mark of
  that name, and leaves the frames behind it queued.
\<close>

theorem WaitWSMark_first_match:
  assumes "s_ws s = Some ws" and "ch_buf (ws_inbound ws) = pre @ m # post"
    and "\<forall>f\<in>set pre. \<forall>k. parseMark f = Some k \<longrightarrow> mk_Name k \<noteq> name"
    and "parseMark m = Some mark" and "mk_Name mark = name"
    and "list_all idle rds" and "length pre < length rds"
  shows "\<exists>ws'. WaitWSMark name rds s = ReadOk mark ws' \<and> ch_buf (ws_inbound ws') = post"
  using mark_loop_first [OF assms(2-7)] assms(1) by (simp add: WaitWSMark_def ensure_ws_def)

definition mark_msg :: "string \<Rightarrow> ws_message" where
  "mark_msg n = \<lparr>msg_Kind = WSText, msg_Received = 0, msg_Text = [], msg_Binary = [], msg_JSON =
     Some [(''type'', JStr ''mark''), (''data'', JObj [(''name'', JStr n), (''event'', JStr ''playout'')])]\<rparr>"

lemma parseMark_mark_msg: "parseMark (mark_msg n) = Some \<lparr>mk_Name = n, mk_Event = ''playout''\<rparr>"
  by (simp add: mark_msg_def parseMark_def str_member0_def str_member_def obj_member_def member_of_def)

definition marked_ws :: ws_session where
  "marked_ws = newWSSession\<lparr>ws_inbound := (make_chan 256)\<lparr>ch_buf := [mark_msg ''a'', mark_msg ''b'']\<rparr>\<rparr>"

theorem WaitWSMark_first_match_witness:
  "\<exists>ws'. WaitWSMark ''b'' [idle_round 0, idle_round 0] ((new_session ''t'')\<lparr>s_ws := Some marked_ws\<rparr>)
     = ReadOk \<lparr>mk_Name = ''b'', mk_Event = ''playout''\<rparr> ws' \<and> ch_buf (ws_inbound ws') = []"
  by (rule WaitWSMark_first_match [where ws = marked_ws and pre = "[mark_msg ''a'']" and m = "mark_msg ''b''"])
    (simp_all add: marked_ws_def parseMark_mark_msg idle_def idle_round_def)

end
