(* ===== verification/Webhook_AppWS.thy ===== *)
theory Webhook_AppWS
  imports Webhook_WS
begin

text \<open>
  \<open>internal/webhook/appws.go\<close>: the application protocol, in which jambonz fetches its verb
  scripts over a WebSocket. The handler is a run over the frames of the connection; its state
  is the server, the session it has settled on and the acks it has written. The lemmas show
  that it never panics, that it acknowledges exactly the messages that want it, each with its
  own message id and in order, and that it touches one test's session only.
\<close>

section \<open>Messages\<close>

record app_msg =
  am_Type :: string
  am_Msgid :: string
  am_CallSid :: string
  am_Hook :: string
  am_Data :: "json option"

definition no_app_msg :: app_msg where
  "no_app_msg = \<lparr>am_Type = [], am_Msgid = [], am_CallSid = [], am_Hook = [], am_Data = None\<rparr>"

text \<open>
  \<open>json.Unmarshal\<close> into the struct: a member goes to the field whose tag it equals up to letter
  case; a string field takes a string, ignores null, and anything else is an error. The raw
  \<open>data\<close> is kept as its value.
\<close>

definition string_field :: "(string \<Rightarrow> app_msg) \<Rightarrow> app_msg \<Rightarrow> json \<Rightarrow> app_msg option" where
  "string_field put msg v =
     (case v of JStr s \<Rightarrow> Some (put s) | JNull \<Rightarrow> Some msg | _ \<Rightarrow> None)"

definition set_member :: "string \<times> json \<Rightarrow> app_msg option \<Rightarrow> app_msg option" where
  "set_member kv acc =
     (case acc of
        None \<Rightarrow> None
      | Some msg \<Rightarrow>
          let k = fst kv; v = snd kv in
          if equal_fold k ''type'' then string_field (\<lambda>s. msg\<lparr>am_Type := s\<rparr>) msg v
          else if equal_fold k ''msgid'' then string_field (\<lambda>s. msg\<lparr>am_Msgid := s\<rparr>) msg v
          else if equal_fold k ''call_sid'' then string_field (\<lambda>s. msg\<lparr>am_CallSid := s\<rparr>) msg v
          else if equal_fold k ''hook'' then string_field (\<lambda>s. msg\<lparr>am_Hook := s\<rparr>) msg v
          else if equal_fold k ''data'' then Some (msg\<lparr>am_Data := Some v\<rparr>)
          else Some msg)"

definition decode_app_msg :: "string \<Rightarrow> app_msg option" where
  "decode_app_msg raw =
     (case unmarshal raw of
        Some (JObj m) \<Rightarrow> fold set_member m (Some no_app_msg)
      | Some JNull \<Rightarrow> Some no_app_msg
      | _ \<Rightarrow> None)"

definition wsSharedPathID :: string where "wsSharedPathID = ''shared''"

definition appHookLabel :: "string \<Rightarrow> string" where
  "appHookLabel msgType =
     (if msgType = ''session:new'' then ''call_hook''
      else if msgType = ''call:status'' then ''call_status_hook''
      else if msgType = ''verb:hook'' then ''verb_hook''
      else msgType)"

definition verbFromHookURL :: "string \<Rightarrow> string" where
  "verbFromHookURL hookURL =
     (case str_index hookURL ''/action/'' of
        None \<Rightarrow> []
      | Some i \<Rightarrow>
          let rest = drop (i + length ''/action/'') hookURL in
          (case index_any (\<lambda>c. c = CHR ''?'' \<or> c = CHR ''#'') rest of
             Some q \<Rightarrow> take q rest | None \<Rightarrow> rest))"

definition container_id :: "members \<Rightarrow> string \<Rightarrow> string" where
  "container_id d container =
     (case obj_member d container of None \<Rightarrow> [] | Some cd \<Rightarrow> str_member0 cd CorrelationKey)"

definition testIDFromAppData :: "json option \<Rightarrow> string" where
  "testIDFromAppData dat =
     (case dat of
        Some (JObj d) \<Rightarrow>
          if container_id d ''customerData'' \<noteq> [] then container_id d ''customerData''
          else if container_id d ''customer_data'' \<noteq> [] then container_id d ''customer_data''
          else str_member0 d CorrelationKey
      | _ \<Rightarrow> [])"

section \<open>Acks\<close>

text \<open>A byte slice that is not JSON is marshalled as its base64 text.\<close>

definition b64_char :: "nat \<Rightarrow> char" where
  "b64_char n =
     (if n < 26 then char_of (65 + n) else if n < 52 then char_of (71 + n)
      else if n < 62 then char_of (n - 4) else if n = 62 then CHR ''+'' else CHR ''/'')"

fun base64 :: "string \<Rightarrow> string" where
  "base64 [] = []"
| "base64 [a] = (let x = code a in
     [b64_char (x div 4), b64_char (x mod 4 * 16), CHR ''='', CHR ''=''])"
| "base64 [a, b] = (let x = code a; y = code b in
     [b64_char (x div 4), b64_char (x mod 4 * 16 + y div 16), b64_char (y mod 16 * 4), CHR ''=''])"
| "base64 (a # b # c # s) = (let x = code a; y = code b; z = code c in
     [b64_char (x div 4), b64_char (x mod 4 * 16 + y div 16),
      b64_char (y mod 16 * 4 + z div 64), b64_char (z mod 64)] @ base64 s)"

definition ack_data :: "hook_outcome \<Rightarrow> json" where
  "ack_data out =
     (if out_Body out \<noteq> [] then
        (case unmarshal (out_Body out) of Some v \<Rightarrow> v | None \<Rightarrow> JStr (base64 (out_Body out)))
      else case out_Verbs out of Some verbs \<Rightarrow> JArr verbs | None \<Rightarrow> JArr [])"

definition ack_frame :: "string \<Rightarrow> hook_outcome \<Rightarrow> json" where
  "ack_frame msgid out =
     JObj [(''data'', ack_data out), (''msgid'', JStr msgid), (''type'', JStr ''ack'')]"

section \<open>The handler\<close>

record 'sch app_state =
  as_srv :: "'sch server"
  as_sess :: "nat option"
  as_sent :: "json list"

text \<open>\<open>emit\<close> is the error, if any, of writing a frame to the connection.\<close>

definition ackVerbs :: "(json \<Rightarrow> string option) \<Rightarrow> string \<Rightarrow> hook_outcome \<Rightarrow> 'sch app_state \<Rightarrow> 'sch app_state" where
  "ackVerbs emit msgid out st =
     (case emit (ack_frame msgid out) of
        Some err \<Rightarrow> st\<lparr>as_srv := log_line ''DEBUG'' ''webhook: appWS emit ack failed'' (as_srv st)\<rparr>
      | None \<Rightarrow> st\<lparr>as_sent := as_sent st @ [ack_frame msgid out]\<rparr>)"

definition new_in :: "string \<Rightarrow> 'sch server \<Rightarrow> nat \<times> 'sch server" where
  "new_in i s = (let (a, r) = reg_New i (srv_Registry s) in (a, s\<lparr>srv_Registry := r\<rparr>))"

definition resolve_by_sid :: "string \<Rightarrow> app_msg \<Rightarrow> 'sch server \<Rightarrow> nat \<times> 'sch server" where
  "resolve_by_sid pathID msg s =
     (case (if am_CallSid msg \<noteq> [] then LookupByCallSid (am_CallSid msg) (srv_Registry s) else None) of
        Some a \<Rightarrow> (a, s)
      | None \<Rightarrow> new_in pathID (log_line ''WARN'' ''webhook: appWS no correlation; using path session'' s))"

definition resolve_by_data :: "string \<Rightarrow> app_msg \<Rightarrow> 'sch server \<Rightarrow> nat \<times> 'sch server" where
  "resolve_by_data pathID msg s =
     (let i = testIDFromAppData (am_Data msg) in
      if i \<noteq> [] then
        (case Lookup i (srv_Registry s) of
           Some a \<Rightarrow> (a, s)
         | None \<Rightarrow> new_in i (log_line ''WARN'' ''webhook: appWS x_test_id has no session; creating'' s))
      else resolve_by_sid pathID msg s)"

definition resolveAppWSSession :: "string \<Rightarrow> app_msg \<Rightarrow> 'sch server \<Rightarrow> nat \<times> 'sch server" where
  "resolveAppWSSession pathID msg s =
     (case (if pathID \<noteq> [] \<and> pathID \<noteq> wsSharedPathID then Lookup pathID (srv_Registry s) else None) of
        Some a \<Rightarrow> (a, s)
      | None \<Rightarrow> resolve_by_data pathID msg s)"

definition settle_session :: "nat \<Rightarrow> string \<Rightarrow> app_msg \<Rightarrow> 'sch app_state \<Rightarrow> (nat \<times> 'sch server) go" where
  "settle_session conn testID msg st =
     (case as_sess st of
        Some a \<Rightarrow> Ret (a, as_srv st)
      | None \<Rightarrow>
          let (a, s) = resolveAppWSSession testID msg (as_srv st) in
          go_bind (at_session a (\<lambda>x. Ret (BindAppConn conn x)) (srv_Registry s))
            (\<lambda>r. Ret (a, s\<lparr>srv_Registry := r\<rparr>)))"

definition app_callback :: "string \<Rightarrow> int \<Rightarrow> string \<Rightarrow> app_msg \<Rightarrow> callback" where
  "app_callback testID now raw msg =
     \<lparr>cb_Hook = appHookLabel (am_Type msg), cb_Transport = TransportWS, cb_Received = now,
      cb_Method = ''WS'', cb_Headers = Map.empty, cb_Body = raw, cb_JSON = decodeJSON raw,
      cb_TestID = testID, cb_Transport2 = []\<rparr>"

definition reply :: "(json \<Rightarrow> string option) \<Rightarrow> app_msg \<Rightarrow> session \<Rightarrow> 'sch app_state \<Rightarrow> 'sch app_state" where
  "reply emit msg sess st =
     (if am_Type msg = ''session:new'' then ackVerbs emit (am_Msgid msg) (outcomeForCallHook sess) st
      else if am_Type msg = ''verb:hook'' then
        ackVerbs emit (am_Msgid msg) (outcomeForActionHook (verbFromHookURL (am_Hook msg)) sess) st
      else st)"

definition app_message ::
  "(json \<Rightarrow> string option) \<Rightarrow> nat \<Rightarrow> string \<Rightarrow> int \<Rightarrow> string \<Rightarrow> app_msg \<Rightarrow> 'sch app_state \<Rightarrow> 'sch app_state go" where
  "app_message emit conn testID now raw msg st =
     go_bind (settle_session conn testID msg st)
       (\<lambda>(a, s1). go_bind (go_index (r_heap (srv_Registry s1)) (int a))
          (\<lambda>sess.
             let s2 = (if am_CallSid msg \<noteq> []
                       then s1\<lparr>srv_Registry := BindCallSid (am_CallSid msg) (s_id sess) (srv_Registry s1)\<rparr>
                       else s1)
             in go_bind (captureCallback a (app_callback testID now raw msg) s2)
                  (\<lambda>s3. go_bind (go_index (r_heap (srv_Registry s3)) (int a))
                     (\<lambda>sess3. Ret (reply emit msg sess3 (st\<lparr>as_srv := s3, as_sess := Some a\<rparr>))))))"

definition app_frame ::
  "(json \<Rightarrow> string option) \<Rightarrow> nat \<Rightarrow> string \<Rightarrow> int \<times> ws_read \<Rightarrow> 'sch app_state \<Rightarrow> 'sch app_state go" where
  "app_frame emit conn testID tr st =
     (case snd tr of
        ReadText raw \<Rightarrow>
          (case decode_app_msg raw of
             None \<Rightarrow> Ret (st\<lparr>as_srv := log_line ''WARN'' ''webhook: appWS non-JSON frame'' (as_srv st)\<rparr>)
           | Some msg \<Rightarrow> app_message emit conn testID (fst tr) raw msg st)
      | _ \<Rightarrow> Ret st)"

definition handleAppWS ::
  "(json \<Rightarrow> string option) \<Rightarrow> nat option \<Rightarrow> (int \<times> ws_read) list \<Rightarrow> http_request \<Rightarrow> 'sch server
     \<Rightarrow> (http_response option \<times> 'sch app_state) go" where
  "handleAppWS emit upgrade reads r s =
     (let testID = trim_prefix (hr_Path r) ''/appws/'';
          st = \<lparr>as_srv = s, as_sess = None, as_sent = []\<rparr>
      in if testID = [] then Ret (Some (http_error ''test id required in /appws/<id>'' 400), st)
         else case upgrade of
           None \<Rightarrow> Ret (None, st\<lparr>as_srv := log_line ''ERROR'' ''webhook: appWS upgrade failed'' s\<rparr>)
         | Some conn \<Rightarrow> go_bind (go_fold (app_frame emit conn testID) reads st) (\<lambda>st'. Ret (None, st')))"

section \<open>One frame\<close>

abbreviation app_reg :: "'sch app_state \<Rightarrow> registry" where
  "app_reg st \<equiv> srv_Registry (as_srv st)"

definition app_ok :: "'sch app_state \<Rightarrow> bool" where
  "app_ok st \<longleftrightarrow> registry_ok (app_reg st)
     \<and> (case as_sess st of None \<Rightarrow> True | Some a \<Rightarrow> a < length (r_heap (app_reg st)))"

definition wants_ack :: "app_msg \<Rightarrow> bool" where
  "wants_ack msg \<longleftrightarrow> am_Type msg = ''session:new'' \<or> am_Type msg = ''verb:hook''"

definition outcome_for :: "session \<Rightarrow> app_msg \<Rightarrow> hook_outcome" where
  "outcome_for sess msg =
     (if am_Type msg = ''session:new'' then outcomeForCallHook sess
      else outcomeForActionHook (verbFromHookURL (am_Hook msg)) sess)"

definition same_scripts :: "session \<Rightarrow> session \<Rightarrow> bool" where
  "same_scripts s t \<longleftrightarrow> s_callHook s = s_callHook t \<and> s_actionHooks s = s_actionHooks t"

lemma same_scripts_refl [simp]: "same_scripts s s"
  by (simp add: same_scripts_def)

lemma same_scripts_trans: "same_scripts s t \<Longrightarrow> same_scripts t u \<Longrightarrow> same_scripts s u"
  by (simp add: same_scripts_def)

lemma outcome_for_same: "same_scripts s t \<Longrightarrow> outcome_for s = outcome_for t"
  by (rule ext) (simp add: outcome_for_def same_scripts_def outcomeForCallHook_def outcomeForActionHook_def)

lemma new_in_ok:
  assumes "registry_ok (srv_Registry s)" and "new_in i s = (a, s')"
  shows "registry_ok (srv_Registry s') \<and> a < length (r_heap (srv_Registry s'))
    \<and> (\<exists>new. r_heap (srv_Registry s') = r_heap (srv_Registry s) @ new)"
proof -
  obtain r where r: "reg_New i (srv_Registry s) = (a, r)" and s': "srv_Registry s' = r"
    using assms(2) by (auto simp: new_in_def split: prod.splits)
  have "r = snd (reg_New i (srv_Registry s))" "a = fst (reg_New i (srv_Registry s))" using r by simp_all
  moreover have "r_sessions r i = Some a" using reg_New_sessions [of i "srv_Registry s" i] r by simp
  ultimately show ?thesis
    using registry_ok_New [OF assms(1), of i] registry_ok_sessions reg_New_heap [of i "srv_Registry s"] s'
    by fastforce
qed

lemma resolve_ok:
  assumes "registry_ok (srv_Registry s)" and "resolveAppWSSession p msg s = (a, s')"
  shows "registry_ok (srv_Registry s') \<and> a < length (r_heap (srv_Registry s'))
    \<and> (\<exists>new. r_heap (srv_Registry s') = r_heap (srv_Registry s) @ new)"
proof -
  have old: "(\<exists>i. Lookup i (srv_Registry s) = Some a) \<or> (\<exists>c. LookupByCallSid c (srv_Registry s) = Some a)
      \<Longrightarrow> a < length (r_heap (srv_Registry s))"
    using registry_ok_sessions [OF assms(1)]
    by (auto simp: Lookup_def LookupByCallSid_def split: if_splits option.splits)
  have "s' = s \<and> ((\<exists>i. Lookup i (srv_Registry s) = Some a) \<or> (\<exists>c. LookupByCallSid c (srv_Registry s) = Some a))
      \<or> (\<exists>i l m. new_in i (log_line l m s) = (a, s'))"
    using assms(2)
    by (simp add: resolveAppWSSession_def resolve_by_data_def resolve_by_sid_def Let_def
        split: option.splits if_splits) blast+
  then show ?thesis
  proof (elim disjE exE)
    fix i l m
    assume "new_in i (log_line l m s) = (a, s')"
    with new_in_ok [of "log_line l m s" i a s'] assms(1) show ?thesis by simp
  qed (use old assms(1) in auto)
qed

lemma settle_ok:
  assumes "app_ok st"
  shows "\<exists>a s. settle_session conn p msg st = Ret (a, s) \<and> registry_ok (srv_Registry s)
     \<and> a < length (r_heap (srv_Registry s)) \<and> length (r_heap (app_reg st)) \<le> length (r_heap (srv_Registry s))
     \<and> (\<forall>b. as_sess st = Some b \<longrightarrow> a = b)
     \<and> (\<forall>b < length (r_heap (app_reg st)). b \<noteq> a \<longrightarrow> r_heap (srv_Registry s) ! b = r_heap (app_reg st) ! b)
     \<and> (a < length (r_heap (app_reg st)) \<longrightarrow> same_scripts (r_heap (app_reg st) ! a) (r_heap (srv_Registry s) ! a))"
proof (cases "as_sess st")
  case (Some a)
  then show ?thesis using assms by (simp add: settle_session_def app_ok_def)
next
  case None
  obtain a s where res: "resolveAppWSSession p msg (as_srv st) = (a, s)" by fastforce
  from resolve_ok [OF _ res] assms obtain new where
    ok: "registry_ok (srv_Registry s)" "a < length (r_heap (srv_Registry s))"
      and new: "r_heap (srv_Registry s) = r_heap (app_reg st) @ new" by (auto simp: app_ok_def)
  let ?f = "\<lambda>x. Ret (BindAppConn conn x)"
  have f: "\<exists>t. ?f x = Ret t \<and> session_ok t \<and> s_id t = s_id x" if "session_ok x" for x
    using that by (simp add: session_ok_def BindAppConn_def)
  from at_session_ok [OF ok, of ?f, OF f] obtain r where
    r: "at_session a ?f (srv_Registry s) = Ret r" "registry_ok r"
      "length (r_heap r) = length (r_heap (srv_Registry s))"
      "\<forall>b. b \<noteq> a \<longrightarrow> r_heap r ! b = r_heap (srv_Registry s) ! b" by blast
  have "r_heap r ! a = BindAppConn conn (r_heap (srv_Registry s) ! a)"
    using r(1) ok(2) by (auto simp: at_session_def)
  then have "same_scripts (r_heap (srv_Registry s) ! a) (r_heap r ! a)"
    by (simp add: same_scripts_def BindAppConn_def)
  with r ok new None res show ?thesis by (auto simp: settle_session_def nth_append)
qed

lemma reply_reg [simp]: "app_reg (reply emit msg sess st) = app_reg st" "as_sess (reply emit msg sess st) = as_sess st"
  by (auto simp: reply_def ackVerbs_def split: option.split)

lemma reply_sent:
  "\<forall>f. emit f = None \<Longrightarrow> as_sent (reply emit msg sess st)
     = as_sent st @ (if wants_ack msg then [ack_frame (am_Msgid msg) (outcome_for sess msg)] else [])"
  by (simp add: reply_def ackVerbs_def wants_ack_def outcome_for_def)

text \<open>What one message does; \<open>a\<close> is the session it goes to.\<close>

definition step_result :: "(json \<Rightarrow> string option) \<Rightarrow> app_msg list \<Rightarrow> 'sch app_state \<Rightarrow> nat \<Rightarrow> 'sch app_state \<Rightarrow> bool" where
  "step_result emit msgs st a st' \<longleftrightarrow>
     app_ok st' \<and> as_sess st' = Some a \<and> (\<forall>b. as_sess st = Some b \<longrightarrow> a = b)
     \<and> length (r_heap (app_reg st)) \<le> length (r_heap (app_reg st'))
     \<and> (\<forall>b < length (r_heap (app_reg st)). b \<noteq> a \<longrightarrow> r_heap (app_reg st') ! b = r_heap (app_reg st) ! b)
     \<and> (a < length (r_heap (app_reg st)) \<longrightarrow> same_scripts (r_heap (app_reg st) ! a) (r_heap (app_reg st') ! a))
     \<and> ((\<forall>f. emit f = None) \<longrightarrow> as_sent st' = as_sent st @
          map (\<lambda>m. ack_frame (am_Msgid m) (outcome_for (r_heap (app_reg st') ! a) m)) (filter wants_ack msgs))"

lemma app_message_step:
  assumes "app_ok st"
  shows "\<exists>a st'. app_message emit conn p now raw msg st = Ret st' \<and> step_result emit [msg] st a st'"
proof -
  from settle_ok [OF assms, of conn p msg] obtain a s where
    s: "settle_session conn p msg st = Ret (a, s)" "registry_ok (srv_Registry s)"
      "a < length (r_heap (srv_Registry s))" "length (r_heap (app_reg st)) \<le> length (r_heap (srv_Registry s))"
      "\<forall>b. as_sess st = Some b \<longrightarrow> a = b"
      "\<forall>b < length (r_heap (app_reg st)). b \<noteq> a \<longrightarrow> r_heap (srv_Registry s) ! b = r_heap (app_reg st) ! b"
      "a < length (r_heap (app_reg st)) \<longrightarrow> same_scripts (r_heap (app_reg st) ! a) (r_heap (srv_Registry s) ! a)"
    by blast
  let ?sess = "r_heap (srv_Registry s) ! a" and ?cb = "app_callback p now raw msg"
  let ?s2 = "if am_CallSid msg \<noteq> []
       then s\<lparr>srv_Registry := BindCallSid (am_CallSid msg) (s_id ?sess) (srv_Registry s)\<rparr> else s"
  have s2: "registry_ok (srv_Registry ?s2)" "r_heap (srv_Registry ?s2) = r_heap (srv_Registry s)"
    using s(2) registry_ok_Bind by auto
  with s(3) have "a < length (r_heap (srv_Registry ?s2))" by simp
  from at_session_ok [OF s2(1) this, of "record_cb ?cb", OF record_cb_keeps] obtain r where
    r: "at_session a (record_cb ?cb) (srv_Registry ?s2) = Ret r" "registry_ok r"
      "length (r_heap r) = length (r_heap (srv_Registry s))"
      "\<forall>b. b \<noteq> a \<longrightarrow> r_heap r ! b = r_heap (srv_Registry s) ! b" using s2(2) by auto
  obtain t where t: "record_cb ?cb ?sess = Ret t" "r_heap r ! a = t"
    using r(1) s2(2) s(3) by (auto simp: at_session_def)
  have same: "same_scripts ?sess (r_heap r ! a)"
    using record_cb_id [OF registry_ok_heap [OF s(2,3)] t(1)] t(2) by (simp add: same_scripts_def)
  let ?st = "reply emit msg (r_heap r ! a) (st\<lparr>as_srv := ?s2\<lparr>srv_Registry := r\<rparr>, as_sess := Some a\<rparr>)"
  have "app_message emit conn p now raw msg st = Ret ?st"
    using s(1,3) r(1,3) by (simp add: app_message_def captureCallback_def Let_def)
  moreover have "step_result emit [msg] st a ?st"
    using r s same by (auto simp: step_result_def app_ok_def reply_sent intro: same_scripts_trans)
  ultimately show ?thesis by blast
qed

section \<open>The whole connection\<close>

fun msgs_of :: "(int \<times> ws_read) list \<Rightarrow> app_msg list" where
  "msgs_of [] = []"
| "msgs_of ((t, ReadText raw) # rds) =
     (case decode_app_msg raw of Some m \<Rightarrow> m # msgs_of rds | None \<Rightarrow> msgs_of rds)"
| "msgs_of (_ # rds) = msgs_of rds"

interpretation appws: guarded_machine "app_frame emit conn testID" app_ok for emit conn testID
proof unfold_locales
  fix st :: "'a app_state" and tr
  assume ok: "app_ok st"
  have log: "app_ok (st\<lparr>as_srv := log_line l m (as_srv st)\<rparr>)" for l m
    using ok by (auto simp: app_ok_def split: option.splits)
  show "\<exists>t. app_frame emit conn testID tr st = Ret t \<and> app_ok t"
    using ok log app_message_step [OF ok]
    by (auto simp: app_frame_def step_result_def split: ws_read.split option.split) blast
qed

lemma step_result_trans:
  assumes "step_result emit ms st a st1" and "step_result emit ns st1 b st2"
  shows "step_result emit (ms @ ns) st b st2"
proof -
  have ab: "a = b" using assms by (auto simp: step_result_def)
  have "same_scripts (r_heap (app_reg st1) ! a) (r_heap (app_reg st2) ! a)"
    using assms ab by (auto simp: step_result_def app_ok_def)
  then have "outcome_for (r_heap (app_reg st1) ! a) = outcome_for (r_heap (app_reg st2) ! a)"
    by (rule outcome_for_same)
  with assms ab show ?thesis
    by (auto simp: step_result_def intro: same_scripts_trans)
qed

lemma step_result_log:
  assumes "step_result emit ms (st\<lparr>as_srv := log_line l m (as_srv st)\<rparr>) a st'"
  shows "step_result emit ms st a st'"
  using assms by (simp add: step_result_def)

lemma app_run:
  "app_ok st \<Longrightarrow> msgs_of reads \<noteq> [] \<Longrightarrow>
     \<exists>a st'. go_fold (app_frame emit conn p) reads st = Ret st' \<and> step_result emit (msgs_of reads) st a st'"
  "app_ok st \<Longrightarrow> as_sess st = Some b \<Longrightarrow>
     \<exists>st'. go_fold (app_frame emit conn p) reads st = Ret st' \<and> step_result emit (msgs_of reads) st b st'"
proof (induction reads arbitrary: st b)
  case Nil
  {
    case 1 then show ?case by simp
  next
    case 2 then show ?case by (simp add: step_result_def)
  }
next
  case (Cons tr reads)
  obtain t rd where tr: "tr = (t, rd)" by (cases tr)
  have skip: "app_ok (st\<lparr>as_srv := log_line l m (as_srv st)\<rparr>)" if "app_ok st" for l m and st :: "'a app_state"
    using that by (auto simp: app_ok_def split: option.splits)
  have step: "\<exists>a st'. go_fold (app_frame emit conn p) (tr # reads) st = Ret st'
      \<and> step_result emit (m # msgs_of reads) st a st'"
    if ok: "app_ok st" and m: "rd = ReadText raw" "decode_app_msg raw = Some m" for raw m and st :: "'a app_state"
  proof -
    from app_message_step [OF ok, of emit conn p t raw m] obtain a st1 where
      st1: "app_message emit conn p t raw m st = Ret st1" "step_result emit [m] st a st1" by blast
    then have "app_ok st1" "as_sess st1 = Some a" by (simp_all add: step_result_def)
    from Cons.IH(2) [OF this] obtain st2 where
      "go_fold (app_frame emit conn p) reads st1 = Ret st2" "step_result emit (msgs_of reads) st1 a st2" by blast
    with st1 step_result_trans [OF st1(2)] m tr show ?thesis by (auto simp: app_frame_def)
  qed
  {
    case 1
    show ?case
    proof (cases rd)
      case (ReadText raw)
      show ?thesis
      proof (cases "decode_app_msg raw")
        case None
        with ReadText tr 1 Cons.IH(1) [OF skip [OF 1(1)], of "''WARN''" "''webhook: appWS non-JSON frame''"]
        show ?thesis by (auto simp: app_frame_def dest: step_result_log)
      next
        case (Some m)
        with step [OF 1(1) ReadText Some] tr ReadText show ?thesis by simp
      qed
    qed (use 1 tr Cons.IH(1) [OF 1(1)] in \<open>simp_all add: app_frame_def\<close>)
  next
    case 2
    show ?case
    proof (cases rd)
      case (ReadText raw)
      show ?thesis
      proof (cases "decode_app_msg raw")
        case None
        have "as_sess (st\<lparr>as_srv := log_line ''WARN'' ''webhook: appWS non-JSON frame'' (as_srv st)\<rparr>) = Some b"
          using 2(2) by simp
        from Cons.IH(2) [OF skip [OF 2(1)] this] None ReadText tr
        show ?thesis by (auto simp: app_frame_def dest: step_result_log)
      next
        case (Some m)
        with step [OF 2(1) ReadText Some] tr ReadText 2(2) show ?thesis by (auto simp: step_result_def)
      qed
    qed (use 2 tr Cons.IH(2) [OF 2] in \<open>simp_all add: app_frame_def\<close>)
  }
qed

section \<open>Properties\<close>

text \<open>
  C9 (functional): as long as writes succeed, a connection that carries at least one message
  settles on one session; the handler acknowledges exactly the \<open>session:new\<close> and \<open>verb:hook\<close>
  messages, in order, each with its own message id and the script that session holds for it;
  and no other test's session changes.  (The comment at the head of \<open>appws.go\<close> says that every
  other message is acknowledged too when it carries a message id; the handler does not do so.)
\<close>

theorem appws_acks_exactly:
  assumes "registry_ok (srv_Registry s)" and "hr_Path r = ''/appws/'' @ i" and "i \<noteq> []"
    and "\<forall>f. emit f = None" and "msgs_of reads \<noteq> []"
  shows "\<exists>a st. handleAppWS emit (Some conn) reads r s = Ret (None, st) \<and> as_sess st = Some a
     \<and> as_sent st = map (\<lambda>m. ack_frame (am_Msgid m) (outcome_for (r_heap (srv_Registry (as_srv st)) ! a) m))
                      (filter wants_ack (msgs_of reads))
     \<and> (\<forall>b < length (r_heap (srv_Registry s)). b \<noteq> a \<longrightarrow>
          r_heap (srv_Registry (as_srv st)) ! b = r_heap (srv_Registry s) ! b)"
proof -
  let ?st = "\<lparr>as_srv = s, as_sess = None, as_sent = []\<rparr>"
  have "app_ok ?st" using assms(1) by (simp add: app_ok_def)
  from app_run(1) [OF this assms(5), of emit conn i] obtain a st where
    "go_fold (app_frame emit conn i) reads ?st = Ret st" "step_result emit (msgs_of reads) ?st a st" by blast
  then show ?thesis using assms(2-4)
    by (auto simp: handleAppWS_def Let_def trim_prefix_def has_prefix_def step_result_def)
qed

definition hello_raw :: string where
  "hello_raw = ''{'' @ quoted ''type'' @ '':'' @ quoted ''session:new'' @ '','' @ quoted ''msgid'' @ '':''
     @ quoted ''m1'' @ ''}''"

definition hello_msg :: app_msg where
  "hello_msg = no_app_msg\<lparr>am_Type := ''session:new'', am_Msgid := ''m1''\<rparr>"

lemma decode_hello: "decode_app_msg hello_raw = Some hello_msg"
  by code_simp

theorem appws_acks_exactly_witness:
  "\<exists>a st. handleAppWS (\<lambda>f. None) (Some 3) [(0, ReadText hello_raw)] (post_request []\<lparr>hr_Path := ''/appws/t1''\<rparr>) ws_server
       = Ret (None, st) \<and> as_sess st = Some a
     \<and> as_sent st = [ack_frame ''m1'' (outcome_for (r_heap (srv_Registry (as_srv st)) ! a) hello_msg)]"
proof -
  have m: "msgs_of [(0, ReadText hello_raw)] = [hello_msg]" by (simp add: decode_hello)
  have "wants_ack hello_msg" "am_Msgid hello_msg = ''m1''" by (simp_all add: wants_ack_def hello_msg_def)
  then show ?thesis
    using appws_acks_exactly [OF ws_server_ok(1), where i = "''t1''" and emit = "\<lambda>f. None" and conn = 3
        and reads = "[(0, ReadText hello_raw)]" and r = "post_request []\<lparr>hr_Path := ''/appws/t1''\<rparr>"] m
    by auto
qed

text \<open>
  An action hook scripted with a body function is answered over the WebSocket with
  the empty verb array: the function, which the HTTP handler evaluates, is not called.
\<close>

theorem appws_ignores_BodyFunc:
  assumes "app_ok st" and "as_sess st = Some a" and "\<forall>f. emit f = None"
    and "r_heap (srv_Registry (as_srv st)) ! a = ScriptActionHookBodyFunc v fn x"
    and "am_Type msg = ''verb:hook''" and "verbFromHookURL (am_Hook msg) = v"
  shows "\<exists>st'. app_message emit conn p now raw msg st = Ret st' \<and> as_sent st' = as_sent st @
     [JObj [(''data'', JArr []), (''msgid'', JStr (am_Msgid msg)), (''type'', JStr ''ack'')]]"
proof -
  from app_message_step [OF assms(1), of emit conn p now raw msg] obtain b st' where
    st': "app_message emit conn p now raw msg st = Ret st'" "step_result emit [msg] st b st'" by blast
  then have b: "b = a" using assms(2) by (auto simp: step_result_def)
  have "a < length (r_heap (srv_Registry (as_srv st)))" using assms(1,2) by (simp add: app_ok_def)
  then have "same_scripts (ScriptActionHookBodyFunc v fn x) (r_heap (srv_Registry (as_srv st')) ! a)"
    using st'(2) b assms(4) by (auto simp: step_result_def)
  then have "s_actionHooks (r_heap (srv_Registry (as_srv st')) ! a) = s_actionHooks (ScriptActionHookBodyFunc v fn x)"
    by (simp add: same_scripts_def)
  then have "outcome_for (r_heap (srv_Registry (as_srv st')) ! a) msg
      = no_outcome\<lparr>out_Status := 200, out_BodyFunc := Some fn\<rparr>"
    using assms(5,6) by (simp add: outcome_for_def ScriptActionHookBodyFunc_def outcomeForActionHook_def)
  with st' b assms(3,5) show ?thesis
    by (auto simp: step_result_def wants_ack_def ack_frame_def ack_data_def no_outcome_def)
qed

definition echo_state :: "nat app_state" where
  "echo_state = \<lparr>as_srv = (server_New None)\<lparr>srv_Registry := \<lparr>r_sessions = Map.empty,
     r_callSidIndex = Map.empty, r_heap = [ScriptActionHookBodyFunc ''llm'' cb_Body (new_session ''t1'')]\<rparr>\<rparr>,
     as_sess = Some 0, as_sent = []\<rparr>"

theorem appws_ignores_BodyFunc_witness:
  "\<exists>st'. app_message (\<lambda>f. None) 3 ''shared'' 0 [] (no_app_msg\<lparr>am_Type := ''verb:hook'', am_Msgid := ''m2'',
       am_Hook := ''https://x/action/llm?a=1''\<rparr>) echo_state = Ret st' \<and> as_sent st' = as_sent echo_state @
     [JObj [(''data'', JArr []), (''msgid'', JStr (am_Msgid (no_app_msg\<lparr>am_Type := ''verb:hook'', am_Msgid := ''m2'',
       am_Hook := ''https://x/action/llm?a=1''\<rparr>))), (''type'', JStr ''ack'')]]"
  by (rule appws_ignores_BodyFunc [where v = "''llm''" and fn = cb_Body and x = "new_session ''t1''" and a = 0])
    (simp_all add: echo_state_def app_ok_def registry_ok_def session_ok_def ScriptActionHookBodyFunc_def
      new_session_def verbFromHookURL_def has_prefix_def)

end
