(* ===== verification/Webhook_Boxes.thy ===== *)
theory Webhook_Boxes
  imports Webhook_Registry
begin

text \<open>
  What a test may rely on, without heap, pointers and call_sids: each registered test has a box of
  callbacks, in order of arrival, that holds at most 32, and a count of those lost. The registry
  of \<open>Webhook_Registry\<close> refines this specification: operations through a pointer act on the box of
  the test the session belongs to, or on none if the test has been released meanwhile.
\<close>

type_synonym box_map = "string \<rightharpoonup> (callback list \<times> nat)"

datatype box_op =
    BoxOpen string
  | BoxClose string
  | BoxDeliver string callback
  | BoxTake string
  | BoxNothing

definition deliver :: "callback \<Rightarrow> callback list \<times> nat \<Rightarrow> callback list \<times> nat" where
  "deliver cb box = (if length (fst box) < 32 then (fst box @ [cb], snd box) else (fst box, snd box + 1))"

fun box_step :: "box_op \<Rightarrow> box_map \<Rightarrow> box_map" where
  "box_step (BoxOpen tid) m = (case m tid of None \<Rightarrow> m(tid \<mapsto> ([], 0)) | Some box \<Rightarrow> m)"
| "box_step (BoxClose tid) m = m(tid := None)"
| "box_step (BoxDeliver tid cb) m = m(tid := map_option (deliver cb) (m tid))"
| "box_step (BoxTake tid) m = m(tid := map_option (\<lambda>box. (tl (fst box), snd box)) (m tid))"
| "box_step BoxNothing m = m"

definition box_of :: "session \<Rightarrow> callback list \<times> nat" where
  "box_of s = (ch_buf (s_pending s), length (s_errs s))"

definition boxes :: "registry \<Rightarrow> box_map" where
  "boxes r tid = map_option (\<lambda>a. box_of (r_heap r ! a)) (r_sessions r tid)"

text \<open>The test whose registered session is at an address.\<close>

definition owner :: "nat \<Rightarrow> registry \<Rightarrow> string option" where
  "owner a r = (if a < length (r_heap r) \<and> r_sessions r (s_id (r_heap r ! a)) = Some a
                then Some (s_id (r_heap r ! a)) else None)"

fun as_box_op :: "reg_op \<Rightarrow> registry \<Rightarrow> box_op" where
  "as_box_op (OpNew tid) r = BoxOpen tid"
| "as_box_op (OpRelease tid) r = BoxClose tid"
| "as_box_op (OpRecord a cb) r = (case owner a r of None \<Rightarrow> BoxNothing | Some tid \<Rightarrow> BoxDeliver tid cb)"
| "as_box_op (OpWait a done pick) r =
     (case owner a r of
        None \<Rightarrow> BoxNothing
      | Some tid \<Rightarrow> (case WaitCallback done pick (r_heap r ! a) of WaitGot cb s \<Rightarrow> BoxTake tid | _ \<Rightarrow> BoxNothing))"
| "as_box_op _ r = BoxNothing"

lemma boxes_new: "boxes (snd (reg_New tid r)) = box_step (BoxOpen tid) (boxes r)" if "registry_ok r"
proof
  fix i
  have "r_sessions r i = Some a \<Longrightarrow> a < length (r_heap r)" for a
    using registry_ok_sessions [OF that, of i a] by simp
  then show "boxes (snd (reg_New tid r)) i = box_step (BoxOpen tid) (boxes r) i"
    by (cases "r_sessions r i"; cases "r_sessions r tid")
      (auto simp: boxes_def reg_New_def nth_append box_of_def new_session_def make_chan_def)
qed

text \<open>An operation on one session changes at most the box of its owner.\<close>

lemma boxes_at_session:
  assumes "registry_ok r" and "a < length (r_heap r)" and "f (r_heap r ! a) = Ret s" and "s_id s = s_id (r_heap r ! a)"
    and "at_session a f r = Ret t"
  shows "boxes t = (case owner a r of None \<Rightarrow> boxes r | Some tid \<Rightarrow> (boxes r)(tid \<mapsto> box_of s))"
proof
  fix i
  have t: "t = r\<lparr>r_heap := (r_heap r)[a := s]\<rparr>" using assms(2,3,5) by (auto simp: at_session_def)
  have "r_sessions r i = Some b \<Longrightarrow> b < length (r_heap r) \<and> s_id (r_heap r ! b) = i" for b
    by (rule registry_ok_sessions [OF assms(1)])
  then show "boxes t i = (case owner a r of None \<Rightarrow> boxes r | Some tid \<Rightarrow> (boxes r)(tid \<mapsto> box_of s)) i"
    using assms(2) by (cases "r_sessions r i") (auto simp: t boxes_def owner_def nth_list_update)
qed

lemma box_of_record:
  "session_ok s \<Longrightarrow> record_cb cb s = Ret t \<Longrightarrow> box_of t = deliver cb (box_of s)"
  by (cases "length (ch_buf (s_pending s)) < 32") (auto simp: record_cb_fits record_cb_full box_of_def deliver_def)

lemma owner_box: "owner a r = Some tid \<Longrightarrow> boxes r tid = Some (box_of (r_heap r ! a))"
  by (auto simp: owner_def boxes_def split: if_splits)

lemma take_callback_box:
  "session_ok s \<Longrightarrow> take_callback done pick s = Ret t \<Longrightarrow>
     box_of t = (case WaitCallback done pick s of WaitGot cb u \<Rightarrow> (tl (fst (box_of s)), snd (box_of s)) | _ \<Rightarrow> box_of s)"
  by (auto simp: take_callback_def WaitCallback_def try_recv_def box_of_def session_ok_def
      split: option.splits list.splits)

interpretation box: refined_machine reg_step registry_ok boxes as_box_op box_step
proof unfold_locales
  fix r t :: registry and op
  assume ok: "registry_ok r" and st: "reg_step op r = Ret t"
  have heap: "a < length (r_heap r) \<Longrightarrow> session_ok (r_heap r ! a)" for a by (rule registry_ok_heap [OF ok])
  have out: "owner a r = None" if "\<not> a < length (r_heap r)" for a using that by (simp add: owner_def)
  have same: "boxes t = boxes r"
    if "(if a < length (r_heap r) then at_session a f r else Ret r) = Ret t"
      and "\<And>s. \<exists>u. f s = Ret u \<and> s_id u = s_id s \<and> box_of u = box_of s" for a f
  proof (cases "a < length (r_heap r)")
    case True
    from that(2) obtain u where "f (r_heap r ! a) = Ret u" "s_id u = s_id (r_heap r ! a)" "box_of u = box_of (r_heap r ! a)"
      by blast
    with boxes_at_session [where f = f and s = u and t = t, OF ok True] True that(1) owner_box show ?thesis
      by (auto split: option.splits)
  qed (use that(1) in simp)
  show "boxes t = box_step (as_box_op op r) (boxes r)"
  proof (cases op)
    case (OpNew tid)
    with st boxes_new [OF ok] show ?thesis by auto
  next
    case (OpRelease tid)
    with st show ?thesis by (auto simp: Release_def boxes_def)
  next
    case (OpBind cs tid)
    with st show ?thesis by (auto simp: boxes_def)
  next
    case (OpRecord a cb)
    show ?thesis
    proof (cases "a < length (r_heap r)")
      case True
      from record_cb_keeps [OF heap [OF True], of cb] obtain u
        where u: "record_cb cb (r_heap r ! a) = Ret u" "s_id u = s_id (r_heap r ! a)" by blast
      with boxes_at_session [where f = "record_cb cb" and s = u and t = t, OF ok True u] st OpRecord True box_of_record [OF heap [OF True] u(1)]
      show ?thesis by (auto simp: owner_box split: option.split)
    qed (use st OpRecord out in simp)
  next
    case (OpWait a d p)
    show ?thesis
    proof (cases "a < length (r_heap r)")
      case True
      from take_callback_keeps [OF heap [OF True], of d p] obtain u
        where u: "take_callback d p (r_heap r ! a) = Ret u" "s_id u = s_id (r_heap r ! a)" by blast
      with boxes_at_session [where f = "take_callback d p" and s = u and t = t, OF ok True u] st OpWait True take_callback_box [OF heap [OF True] u(1)]
      show ?thesis by (auto simp: owner_box split: option.split wait_result.split)
    qed (use st OpWait out in simp)
  next
    case (OpScriptCall a v)
    with st show ?thesis using same [of a "\<lambda>s. Ret (ScriptCallHook v s)"] by (simp add: ScriptCallHook_def box_of_def)
  next
    case (OpScriptAction a v out)
    with st show ?thesis
      using same [of a "\<lambda>s. Ret (s\<lparr>s_actionHooks := (s_actionHooks s)(v \<mapsto> out)\<rparr>)"] by (simp add: box_of_def)
  next
    case (OpBindApp a c)
    with st show ?thesis using same [of a "\<lambda>s. Ret (BindAppConn c s)"] by (simp add: BindAppConn_def box_of_def)
  qed
qed

text \<open>
  The registry with its heap of shared sessions implements one box per registered
  test: after any sequence of operations from the empty registry, the callbacks queued for each
  test and the number it lost are those of the specification, run on the same operations, where
  an operation through a pointer to a released session does nothing.
\<close>

theorem registry_refines_boxes:
  "\<exists>r. go_fold reg_step ops NewRegistry = Ret r
     \<and> boxes r = fold box_step (spec_trace reg_step as_box_op ops NewRegistry) Map.empty"
proof -
  have "boxes NewRegistry = Map.empty" by (simp add: boxes_def NewRegistry_def fun_eq_iff)
  with box.run_refines [OF registry_ok_empty, of ops] show ?thesis by simp
qed

end
