(* ===== verification/Webhook_Delivery.thy ===== *)
theory Webhook_Delivery
  imports Webhook_Server Webhook_Boxes
begin

text \<open>
  What the HTTP side of the webhook server promises, handlers, routing, registry and tests
  together: a desk with one box of callbacks per test and a table from calls to tests. A hook
  goes into the box of the test it names, else of the test its call belongs to, else into that
  of \<open>_anon\<close>. The server of \<open>Webhook_Server\<close> refines this desk, and a hook that reaches a box is what
  the test waiting for it gets.
\<close>

section \<open>The desk\<close>

record desk =
  dk_boxes :: box_map
  dk_calls :: "string \<rightharpoonup> string"

definition hook_target :: "string \<Rightarrow> string \<Rightarrow> desk \<Rightarrow> string" where
  "hook_target tid cs d =
     (if tid \<noteq> [] then tid
      else case (if cs = [] then None else dk_calls d cs) of
        Some t \<Rightarrow> if dk_boxes d t \<noteq> None then t else ''_anon''
      | None \<Rightarrow> ''_anon'')"

datatype desk_op =
    DeskHook string string callback
  | DeskBind string string
  | DeskBox box_op

definition desk_bind :: "string \<Rightarrow> string \<Rightarrow> (string \<rightharpoonup> string) \<Rightarrow> (string \<rightharpoonup> string)" where
  "desk_bind cs tid m = (if cs = [] \<or> tid = [] \<or> tid = ''_anon'' then m else m(cs \<mapsto> tid))"

fun desk_step :: "desk_op \<Rightarrow> desk \<Rightarrow> desk" where
  "desk_step (DeskHook tid cs cb) d =
     (let t = hook_target tid cs d
      in \<lparr>dk_boxes = box_step (BoxDeliver t cb) (box_step (BoxOpen t) (dk_boxes d)),
          dk_calls = desk_bind cs tid (dk_calls d)\<rparr>)"
| "desk_step (DeskBind cs tid) d = d\<lparr>dk_calls := desk_bind cs tid (dk_calls d)\<rparr>"
| "desk_step (DeskBox op) d = d\<lparr>dk_boxes := box_step op (dk_boxes d)\<rparr>"

definition empty_desk :: desk where
  "empty_desk = \<lparr>dk_boxes = Map.empty, dk_calls = Map.empty\<rparr>"

definition reg_desk :: "registry \<Rightarrow> desk" where
  "reg_desk r = \<lparr>dk_boxes = boxes r, dk_calls = r_callSidIndex r\<rparr>"

text \<open>The hook that a request reports, by its path.\<close>

definition hook_of :: "http_request \<Rightarrow> string option" where
  "hook_of r =
     (if hr_Path r = ''/hook'' then Some ''call_hook''
      else if hr_Path r = ''/status'' then Some ''call_status_hook''
      else if has_prefix (hr_Path r) ''/action/'' \<and> hr_Path r \<noteq> ''/action/'' then Some (tl (hr_Path r))
      else None)"

fun as_desk_op :: "srv_event \<Rightarrow> 'sch server \<Rightarrow> desk_op" where
  "as_desk_op (Request now r) s =
     (case hook_of r of
        None \<Rightarrow> DeskBox BoxNothing
      | Some h \<Rightarrow> DeskHook (extractTestID r (readAll r)) (extractCallSid (readAll r)) (inbound_callback h now r))"
| "as_desk_op (TestOp (OpBind cs tid)) s = DeskBind cs tid"
| "as_desk_op (TestOp op) s = DeskBox (as_box_op op (srv_Registry s))"

section \<open>Routing\<close>

lemma reg_New_owner: "registry_ok r \<Longrightarrow> owner (fst (reg_New t r)) (snd (reg_New t r)) = Some t"
  using registry_ok_sessions [of r t] by (auto simp: reg_New_def owner_def split: option.splits)

lemma boxes_Bind [simp]: "boxes (BindCallSid cs tid r) = boxes r"
  by (simp add: boxes_def BindCallSid_def fun_eq_iff)

lemma owner_Bind [simp]: "owner a (BindCallSid cs tid r) = owner a r"
  by (simp add: owner_def BindCallSid_def)

lemma index_Bind: "r_callSidIndex (BindCallSid cs tid r) = desk_bind cs tid (r_callSidIndex r)"
  by (simp add: BindCallSid_def desk_bind_def)

lemma index_New [simp]: "r_callSidIndex (snd (reg_New t r)) = r_callSidIndex r"
  by (simp add: reg_New_def split: option.splits)

lemma boxes_None: "boxes r t = None \<longleftrightarrow> r_sessions r t = None"
  by (simp add: boxes_def)

lemma routed_desk:
  fixes tid cs :: string
  assumes "registry_ok r"
  defines "t \<equiv> hook_target tid cs (reg_desk r)" and "a \<equiv> fst (routed_reg tid cs r)" and "r1 \<equiv> snd (routed_reg tid cs r)"
  shows "owner a r1 = Some t \<and> boxes r1 = box_step (BoxOpen t) (boxes r)
     \<and> r_callSidIndex r1 = desk_bind cs tid (r_callSidIndex r)"
proof (cases "tid = []")
  case False
  obtain b r' where n: "reg_New tid r = (b, r')" by fastforce
  have "boxes r' = box_step (BoxOpen tid) (boxes r)" using boxes_new [OF assms(1), of tid] n by simp
  moreover have "owner b r' = Some tid" "r_callSidIndex r' = r_callSidIndex r"
    using reg_New_owner [OF assms(1), of tid] index_New [of tid r] n by simp_all
  ultimately show ?thesis using False n
    by (simp add: t_def a_def r1_def hook_target_def routed_reg_def index_Bind del: box_step.simps)
next
  case True
  then have i: "desk_bind cs tid m = m" for m by (simp add: desk_bind_def)
  show ?thesis
  proof (cases "LookupByCallSid cs r")
    case None
    then have "t = ''_anon''" using True
      by (auto simp: t_def hook_target_def reg_desk_def LookupByCallSid_def boxes_None split: option.splits if_splits)
    moreover have "routed_reg tid cs r = reg_New ''_anon'' r" using True None by (simp add: routed_reg_def)
    ultimately show ?thesis
      using boxes_new [OF assms(1), of "''_anon''"] reg_New_owner [OF assms(1), of "''_anon''"] i
      by (simp add: a_def r1_def)
  next
    case (Some b)
    then have "cs \<noteq> []" "r_callSidIndex r cs = Some t" "r_sessions r t = Some b"
      using True by (auto simp: t_def hook_target_def reg_desk_def LookupByCallSid_def boxes_None split: if_splits option.splits)
    moreover have "routed_reg tid cs r = (b, r)" using True Some by (simp add: routed_reg_def)
    ultimately show ?thesis using registry_ok_sessions [OF assms(1), of t b] i
      by (auto simp: a_def r1_def owner_def boxes_def)
  qed
qed

lemma intake_desk:
  assumes "registry_ok (srv_Registry s)" "intake env n h now r s = Ret (a, cb, s')"
  shows "reg_desk (srv_Registry s') = desk_step (DeskHook (extractTestID r (readAll r)) (extractCallSid (readAll r))
      (inbound_callback h now r)) (reg_desk (srv_Registry s))"
proof -
  let ?t = "extractTestID r (readAll r)" and ?c = "extractCallSid (readAll r)" and ?cb = "inbound_callback h now r"
  let ?a = "fst (routed_reg ?t ?c (srv_Registry s))" and ?r1 = "snd (routed_reg ?t ?c (srv_Registry s))"
  let ?to = "hook_target ?t ?c (reg_desk (srv_Registry s))"
  from intake_ok [OF assms(1), of env n h now r] assms(2)
  have s': "at_session ?a (record_cb ?cb) ?r1 = Ret (srv_Registry s')"
    "r_callSidIndex (srv_Registry s') = r_callSidIndex ?r1" by auto
  have ok: "registry_ok ?r1" "?a < length (r_heap ?r1)" using routed_reg_ok [OF assms(1)] by simp_all
  note so = registry_ok_heap [OF ok]
  from record_cb_keeps [OF so, of ?cb] obtain u where
    u: "record_cb ?cb (r_heap ?r1 ! ?a) = Ret u" "s_id u = s_id (r_heap ?r1 ! ?a)" by blast
  note d = routed_desk [OF assms(1), of ?t ?c]
  have "boxes (srv_Registry s') = (boxes ?r1)(?to \<mapsto> deliver ?cb (box_of (r_heap ?r1 ! ?a)))"
    using boxes_at_session [where f = "record_cb ?cb" and s = u, OF ok u s'(1)] d box_of_record [OF so u(1)] by simp
  moreover have "boxes ?r1 ?to = Some (box_of (r_heap ?r1 ! ?a))" using d owner_box by blast
  ultimately have "boxes (srv_Registry s') = box_step (BoxDeliver ?to ?cb) (boxes ?r1)" by simp
  then show ?thesis using d s'(2) by (simp add: reg_desk_def Let_def del: box_step.simps)
qed

text \<open>Which intake a request goes through, and what it is told.\<close>

lemma serve_hook:
  assumes "serve env files now r s = Ret (resp, s')"
  shows "case hook_of r of None \<Rightarrow> s' = s | Some h \<Rightarrow> \<exists>n a cb. intake env n h now r s = Ret (a, cb, s')"
proof -
  consider (call) "hr_Path r = ''/hook''" | (status) "hr_Path r = ''/status''"
    | (action) verb where "hr_Path r = ''/action/'' @ verb"
    | (other) "hr_Path r \<noteq> ''/hook''" "hr_Path r \<noteq> ''/status''" "\<not> has_prefix (hr_Path r) ''/action/''"
    by (auto simp: has_prefix_iff)
  then show ?thesis
  proof cases
    case call
    then show ?thesis using assms handleCallHook_intake [of env now r s resp s'] by (auto simp: serve_def hook_of_def)
  next
    case status
    then show ?thesis using assms handleStatusHook_intake [of env now r s resp s'] by (auto simp: serve_def hook_of_def)
  next
    case (action verb)
    have p: "has_prefix (hr_Path r) ''/action/''" unfolding action by (rule has_prefix_append)
    then have "handleActionHook env now r s = Ret (resp, s')" using assms action by (simp add: serve_def)
    moreover have "hook_of r = (if verb = [] then None else Some (''action/'' @ verb))"
      using p action by (simp add: hook_of_def)
    ultimately show ?thesis using action by (auto simp: handleActionHook_def Let_def) blast
  next
    case other
    then show ?thesis using assms by (auto simp: serve_def hook_of_def split: if_splits)
  qed
qed

lemma reg_step_index:
  "registry_ok r \<Longrightarrow> reg_step op r = Ret t \<Longrightarrow>
     r_callSidIndex t = (case op of OpBind cs tid \<Rightarrow> desk_bind cs tid (r_callSidIndex r) | _ \<Rightarrow> r_callSidIndex r)"
  by (cases op) (auto simp: at_session_def Release_def index_Bind split: if_splits)

interpretation desk: refined_machine "srv_step env files" server_ok "\<lambda>s. reg_desk (srv_Registry s)" as_desk_op desk_step
  for env :: "'sch schema_env" and files
proof unfold_locales
  fix s t :: "'sch server" and e
  assume ok: "server_ok s" and st: "srv_step env files e s = Ret t"
  from ok have rok: "registry_ok (srv_Registry s)" by (simp add: server_ok_def)
  show "reg_desk (srv_Registry t) = desk_step (as_desk_op e s) (reg_desk (srv_Registry s))"
  proof (cases e)
    case (Request now r)
    with st obtain resp where "serve env files now r s = Ret (resp, t)" by auto
    from serve_hook [OF this] show ?thesis
    proof (cases "hook_of r")
      case None
      with \<open>case hook_of r of None \<Rightarrow> _ | Some h \<Rightarrow> _\<close> Request show ?thesis by simp
    next
      case (Some h)
      with \<open>case hook_of r of None \<Rightarrow> _ | Some h \<Rightarrow> _\<close> obtain n a cb where "intake env n h now r s = Ret (a, cb, t)" by auto
      from intake_desk [OF rok this] show ?thesis using Request Some by (simp del: desk_step.simps)
    qed
  next
    case (TestOp op)
    with st obtain r' where r': "reg_step op (srv_Registry s) = Ret r'" "srv_Registry t = r'" by auto
    with box.simulates [OF rok r'(1)] reg_step_index [OF rok r'(1)] TestOp show ?thesis
      by (cases op) (simp_all add: reg_desk_def)
  qed
qed

section \<open>Properties\<close>

text \<open>
  The server with its handlers, its registry and the heap of shared sessions
  implements the desk. After any interleaving of requests and of what tests do, from the start on,
  nothing has panicked, and the box of every test and the calls bound to it are those of the desk
  run on the hooks that arrived and the boxes opened, emptied and closed.
\<close>

theorem server_refines_desk:
  "\<exists>t. go_fold (srv_step env files) es (server_New v) = Ret t
     \<and> reg_desk (srv_Registry t) = fold desk_step (spec_trace (srv_step env files) as_desk_op es (server_New v)) empty_desk"
proof -
  have "server_ok (server_New v)" by (simp add: server_ok_def server_New_def)
  moreover have "reg_desk (srv_Registry (server_New v)) = empty_desk"
    by (simp add: reg_desk_def server_New_def NewRegistry_def empty_desk_def boxes_def fun_eq_iff)
  ultimately show ?thesis using desk.run_refines [of "server_New v" env files es] by simp
qed

text \<open>
  C4 (functional): A hook for a registered test is what the test gets. The request names the test,
  or only a call bound to it; the box has room and holds no callback of the same hook. Then the
  handler finishes, and \<open>WaitCallbackFor\<close>, with time left for one round more than there are
  callbacks before it, returns the callback made of the request, without an error.
\<close>

theorem hook_reaches_test:
  assumes "server_ok s" "Lookup tid (srv_Registry s) = Some a"
    and "hook_target (extractTestID r (readAll r)) (extractCallSid (readAll r)) (reg_desk (srv_Registry s)) = tid"
    and "hook_of r = Some h" "boxes (srv_Registry s) tid = Some (waiting, lost)"
    and "length waiting < 32" "\<forall>c\<in>set waiting. cb_Hook c \<noteq> h"
    and "list_all quiet ws" "length waiting < length ws"
  shows "\<exists>resp s' t. serve env files now r s = Ret (resp, s')
     \<and> WaitCallbackFor h ws (r_heap (srv_Registry s') ! a) = Ret (Returned (inbound_callback h now r) None t)"
proof -
  let ?cb = "inbound_callback h now r"
  have rok: "registry_ok (srv_Registry s)" using assms(1) by (simp add: server_ok_def)
  from serve_returns [OF rok, of env files now r] obtain resp s' where
    s': "serve env files now r s = Ret (resp, s')" and ok': "registry_ok (srv_Registry s')" by blast
  from serve_hook [OF s'] assms(4) obtain n b cb where i: "intake env n h now r s = Ret (b, cb, s')" by auto
  from intake_desk [OF rok i] assms(3,5,6) have bx: "boxes (srv_Registry s') tid = Some (waiting @ [?cb], lost)"
    by (simp add: reg_desk_def deliver_def)
  from intake_ok [OF rok, of env n h now r] i assms(2) routed_reg_ok(3) [OF rok, of tid a]
  have a: "r_sessions (srv_Registry s') tid = Some a" by (auto simp: Lookup_def)
  then have "ch_buf (s_pending (r_heap (srv_Registry s') ! a)) = waiting @ ?cb # []"
    using bx by (simp add: boxes_def box_of_def)
  moreover have "session_ok (r_heap (srv_Registry s') ! a)"
    using registry_ok_heap [OF ok'] registry_ok_sessions [OF ok' a] by blast
  moreover have "cb_Hook ?cb = h" by (simp add: inbound_callback_def)
  ultimately obtain t late where
    "WaitCallbackFor h ws (r_heap (srv_Registry s') ! a) = Ret (Returned ?cb None t)"
    using WaitCallbackFor_quiet [of "r_heap (srv_Registry s') ! a" waiting ?cb "[]" h ws] assms(7-9) by blast
  with s' show ?thesis by blast
qed

text \<open>The status of a call that was bound to its test before, which the request itself does not name.\<close>

definition status_request :: http_request where
  "status_request = \<lparr>hr_Method = ''POST'', hr_Path = ''/status'', hr_Header = [], hr_Query = [],
     hr_Body = Some ''{\"call_sid\":\"c1\"}''\<rparr>"

theorem hook_reaches_test_witness:
  "\<exists>resp s' t. serve sample_env (\<lambda>d p. http_error [] 404) 7 status_request bound_server = Ret (resp, s')
     \<and> WaitCallbackFor ''call_status_hook'' [quiet_round] (r_heap (srv_Registry s') ! 0)
        = Ret (Returned (inbound_callback ''call_status_hook'' 7 status_request) None t)"
proof -
  have ids: "extractTestID status_request (readAll status_request) = []"
    "extractCallSid (readAll status_request) = ''c1''" "hook_of status_request = Some ''call_status_hook''" by code_simp+
  have n: "reg_New ''t1'' NewRegistry = (0, \<lparr>r_sessions = [''t1'' \<mapsto> 0], r_callSidIndex = Map.empty, r_heap = [new_session ''t1'']\<rparr>)"
    by (simp add: reg_New_def NewRegistry_def)
  have s: "r_sessions (srv_Registry bound_server) = [''t1'' \<mapsto> 0]" "r_callSidIndex (srv_Registry bound_server) ''c1'' = Some ''t1''"
    "r_heap (srv_Registry bound_server) = [new_session ''t1'']" by (simp_all add: bound_server_def n BindCallSid_def)
  have b: "boxes (srv_Registry bound_server) ''t1'' = Some ([], 0)" using s
    by (simp add: boxes_def box_of_def new_session_def)
  have "server_ok bound_server" by (simp add: bound_server_def server_ok_def registry_ok_New registry_ok_Bind)
  moreover have "Lookup ''t1'' (srv_Registry bound_server) = Some 0" using s by (simp add: Lookup_def)
  moreover have "hook_target [] ''c1'' (reg_desk (srv_Registry bound_server)) = ''t1''"
    using s(2) b by (simp add: hook_target_def reg_desk_def)
  moreover have "list_all quiet [quiet_round]" by (simp add: quiet_def quiet_round_def)
  ultimately show ?thesis using b ids
    by (intro hook_reaches_test [where s = bound_server and tid = "''t1''" and waiting = "[]" and lost = 0]) simp_all
qed

end
