(* ===== verification/Webhook_Hub.thy ===== *)
theory Webhook_Hub
  imports Webhook_AppWS Webhook_Delivery
begin

text \<open>
  Both ways in which jambonz delivers events, together: HTTP hooks and any number of application
  WebSockets, whose frames interleave with the hooks, with each other and with what the tests do.
  Each connection keeps the session it has settled on; the desk of \<open>Webhook_Delivery\<close> is still all
  that a test can observe of the registry.
\<close>

section \<open>Connections\<close>

record app_conn =
  ac_path :: string
  ac_sess :: "nat option"
  ac_sent :: "json list"

record 'sch hub =
  hb_server :: "'sch server"
  hb_conns :: "nat \<rightharpoonup> app_conn"

text \<open>
  An HTTP request or a test's operation, a WebSocket request that is upgraded, a frame read from
  a connection, and its end. The errors of writing to a connection are a parameter.
\<close>

datatype hub_event =
    Http srv_event
  | Upgrade nat string
  | Frame nat int ws_read
  | Hangs_up nat

fun hub_step ::
  "'sch schema_env \<Rightarrow> (string \<Rightarrow> string \<Rightarrow> http_response) \<Rightarrow> (nat \<Rightarrow> json \<Rightarrow> string option)
     \<Rightarrow> hub_event \<Rightarrow> 'sch hub \<Rightarrow> 'sch hub go" where
  "hub_step env files emit (Http e) h =
     go_bind (srv_step env files e (hb_server h)) (\<lambda>s. Ret (h\<lparr>hb_server := s\<rparr>))"
| "hub_step env files emit (Upgrade c path) h =
     (if path = [] \<or> hb_conns h c \<noteq> None then Ret h
      else Ret (h\<lparr>hb_conns := (hb_conns h)(c \<mapsto> \<lparr>ac_path = path, ac_sess = None, ac_sent = []\<rparr>)\<rparr>))"
| "hub_step env files emit (Frame c now rd) h =
     (case hb_conns h c of
        None \<Rightarrow> Ret h
      | Some ac \<Rightarrow>
          go_bind (app_frame (emit c) c (ac_path ac) (now, rd)
              \<lparr>as_srv = hb_server h, as_sess = ac_sess ac, as_sent = ac_sent ac\<rparr>)
            (\<lambda>st. Ret (h\<lparr>hb_server := as_srv st,
               hb_conns := (hb_conns h)(c \<mapsto> ac\<lparr>ac_sess := as_sess st, ac_sent := as_sent st\<rparr>)\<rparr>)))"
| "hub_step env files emit (Hangs_up c) h = Ret (h\<lparr>hb_conns := (hb_conns h)(c := None)\<rparr>)"

section \<open>The desk with connections\<close>

text \<open>
  Where the first message of a connection goes: the box of its path, if there is one and it is
  not the shared path; else the test its data names; else the test of its call; else the path.
\<close>

definition app_target :: "string \<Rightarrow> app_msg \<Rightarrow> desk \<Rightarrow> string" where
  "app_target path msg d =
     (if path \<noteq> [] \<and> path \<noteq> wsSharedPathID \<and> dk_boxes d path \<noteq> None then path
      else if testIDFromAppData (am_Data msg) \<noteq> [] then testIDFromAppData (am_Data msg)
      else case (if am_CallSid msg = [] then None else dk_calls d (am_CallSid msg)) of
        Some t \<Rightarrow> if dk_boxes d t \<noteq> None then t else path
      | None \<Rightarrow> path)"

text \<open>
  A message of a connection that has settled is for the test of its session, whose box may have
  been closed meanwhile.
\<close>

datatype hub_op =
    DeskOp desk_op
  | AppFirst string app_msg callback
  | AppNext string string "string option" callback

fun hub_spec :: "hub_op \<Rightarrow> desk \<Rightarrow> desk" where
  "hub_spec (DeskOp op) d = desk_step op d"
| "hub_spec (AppFirst path msg cb) d =
     (let t = app_target path msg d
      in \<lparr>dk_boxes = box_step (BoxDeliver t cb) (box_step (BoxOpen t) (dk_boxes d)),
          dk_calls = desk_bind (am_CallSid msg) t (dk_calls d)\<rparr>)"
| "hub_spec (AppNext cs sid box cb) d =
     \<lparr>dk_boxes = (case box of None \<Rightarrow> dk_boxes d | Some t \<Rightarrow> box_step (BoxDeliver t cb) (dk_boxes d)),
      dk_calls = desk_bind cs sid (dk_calls d)\<rparr>"

definition frame_op :: "app_conn \<Rightarrow> int \<Rightarrow> string \<Rightarrow> app_msg \<Rightarrow> registry \<Rightarrow> hub_op" where
  "frame_op ac now raw msg r =
     (let cb = app_callback (ac_path ac) now raw msg
      in case ac_sess ac of
           None \<Rightarrow> AppFirst (ac_path ac) msg cb
         | Some a \<Rightarrow> AppNext (am_CallSid msg) (s_id (r_heap r ! a)) (owner a r) cb)"

fun as_hub_op :: "hub_event \<Rightarrow> 'sch hub \<Rightarrow> hub_op" where
  "as_hub_op (Http e) h = DeskOp (as_desk_op e (hb_server h))"
| "as_hub_op (Frame c now rd) h =
     (case (hb_conns h c, rd) of
        (Some ac, ReadText raw) \<Rightarrow>
          (case decode_app_msg raw of
             Some msg \<Rightarrow> frame_op ac now raw msg (srv_Registry (hb_server h))
           | None \<Rightarrow> DeskOp (DeskBox BoxNothing))
      | _ \<Rightarrow> DeskOp (DeskBox BoxNothing))"
| "as_hub_op _ h = DeskOp (DeskBox BoxNothing)"

definition hub_ok :: "'sch hub \<Rightarrow> bool" where
  "hub_ok h \<longleftrightarrow> server_ok (hb_server h)
     \<and> (\<forall>c ac a. hb_conns h c = Some ac \<longrightarrow> ac_sess ac = Some a \<longrightarrow> a < length (r_heap (srv_Registry (hb_server h))))"

section \<open>One message\<close>

lemma new_in_desk:
  assumes "registry_ok (srv_Registry s)" "new_in t s = (a, s')"
  shows "owner a (srv_Registry s') = Some t \<and> boxes (srv_Registry s') = box_step (BoxOpen t) (boxes (srv_Registry s))
     \<and> r_callSidIndex (srv_Registry s') = r_callSidIndex (srv_Registry s)"
proof -
  obtain r where r: "reg_New t (srv_Registry s) = (a, r)" "s' = s\<lparr>srv_Registry := r\<rparr>"
    using assms(2) by (auto simp: new_in_def split: prod.splits)
  then show ?thesis using reg_New_owner [OF assms(1), of t] boxes_new [OF assms(1), of t] index_New [of t "srv_Registry s"]
    by simp
qed

lemma registered_desk:
  assumes "registry_ok r" "r_sessions r t = Some a"
  shows "owner a r = Some t \<and> boxes r = box_step (BoxOpen t) (boxes r)"
  using registry_ok_sessions [OF assms] assms(2) by (auto simp: owner_def boxes_def)

lemma resolve_desk:
  assumes "registry_ok (srv_Registry s)" "resolveAppWSSession p msg s = (a, s')"
  defines "t \<equiv> app_target p msg (reg_desk (srv_Registry s))"
  shows "owner a (srv_Registry s') = Some t \<and> boxes (srv_Registry s') = box_step (BoxOpen t) (boxes (srv_Registry s))
     \<and> r_callSidIndex (srv_Registry s') = r_callSidIndex (srv_Registry s)"
proof -
  let ?r = "srv_Registry s"
  have "(s' = s \<and> r_sessions ?r t = Some a) \<or> (\<exists>l m. new_in t (log_line l m s) = (a, s'))"
    using assms(2)
    by (auto simp: t_def app_target_def reg_desk_def boxes_None resolveAppWSSession_def resolve_by_data_def resolve_by_sid_def
        Lookup_def LookupByCallSid_def Let_def split: option.splits if_splits) blast+
  then show ?thesis
  proof (elim disjE exE)
    assume "s' = s \<and> r_sessions ?r t = Some a"
    then show ?thesis using registered_desk [OF assms(1), of t a] by simp
  next
    fix l m
    assume "new_in t (log_line l m s) = (a, s')"
    from new_in_desk [OF _ this] assms(1) show ?thesis by simp
  qed
qed

text \<open>The reg_step operations that a message performs on a session keep the invariant and act on the desk.\<close>

lemma op_desk:
  assumes "registry_ok r" "reg_step op r = Ret r'"
  shows "registry_ok r' \<and> boxes r' = box_step (as_box_op op r) (boxes r)
     \<and> r_callSidIndex r' = (case op of OpBind cs tid \<Rightarrow> desk_bind cs tid (r_callSidIndex r) | _ \<Rightarrow> r_callSidIndex r)"
  using reg.step_ok [OF assms(1), of op] box.simulates [OF assms] reg_step_index [OF assms] assms(2) by auto

lemma bind_app_desk:
  assumes "registry_ok r" "a < length (r_heap r)" "at_session a (\<lambda>x. Ret (BindAppConn c x)) r = Ret r'"
  shows "registry_ok r' \<and> boxes r' = boxes r \<and> r_callSidIndex r' = r_callSidIndex r \<and> owner a r' = owner a r
     \<and> s_id (r_heap r' ! a) = s_id (r_heap r ! a) \<and> length (r_heap r') = length (r_heap r)"
proof -
  have "reg_step (OpBindApp a c) r = Ret r'" using assms(2,3) by simp
  from op_desk [OF assms(1) this] have d: "registry_ok r'" "boxes r' = boxes r" "r_callSidIndex r' = r_callSidIndex r" by simp_all
  have r': "r' = r\<lparr>r_heap := (r_heap r)[a := BindAppConn c (r_heap r ! a)]\<rparr>"
    using assms(2,3) by (auto simp: at_session_def)
  have "s_id (r_heap r' ! a) = s_id (r_heap r ! a)" "length (r_heap r') = length (r_heap r)" "r_sessions r' = r_sessions r"
    using assms(2) by (simp_all add: r' BindAppConn_def)
  with d show ?thesis by (simp add: owner_def)
qed

lemma owner_id: "owner a r = Some t \<Longrightarrow> a < length (r_heap r) \<and> s_id (r_heap r ! a) = t"
  by (auto simp: owner_def split: if_splits)

lemma app_message_desk:
  assumes "registry_ok (srv_Registry s)" "\<forall>a. sess = Some a \<longrightarrow> a < length (r_heap (srv_Registry s))"
    and "app_message emit c p now raw msg \<lparr>as_srv = s, as_sess = sess, as_sent = sent\<rparr> = Ret st'"
  shows "reg_desk (app_reg st') = hub_spec (frame_op \<lparr>ac_path = p, ac_sess = sess, ac_sent = sent\<rparr> now raw msg (srv_Registry s))
       (reg_desk (srv_Registry s))"
proof -
  let ?st = "\<lparr>as_srv = s, as_sess = sess, as_sent = sent\<rparr>" and ?cb = "app_callback p now raw msg"
  from assms(3) obtain x where x: "settle_session c p msg ?st = Ret x" unfolding app_message_def go_bind_Ret_iff by blast
  obtain a s1 where "x = (a, s1)" by fastforce
  with x have s1: "settle_session c p msg ?st = Ret (a, s1)" by simp
  from assms(3) [unfolded app_message_def s1] obtain s3 sess3 where a: "a < length (r_heap (srv_Registry s1))"
    and cap: "captureCallback a ?cb (if am_CallSid msg \<noteq> []
        then s1\<lparr>srv_Registry := BindCallSid (am_CallSid msg) (s_id (r_heap (srv_Registry s1) ! a)) (srv_Registry s1)\<rparr> else s1)
      = Ret s3"
    and st': "st' = reply emit msg sess3 (?st\<lparr>as_srv := s3, as_sess := Some a\<rparr>)" by (simp add: Let_def) blast
  have reg': "app_reg st' = srv_Registry s3" by (simp add: st')
  let ?r1 = "srv_Registry s1" and ?sid = "s_id (r_heap (srv_Registry s1) ! a)"
  let ?r2 = "BindCallSid (am_CallSid msg) ?sid ?r1"
  have r2: "srv_Registry (if am_CallSid msg \<noteq> [] then s1\<lparr>srv_Registry := ?r2\<rparr> else s1) = ?r2"
    by (simp add: BindCallSid_def)
  have settled: "registry_ok ?r1 \<and> (case sess of
      None \<Rightarrow> owner a ?r1 = Some (app_target p msg (reg_desk (srv_Registry s)))
        \<and> boxes ?r1 = box_step (BoxOpen (app_target p msg (reg_desk (srv_Registry s)))) (boxes (srv_Registry s))
        \<and> r_callSidIndex ?r1 = r_callSidIndex (srv_Registry s)
    | Some b \<Rightarrow> b = a \<and> s1 = s)"
  proof (cases sess)
    case None
    obtain b s0 where s0: "resolveAppWSSession p msg s = (b, s0)" by fastforce
    with s1 None obtain r where r: "at_session b (\<lambda>x. Ret (BindAppConn c x)) (srv_Registry s0) = Ret r"
      "b = a" "?r1 = r" by (auto simp: settle_session_def)
    have ok: "registry_ok (srv_Registry s0)" "b < length (r_heap (srv_Registry s0))" using resolve_ok [OF assms(1) s0] by simp_all
    from bind_app_desk [OF ok r(1)] resolve_desk [OF assms(1) s0] show ?thesis using r(2,3) None by simp
  next
    case (Some b)
    then show ?thesis using s1 assms(1) by (simp add: settle_session_def)
  qed
  have ok2: "registry_ok ?r2" using settled registry_ok_Bind by blast
  have "reg_step (OpRecord a ?cb) ?r2 = Ret (srv_Registry s3)"
    using cap [unfolded captureCallback_def r2] a by auto
  from op_desk [OF ok2 this, folded reg'] have
    "boxes (app_reg st') = (case owner a ?r1 of None \<Rightarrow> boxes ?r1 | Some t \<Rightarrow> box_step (BoxDeliver t ?cb) (boxes ?r1))"
    "r_callSidIndex (app_reg st') = desk_bind (am_CallSid msg) ?sid (r_callSidIndex ?r1)"
    by (auto simp: index_Bind split: option.splits)
  then show ?thesis using settled owner_id [of a ?r1]
    by (cases sess) (auto simp: frame_op_def reg_desk_def Let_def simp del: box_step.simps split: option.splits)
qed

lemma app_frame_desk:
  assumes "registry_ok (srv_Registry s)" "\<forall>a. ac_sess ac = Some a \<longrightarrow> a < length (r_heap (srv_Registry s))"
    and "app_frame emit c (ac_path ac) (now, rd) \<lparr>as_srv = s, as_sess = ac_sess ac, as_sent = ac_sent ac\<rparr> = Ret st'"
  shows "reg_desk (app_reg st') = hub_spec (case rd of
       ReadText raw \<Rightarrow> (case decode_app_msg raw of
           Some msg \<Rightarrow> frame_op ac now raw msg (srv_Registry s) | None \<Rightarrow> DeskOp (DeskBox BoxNothing))
     | _ \<Rightarrow> DeskOp (DeskBox BoxNothing)) (reg_desk (srv_Registry s))"
proof -
  have ac: "ac = \<lparr>ac_path = ac_path ac, ac_sess = ac_sess ac, ac_sent = ac_sent ac\<rparr>" by simp
  show ?thesis
  proof (cases rd)
    case (ReadText raw)
    show ?thesis
    proof (cases "decode_app_msg raw")
      case (Some msg)
      with app_message_desk [OF assms(1,2), of emit c "ac_path ac" now raw msg "ac_sent ac" st'] assms(3) ReadText ac
      show ?thesis by (simp add: app_frame_def)
    qed (use assms(3) ReadText in \<open>auto simp: app_frame_def reg_desk_def\<close>)
  qed (use assms(3) in \<open>auto simp: app_frame_def reg_desk_def\<close>)
qed

section \<open>The hub as a machine\<close>

lemma reg_step_heap: "reg_step op r = Ret t \<Longrightarrow> length (r_heap r) \<le> length (r_heap t)"
  by (cases op) (auto simp: at_session_def Release_def reg_New_def BindCallSid_def split: if_splits option.splits)

lemma srv_step_heap:
  assumes "server_ok s" "srv_step env files e s = Ret t"
  shows "length (r_heap (srv_Registry s)) \<le> length (r_heap (srv_Registry t))"
proof (cases e)
  case (Request now r)
  have rok: "registry_ok (srv_Registry s)" using assms(1) by (simp add: server_ok_def)
  from assms(2) Request obtain resp where "serve env files now r s = Ret (resp, t)" by auto
  from serve_hook [OF this] show ?thesis
  proof (cases "hook_of r")
    case None
    with \<open>case hook_of r of None \<Rightarrow> _ | Some h \<Rightarrow> _\<close> show ?thesis by simp
  next
    case (Some h)
    with \<open>case hook_of r of None \<Rightarrow> _ | Some h \<Rightarrow> _\<close> obtain n a cb where "intake env n h now r s = Ret (a, cb, t)" by auto
    with intake_ok [OF rok, of env n h now r] have
      "length (r_heap (srv_Registry t)) = length (r_heap (snd (routed_reg (extractTestID r (readAll r)) (extractCallSid (readAll r)) (srv_Registry s))))"
      by auto
    then show ?thesis
      using routed_reg_heap [of "extractTestID r (readAll r)" "extractCallSid (readAll r)" "srv_Registry s"] by auto
  qed
next
  case (TestOp op)
  then show ?thesis using assms(2) reg_step_heap by auto
qed

lemma app_frame_ok:
  assumes "app_ok st"
  shows "\<exists>st'. app_frame emit c p tr st = Ret st' \<and> app_ok st' \<and> length (r_heap (app_reg st)) \<le> length (r_heap (app_reg st'))"
proof -
  from appws.step_ok [OF assms, of emit c p tr] obtain st' where st': "app_frame emit c p tr st = Ret st'" "app_ok st'" by blast
  moreover have "length (r_heap (app_reg st)) \<le> length (r_heap (app_reg st'))"
  proof (cases "\<exists>raw msg. snd tr = ReadText raw \<and> decode_app_msg raw = Some msg")
    case True
    then obtain raw msg where m: "snd tr = ReadText raw" "decode_app_msg raw = Some msg" by blast
    then have "app_message emit c p (fst tr) raw msg st = Ret st'" using st'(1) by (simp add: app_frame_def)
    with app_message_step [OF assms, of emit c p "fst tr" raw msg] show ?thesis by (auto simp: step_result_def)
  next
    case False
    then show ?thesis using st'(1) by (auto simp: app_frame_def split: ws_read.splits option.splits)
  qed
  ultimately show ?thesis by blast
qed

lemma hub_frame:
  assumes "hub_ok h" "hb_conns h c = Some ac"
  shows "\<exists>st. app_frame (emit c) c (ac_path ac) (now, rd) \<lparr>as_srv = hb_server h, as_sess = ac_sess ac, as_sent = ac_sent ac\<rparr> = Ret st
     \<and> hub_step env files emit (Frame c now rd) h = Ret (h\<lparr>hb_server := as_srv st,
          hb_conns := (hb_conns h)(c \<mapsto> ac\<lparr>ac_sess := as_sess st, ac_sent := as_sent st\<rparr>)\<rparr>)
     \<and> hub_ok (h\<lparr>hb_server := as_srv st, hb_conns := (hb_conns h)(c \<mapsto> ac\<lparr>ac_sess := as_sess st, ac_sent := as_sent st\<rparr>)\<rparr>)"
proof -
  let ?st = "\<lparr>as_srv = hb_server h, as_sess = ac_sess ac, as_sent = ac_sent ac\<rparr>"
  have "app_ok ?st" using assms by (auto simp: hub_ok_def server_ok_def app_ok_def split: option.split)
  from app_frame_ok [OF this, of "emit c" c "ac_path ac" "(now, rd)"] obtain st where
    st: "app_frame (emit c) c (ac_path ac) (now, rd) ?st = Ret st" "app_ok st"
      "length (r_heap (srv_Registry (hb_server h))) \<le> length (r_heap (app_reg st))" by auto
  have "b < length (r_heap (app_reg st))" if "hb_conns h d = Some dc" "ac_sess dc = Some b" for d dc b
    using assms(1) that st(3) unfolding hub_ok_def by (meson less_le_trans)
  then have "hub_ok (h\<lparr>hb_server := as_srv st, hb_conns := (hb_conns h)(c \<mapsto> ac\<lparr>ac_sess := as_sess st, ac_sent := as_sent st\<rparr>)\<rparr>)"
    using st(2) by (auto simp: hub_ok_def server_ok_def app_ok_def)
  with st(1) assms(2) show ?thesis by simp
qed

interpretation hub: refined_machine "hub_step env files emit" hub_ok "\<lambda>h. reg_desk (srv_Registry (hb_server h))" as_hub_op hub_spec
  for env :: "'sch schema_env" and files and emit
proof unfold_locales
  fix h :: "'sch hub" and e
  assume ok: "hub_ok h"
  then have sok: "server_ok (hb_server h)" by (simp add: hub_ok_def)
  show "\<exists>t. hub_step env files emit e h = Ret t \<and> hub_ok t"
  proof (cases e)
    case (Http ev)
    from srv.step_ok [OF sok, of env files ev] obtain s where s: "srv_step env files ev (hb_server h) = Ret s" "server_ok s" by blast
    have "hub_ok (h\<lparr>hb_server := s\<rparr>)" using ok s(2) srv_step_heap [OF sok s(1)] unfolding hub_ok_def by fastforce
    with s Http show ?thesis by simp
  next
    case (Frame c now rd)
    show ?thesis
    proof (cases "hb_conns h c")
      case (Some ac)
      from hub_frame [OF ok Some, of emit now rd env files] Frame show ?thesis by blast
    qed (use ok Frame in simp)
  qed (use ok in \<open>auto simp: hub_ok_def\<close>)
next
  fix h t :: "'sch hub" and e
  assume ok: "hub_ok h" and st: "hub_step env files emit e h = Ret t"
  then have sok: "server_ok (hb_server h)" by (simp add: hub_ok_def)
  then have rok: "registry_ok (srv_Registry (hb_server h))" by (simp add: server_ok_def)
  have quiet: "hub_spec (DeskOp (DeskBox BoxNothing)) d = d" for d by simp
  show "reg_desk (srv_Registry (hb_server t)) = hub_spec (as_hub_op e h) (reg_desk (srv_Registry (hb_server h)))"
  proof (cases e)
    case (Http ev)
    with st obtain s where "srv_step env files ev (hb_server h) = Ret s" "hb_server t = s" by auto
    with desk.simulates [OF sok] Http show ?thesis by simp
  next
    case (Frame c now rd)
    show ?thesis
    proof (cases "hb_conns h c")
      case None
      then show ?thesis using st Frame quiet by simp
    next
      case (Some ac)
      from hub_frame [OF ok Some, of emit now rd env files] obtain s where
        s: "app_frame (emit c) c (ac_path ac) (now, rd) \<lparr>as_srv = hb_server h, as_sess = ac_sess ac, as_sent = ac_sent ac\<rparr> = Ret s"
          "hub_step env files emit (Frame c now rd) h = Ret (h\<lparr>hb_server := as_srv s,
             hb_conns := (hb_conns h)(c \<mapsto> ac\<lparr>ac_sess := as_sess s, ac_sent := as_sent s\<rparr>)\<rparr>)" by blast
      have "\<forall>a. ac_sess ac = Some a \<longrightarrow> a < length (r_heap (srv_Registry (hb_server h)))"
        using ok Some by (auto simp: hub_ok_def)
      from app_frame_desk [OF rok this s(1)] show ?thesis using st s(2) Frame Some by (auto split: ws_read.splits)
    qed
  qed (use st quiet in \<open>auto split: if_splits\<close>)
qed

section \<open>Properties\<close>


end
