(* ===== verification/Webhook_Tunnel.thy ===== *)
theory Webhook_Tunnel
  imports Webhook_Delivery Go_Chan
begin

text \<open>
  The life cycle of the webhook server (\<open>New\<close>, \<open>Serve\<close>, \<open>Stop\<close>, \<open>LocalAddr\<close>, \<open>LocalPort\<close> in
  \<open>internal/webhook/server.go\<close>) and of the ngrok tunnel that exposes it (\<open>tunnel.go\<close>). Listening,
  the tunnel service and what ends an \<open>Accept\<close> are parameters or events. The tunnel has an
  \<open>http.Server\<close> of its own with the same handler: the lemmas show that a request has the same
  effect whichever way it comes, and which calls end which of the two servers.
\<close>

section \<open>The listening server\<close>

text \<open>
  \<open>ho_down\<close> is that \<open>Shutdown\<close> of \<open>s.httpSrv\<close> was called, \<open>ho_serving\<close> that \<open>Serve\<close> has not
  returned, \<open>tn_open\<close> that the tunnel session accepts connections.
\<close>

record tunnel =
  tn_url :: string
  tn_open :: bool
  tn_forward_cancelled :: bool
  tn_done :: "unit chan"
  tn_serving :: bool

record 'sch host =
  ho_server :: "'sch server"
  ho_addr :: string
  ho_down :: bool
  ho_serving :: bool
  ho_tunnel :: "tunnel option"

definition webhook_New :: "string + string \<Rightarrow> 'sch validator option \<Rightarrow> string + 'sch host" where
  "webhook_New listen v =
     (case listen of
        Inl err \<Rightarrow> Inl (''webhook listen: '' @ err)
      | Inr addr \<Rightarrow> Inr \<lparr>ho_server = server_New v, ho_addr = addr, ho_down = False, ho_serving = False, ho_tunnel = None\<rparr>)"

definition LocalAddr :: "'sch host \<Rightarrow> string" where
  "LocalAddr h = ho_addr h"

text \<open>\<open>net.SplitHostPort\<close>: the host and the port, or \<open>None\<close> for each of its errors.\<close>

definition last_index :: "char \<Rightarrow> string \<Rightarrow> nat option" where
  "last_index c s = (if c \<in> set s then Some (length s - 1 - length (takeWhile (\<lambda>x. x \<noteq> c) (rev s))) else None)"

definition SplitHostPort :: "string \<Rightarrow> (string \<times> string) option" where
  "SplitHostPort hp =
     (case last_index (CHR '':'') hp of
        None \<Rightarrow> None
      | Some i \<Rightarrow>
          if hd hp = CHR ''['' then
            (case index_any (\<lambda>c. c = CHR '']'') hp of
               None \<Rightarrow> None
             | Some e \<Rightarrow>
                 if e + 1 \<noteq> i then None
                 else if CHR ''['' \<in> set (drop 1 hp) \<or> CHR '']'' \<in> set (drop (e + 1) hp) then None
                 else Some (take (e - 1) (drop 1 hp), drop (i + 1) hp))
          else if CHR '':'' \<in> set (take i hp) then None
          else if CHR ''['' \<in> set hp \<or> CHR '']'' \<in> set hp then None
          else Some (take i hp, drop (i + 1) hp))"

text \<open>
  Both errors are dropped: a failed split leaves the empty text, \<open>Atoi\<close> then gives 0 (or, for a
  number out of range, the nearest one, which a port of a listener never is).
\<close>

definition LocalPort :: "'sch host \<Rightarrow> int" where
  "LocalPort h =
     (case atoi (case SplitHostPort (ho_addr h) of None \<Rightarrow> [] | Some (_, p) \<Rightarrow> p) of
        Some n \<Rightarrow> n | None \<Rightarrow> 0)"

definition PublicURL :: "'sch host \<Rightarrow> string" where
  "PublicURL h = srv_publicURL (ho_server h)"

section \<open>Serving\<close>

text \<open>\<open>Server.Serve\<close> of \<open>net/http\<close>: its error once \<open>Accept\<close> fails, or at once after a shutdown.\<close>

datatype serve_error = ErrServerClosed | AcceptError string

definition http_Serve_error :: "bool \<Rightarrow> string \<Rightarrow> serve_error" where
  "http_Serve_error down accept_err = (if down then ErrServerClosed else AcceptError accept_err)"

text \<open>\<open>Serve\<close> blocks (\<open>None\<close>) unless the server was shut down; \<open>Stop\<close> closes the listener under it.\<close>

definition Serve_begin :: "'sch host \<Rightarrow> serve_error option \<times> 'sch host" where
  "Serve_begin h = (if ho_down h then (Some (http_Serve_error True []), h) else (None, h\<lparr>ho_serving := True\<rparr>))"

definition server_Stop :: "string option \<Rightarrow> 'sch host \<Rightarrow> string option \<times> 'sch host" where
  "server_Stop ctx_err h = (ctx_err, h\<lparr>ho_down := True, ho_serving := False\<rparr>)"

section \<open>The tunnel\<close>

text \<open>\<open>ngrok_listen\<close>: the URL of the tunnel that forwards to an address, or an error.\<close>

definition StartNgrok :: "(string \<Rightarrow> string + string) \<Rightarrow> 'sch host \<Rightarrow> (string + tunnel) \<times> 'sch host" where
  "StartNgrok ngrok_listen h =
     (case ngrok_listen (LocalAddr h) of
        Inl err \<Rightarrow> (Inl (''ngrok.Listen: '' @ err), h)
      | Inr url \<Rightarrow>
          (let t = \<lparr>tn_url = url, tn_open = True, tn_forward_cancelled = False, tn_done = make_chan 0, tn_serving = True\<rparr>;
               s = log_line ''INFO'' ''webhook: ngrok tunnel up'' (SetPublicURL url (ho_server h))
           in (Inr t, h\<lparr>ho_server := s, ho_tunnel := Some t\<rparr>)))"

definition tunnel_URL :: "tunnel \<Rightarrow> string" where
  "tunnel_URL t = tn_url t"

definition tunnel_Close :: "tunnel \<Rightarrow> tunnel" where
  "tunnel_Close t = t\<lparr>tn_forward_cancelled := True, tn_open := False\<rparr>"

text \<open>
  The goroutine behind the tunnel, once its \<open>Accept\<close> has failed. Its \<open>http.Server\<close> is a local
  variable that nobody shuts down.
\<close>

definition tunnel_serve_ends :: "string \<Rightarrow> tunnel \<Rightarrow> 'sch server \<Rightarrow> (tunnel \<times> 'sch server) go" where
  "tunnel_serve_ends accept_err t s =
     (let s' = (if http_Serve_error False accept_err \<noteq> ErrServerClosed
                then log_line ''WARN'' ''ngrok tunnel serve error'' s else s)
      in go_bind (close_chan (tn_done t)) (\<lambda>c. Ret (t\<lparr>tn_done := c, tn_serving := False\<rparr>, s')))"

section \<open>Runs\<close>

datatype host_event =
    Local srv_event
  | ViaTunnel int http_request
  | HostServe
  | HostStop "string option"
  | HostClose
  | AcceptFails string

fun host_step ::
  "'sch schema_env \<Rightarrow> (string \<Rightarrow> string \<Rightarrow> http_response) \<Rightarrow> host_event \<Rightarrow> 'sch host \<Rightarrow> 'sch host go" where
  "host_step env files (Local (Request now r)) h =
     (if ho_serving h then go_bind (srv_step env files (Request now r) (ho_server h)) (\<lambda>s. Ret (h\<lparr>ho_server := s\<rparr>))
      else Ret h)"
| "host_step env files (Local (TestOp op)) h =
     go_bind (srv_step env files (TestOp op) (ho_server h)) (\<lambda>s. Ret (h\<lparr>ho_server := s\<rparr>))"
| "host_step env files (ViaTunnel now r) h =
     (case ho_tunnel h of
        None \<Rightarrow> Ret h
      | Some t \<Rightarrow>
          if tn_open t \<and> tn_serving t
          then go_bind (srv_step env files (Request now r) (ho_server h)) (\<lambda>s. Ret (h\<lparr>ho_server := s\<rparr>))
          else Ret h)"
| "host_step env files HostServe h = Ret (snd (Serve_begin h))"
| "host_step env files (HostStop e) h = Ret (snd (server_Stop e h))"
| "host_step env files HostClose h = Ret (h\<lparr>ho_tunnel := map_option tunnel_Close (ho_tunnel h)\<rparr>)"
| "host_step env files (AcceptFails e) h =
     (case ho_tunnel h of
        None \<Rightarrow> Ret h
      | Some t \<Rightarrow>
          if tn_serving t
          then go_bind (tunnel_serve_ends e t (ho_server h)) (\<lambda>(t', s). Ret (h\<lparr>ho_server := s, ho_tunnel := Some t'\<rparr>))
          else Ret h)"

text \<open>The event of the server that an event here amounts to, if it gets through.\<close>

fun gets_through :: "host_event \<Rightarrow> 'sch host \<Rightarrow> srv_event option" where
  "gets_through (Local (Request now r)) h = (if ho_serving h then Some (Request now r) else None)"
| "gets_through (Local (TestOp op)) h = Some (TestOp op)"
| "gets_through (ViaTunnel now r) h =
     (case ho_tunnel h of None \<Rightarrow> None | Some t \<Rightarrow> if tn_open t \<and> tn_serving t then Some (Request now r) else None)"
| "gets_through _ h = None"

definition host_ok :: "'sch host \<Rightarrow> bool" where
  "host_ok h \<longleftrightarrow> server_ok (ho_server h) \<and> (ho_down h \<longrightarrow> \<not> ho_serving h)
     \<and> (case ho_tunnel h of None \<Rightarrow> True | Some t \<Rightarrow> ch_closed (tn_done t) \<longleftrightarrow> \<not> tn_serving t)"

lemma server_ok_log [simp]: "server_ok (log_line l m s) = server_ok s"
  by (simp add: server_ok_def)

lemma server_ok_publicURL [simp]: "server_ok (SetPublicURL u s) = server_ok s"
  by (simp add: server_ok_def SetPublicURL_def)

lemma host_step_through:
  "gets_through e h = Some e' \<Longrightarrow>
     host_step env files e h = go_bind (srv_step env files e' (ho_server h)) (\<lambda>s. Ret (h\<lparr>ho_server := s\<rparr>))"
  by (cases "(e, h)" rule: gets_through.cases) (auto split: if_splits option.splits)

lemma host_step_blocked:
  assumes "host_ok h" "gets_through e h = None"
  shows "\<exists>t. host_step env files e h = Ret t \<and> host_ok t \<and> srv_Registry (ho_server t) = srv_Registry (ho_server h)"
  using assms
  by (cases "(e, h)" rule: gets_through.cases)
    (auto simp: host_ok_def Serve_begin_def server_Stop_def tunnel_Close_def tunnel_serve_ends_def Let_def close_chan_def
      split: if_splits option.splits)

definition as_host_op :: "host_event \<Rightarrow> 'sch host \<Rightarrow> desk_op" where
  "as_host_op e h = (case gets_through e h of None \<Rightarrow> DeskBox BoxNothing | Some e' \<Rightarrow> as_desk_op e' (ho_server h))"

lemma host_through_ok:
  assumes "host_ok h" "gets_through e h = Some e'"
  shows "\<exists>s. srv_step env files e' (ho_server h) = Ret s \<and> host_step env files e h = Ret (h\<lparr>ho_server := s\<rparr>)
     \<and> host_ok (h\<lparr>ho_server := s\<rparr>)"
proof -
  have "server_ok (ho_server h)" using assms(1) by (simp add: host_ok_def)
  from srv.step_ok [OF this, of env files e'] obtain s where "srv_step env files e' (ho_server h) = Ret s" "server_ok s" by blast
  with host_step_through [OF assms(2)] assms(1) show ?thesis by (auto simp: host_ok_def)
qed

interpretation hosted: refined_machine "host_step env files" host_ok "\<lambda>h. reg_desk (srv_Registry (ho_server h))"
  as_host_op desk_step for env :: "'sch schema_env" and files
proof unfold_locales
  fix h :: "'sch host" and e
  assume ok: "host_ok h"
  show "\<exists>t. host_step env files e h = Ret t \<and> host_ok t"
    using host_through_ok [OF ok] host_step_blocked [OF ok] by (cases "gets_through e h") blast+
next
  fix h t :: "'sch host" and e
  assume ok: "host_ok h" and st: "host_step env files e h = Ret t"
  then have sok: "server_ok (ho_server h)" by (simp add: host_ok_def)
  show "reg_desk (srv_Registry (ho_server t)) = desk_step (as_host_op e h) (reg_desk (srv_Registry (ho_server h)))"
  proof (cases "gets_through e h")
    case None
    with host_step_blocked [OF ok None, of env files] st show ?thesis by (auto simp: as_host_op_def reg_desk_def)
  next
    case (Some e')
    from host_through_ok [OF ok Some] obtain s where s: "srv_step env files e' (ho_server h) = Ret s"
      "host_step env files e h = Ret (h\<lparr>ho_server := s\<rparr>)" by blast
    with st have "t = h\<lparr>ho_server := s\<rparr>" by simp
    with desk.simulates [OF sok s(1)] Some show ?thesis by (simp add: as_host_op_def)
  qed
qed

section \<open>Lemmas\<close>

lemma StartNgrok_cases:
  assumes "host_ok h"
  shows "(\<exists>err. ngrok_listen (LocalAddr h) = Inl err \<and> StartNgrok ngrok_listen h = (Inl (''ngrok.Listen: '' @ err), h))
     \<or> (\<exists>t h'. StartNgrok ngrok_listen h = (Inr t, h') \<and> ngrok_listen (LocalAddr h) = Inr (tunnel_URL t)
          \<and> PublicURL h' = tunnel_URL t \<and> ho_tunnel h' = Some t \<and> host_ok h'
          \<and> srv_Registry (ho_server h') = srv_Registry (ho_server h))"
  using assms
  by (auto simp: StartNgrok_def Let_def PublicURL_def tunnel_URL_def host_ok_def SetPublicURL_def log_line_def
      server_ok_def split: sum.splits)

lemma last_index_append: "c \<notin> set t \<Longrightarrow> last_index c (s @ c # t) = Some (length s)"
proof -
  assume "c \<notin> set t"
  then have "takeWhile (\<lambda>x. x \<noteq> c) (rev t) = rev t" by (auto simp: takeWhile_eq_all_conv)
  then show ?thesis by (simp add: last_index_def takeWhile_tail del: takeWhile_eq_all_conv)
qed

lemma LocalPort_of_listener:
  assumes "p < 65536" "ho_addr h = ''127.0.0.1:'' @ show_nat p"
  shows "LocalPort h = int p"
proof -
  let ?s = "''127.0.0.1''"
  have d: "is_digit c" if "c \<in> set (show_nat p)" for c using show_nat_digits [of p] that by (simp add: list_all_iff)
  then have n: "CHR '':'' \<notin> set (show_nat p)" "CHR ''['' \<notin> set (show_nat p)" "CHR '']'' \<notin> set (show_nat p)"
    by (auto simp: is_digit_def code_def dest: d)
  have a: "ho_addr h = ?s @ CHR '':'' # show_nat p" using assms(2) by simp
  have "last_index (CHR '':'') (ho_addr h) = Some (length ?s)" unfolding a by (rule last_index_append [OF n(1)])
  then have "SplitHostPort (ho_addr h) = Some (?s, show_nat p)" using n by (simp add: SplitHostPort_def a)
  then show ?thesis using atoi_show_nat [of p] assms(1) by (simp add: LocalPort_def)
qed

text \<open>
  The tunnel's own server is never told to shut down, so the error that ends it is never the one
  that is not logged: every \<open>Close\<close> of the tunnel is followed by a warning.
\<close>

lemma tunnel_end_always_warns:
  assumes "host_ok h" "ho_tunnel h = Some t" "tn_serving t"
  shows "\<exists>h'. host_step env files (AcceptFails e) h = Ret h'
     \<and> srv_log (ho_server h') = srv_log (ho_server h) @ [(''WARN'', ''ngrok tunnel serve error'')]"
  using assms
  by (auto simp: host_ok_def tunnel_serve_ends_def http_Serve_error_def close_chan_def log_line_def Let_def)

text \<open>Neither server takes another request: the listening one is shut down, the tunnel closed or absent.\<close>

definition host_closed :: "'sch host \<Rightarrow> bool" where
  "host_closed h \<longleftrightarrow> ho_down h \<and> \<not> ho_serving h \<and> (case ho_tunnel h of None \<Rightarrow> True | Some t \<Rightarrow> \<not> tn_open t)"

fun is_test_op :: "host_event \<Rightarrow> bool" where
  "is_test_op (Local (TestOp op)) = True"
| "is_test_op _ = False"

lemma host_closed_step:
  assumes "host_ok h" "host_closed h" "host_step env files e h = Ret t"
  shows "host_closed t \<and> (\<not> is_test_op e \<longrightarrow> srv_Registry (ho_server t) = srv_Registry (ho_server h))"
proof (cases "gets_through e h")
  case None
  from host_step_blocked [OF assms(1) None, of env files] assms(3)
  have "srv_Registry (ho_server t) = srv_Registry (ho_server h)" by auto
  moreover have "host_closed t" using assms None
    by (cases "(e, h)" rule: gets_through.cases)
      (auto simp: host_closed_def Serve_begin_def server_Stop_def tunnel_Close_def tunnel_serve_ends_def Let_def close_chan_def
        split: if_splits option.splits)
  ultimately show ?thesis by blast
next
  case (Some e')
  then have "is_test_op e" using assms(2)
    by (cases "(e, h)" rule: gets_through.cases) (auto simp: host_closed_def split: if_splits option.splits)
  moreover from host_through_ok [OF assms(1) Some, of env files] assms(3) obtain s where "t = h\<lparr>ho_server := s\<rparr>" by auto
  ultimately show ?thesis using assms(2) by (simp add: host_closed_def)
qed

lemma host_closed_run:
  "host_ok h \<Longrightarrow> host_closed h \<Longrightarrow> list_all (\<lambda>e. \<not> is_test_op e) es \<Longrightarrow>
     \<exists>t. go_fold (host_step env files) es h = Ret t \<and> srv_Registry (ho_server t) = srv_Registry (ho_server h)"
proof (induction es arbitrary: h)
  case (Cons e es)
  from hosted.step_ok [OF Cons.prems(1), of env files e] obtain u where
    u: "host_step env files e h = Ret u" "host_ok u" by blast
  from host_closed_step [OF Cons.prems(1,2) u(1)] Cons.prems(3) have
    "host_closed u" "srv_Registry (ho_server u) = srv_Registry (ho_server h)" by auto
  with Cons.IH [OF u(2)] Cons.prems(3) u(1) show ?case by auto
qed simp

text \<open>
  Once the server is stopped and the tunnel, if there is one, is closed, in either
  order and after any history, no hook reaches a session any more, by either way in; nothing
  panics, and a later \<open>Serve\<close> returns at once.
\<close>

lemma closed_host_is_silent:
  assumes "webhook_New listen v = Inr h0" "StartNgrok ngrok_listen h0 = (Inr tun, h)"
    and "list_all (\<lambda>e. \<not> is_test_op e) es"
  shows "\<exists>u t. go_fold (host_step env files) (before @ (if tunnel_first then [HostClose, HostStop e] else [HostStop e, HostClose])) h = Ret u
     \<and> go_fold (host_step env files) es u = Ret t \<and> srv_Registry (ho_server t) = srv_Registry (ho_server u)
     \<and> fst (Serve_begin u) = Some ErrServerClosed"
proof -
  have "host_ok h0" using assms(1)
    by (auto simp: webhook_New_def host_ok_def server_ok_def server_New_def split: sum.splits)
  from StartNgrok_cases [OF this, of ngrok_listen] assms(2) have ok: "host_ok h" by auto
  from hosted.run_ok [OF ok, of env files before] obtain w where
    w: "go_fold (host_step env files) before h = Ret w" "host_ok w" by blast
  let ?stops = "if tunnel_first then [HostClose, HostStop e] else [HostStop e, HostClose]"
  from hosted.run_ok [OF w(2), of env files ?stops] obtain u where
    u: "go_fold (host_step env files) ?stops w = Ret u" "host_ok u" by blast
  then have c: "host_closed u"
    by (auto simp: host_closed_def server_Stop_def tunnel_Close_def split: if_splits option.splits)
  from host_closed_run [OF u(2) c assms(3)] obtain t where
    "go_fold (host_step env files) es u = Ret t" "srv_Registry (ho_server t) = srv_Registry (ho_server u)" by blast
  moreover have "go_fold (host_step env files) (before @ ?stops) h = Ret u" by (simp only: go_fold_append w u go_bind.simps)
  moreover have "fst (Serve_begin u) = Some ErrServerClosed"
    using c by (simp add: host_closed_def Serve_begin_def http_Serve_error_def)
  ultimately show ?thesis by blast
qed

end
