(* ===== verification/Sip_Message.thy ===== *)
theory Sip_Message
  imports Go_Strings Go_Chan
begin

text \<open>
  The vocabulary of the SIP harness: call states and directions (\<open>internal/sip/state.go\<close>), the
  recorded messages and the parsers over them (\<open>messages.go\<close>). A request or a response of the
  third-party stack is what the code reads of it: method or status, headers in order, and the
  Call-ID and CSeq headers where it has them.
\<close>

section \<open>States\<close>

datatype call_state = StateInit | StateTrying | StateRinging | StateAnswered | StateEnded

fun state_rank :: "call_state \<Rightarrow> nat" where
  "state_rank StateInit = 0"
| "state_rank StateTrying = 1"
| "state_rank StateRinging = 2"
| "state_rank StateAnswered = 3"
| "state_rank StateEnded = 4"

instantiation call_state :: linorder
begin

definition less_eq_call_state :: "call_state \<Rightarrow> call_state \<Rightarrow> bool" where
  "less_eq_call_state s t \<longleftrightarrow> state_rank s \<le> state_rank t"

definition less_call_state :: "call_state \<Rightarrow> call_state \<Rightarrow> bool" where
  "less_call_state s t \<longleftrightarrow> state_rank s < state_rank t"

instance
proof
  fix s t :: call_state
  show "s \<le> t \<Longrightarrow> t \<le> s \<Longrightarrow> s = t"
    by (cases s; cases t) (simp_all add: less_eq_call_state_def)
qed (auto simp: less_eq_call_state_def less_call_state_def)

end

lemmas state_order = less_eq_call_state_def less_call_state_def

fun state_String :: "call_state \<Rightarrow> string" where
  "state_String StateInit = ''init''"
| "state_String StateTrying = ''trying''"
| "state_String StateRinging = ''ringing''"
| "state_String StateAnswered = ''answered''"
| "state_String StateEnded = ''ended''"

datatype direction = Inbound | Outbound

fun direction_String :: "direction \<Rightarrow> string" where
  "direction_String Inbound = ''inbound''"
| "direction_String Outbound = ''outbound''"

text \<open>
  The errors a method returns: the typed one of \<open>invalidState\<close>, a plain message, and a message
  wrapped around the error of a call into the stack.
\<close>

datatype call_error =
    InvalidState string call_state "call_state list"
  | Plain string
  | Wrapped string string

fun state_list_text :: "call_state list \<Rightarrow> string" where
  "state_list_text [] = []"
| "state_list_text [s] = state_String s"
| "state_list_text (s # t # r) = state_String s @ '' '' @ state_list_text (t # r)"

fun call_error_text :: "call_error \<Rightarrow> string" where
  "call_error_text (InvalidState op got allowed) =
     ''sip: '' @ op @ '' invalid in state '' @ state_String got @ '' (allowed: ['' @ state_list_text allowed @ ''])''"
| "call_error_text (Plain s) = s"
| "call_error_text (Wrapped op err) = op @ '': '' @ err"

section \<open>Messages\<close>

type_synonym headers = "(string \<times> string) list"

record sip_request =
  rq_Method :: string
  rq_Headers :: headers
  rq_CallID :: "string option"
  rq_CSeq :: "string option"
  rq_Body :: string

record sip_response =
  rp_StatusCode :: int
  rp_Reason :: string
  rp_Headers :: headers
  rp_CallID :: "string option"
  rp_CSeq :: "(string \<times> string) option"
  rp_Contact :: "string option"

datatype msg_direction = MsgSent | MsgRecv

fun msg_direction_String :: "msg_direction \<Rightarrow> string" where
  "msg_direction_String MsgSent = ''sent''"
| "msg_direction_String MsgRecv = ''recv''"

record message =
  ms_Direction :: msg_direction
  ms_Timestamp :: int
  ms_Method :: string
  ms_StatusCode :: int
  ms_Reason :: string
  ms_CallID :: string
  ms_CSeq :: string
  ms_Headers :: headers

definition no_message :: message where
  "no_message = \<lparr>ms_Direction = MsgSent, ms_Timestamp = 0, ms_Method = [], ms_StatusCode = 0,
     ms_Reason = [], ms_CallID = [], ms_CSeq = [], ms_Headers = []\<rparr>"

text \<open>
  The map keeps a header name once; a repeated name appends its value. The list of entries
  stands for the map, in the order of its iteration.
\<close>

fun add_header :: "string \<times> string \<Rightarrow> headers \<Rightarrow> headers" where
  "add_header (k, v) [] = [(k, v)]"
| "add_header (k, v) ((k', w) # hs) =
     (if k' = k then (k', w @ '', '' @ v) # hs else (k', w) # add_header (k, v) hs)"

definition headerSliceToMap :: "headers \<Rightarrow> headers" where
  "headerSliceToMap hs = fold add_header hs []"

definition newRequestMsg :: "msg_direction \<Rightarrow> int \<Rightarrow> sip_request \<Rightarrow> message" where
  "newRequestMsg dir now req =
     no_message\<lparr>ms_Direction := dir, ms_Timestamp := now, ms_Method := rq_Method req,
       ms_Headers := headerSliceToMap (rq_Headers req),
       ms_CallID := (case rq_CallID req of Some i \<Rightarrow> i | None \<Rightarrow> []),
       ms_CSeq := (case rq_CSeq req of Some c \<Rightarrow> c | None \<Rightarrow> [])\<rparr>"

definition newResponseMsg :: "msg_direction \<Rightarrow> int \<Rightarrow> sip_response \<Rightarrow> message" where
  "newResponseMsg dir now res =
     no_message\<lparr>ms_Direction := dir, ms_Timestamp := now, ms_StatusCode := rp_StatusCode res,
       ms_Reason := rp_Reason res, ms_Headers := headerSliceToMap (rp_Headers res),
       ms_CallID := (case rp_CallID res of Some i \<Rightarrow> i | None \<Rightarrow> []),
       ms_CSeq := (case rp_CSeq res of Some (v, m) \<Rightarrow> v | None \<Rightarrow> []),
       ms_Method := (case rp_CSeq res of Some (v, m) \<Rightarrow> m | None \<Rightarrow> [])\<rparr>"

fun ci_lookup :: "string \<Rightarrow> headers \<Rightarrow> string" where
  "ci_lookup name [] = []"
| "ci_lookup name ((k, v) # hs) = (if equal_fold k name then v else ci_lookup name hs)"

definition message_Header :: "message \<Rightarrow> string \<Rightarrow> string" where
  "message_Header m name = ci_lookup name (ms_Headers m)"

section \<open>Session-Expires\<close>

text \<open>\<open>strings.SplitN(p, "=", 2)\<close> with exactly two parts, or \<open>None\<close>.\<close>

definition split_pair :: "char \<Rightarrow> string \<Rightarrow> (string \<times> string) option" where
  "split_pair sep p =
     (case index_any (\<lambda>c. c = sep) p of
        None \<Rightarrow> None | Some i \<Rightarrow> Some (take i p, drop (Suc i) p))"

fun refresher_of :: "string list \<Rightarrow> string \<Rightarrow> string" where
  "refresher_of [] r = r"
| "refresher_of (p # ps) r =
     (case split_pair (CHR ''='') p of
        None \<Rightarrow> refresher_of ps r
      | Some (k, v) \<Rightarrow>
          if equal_fold (trim_space k) ''refresher'' then refresher_of ps (to_lower (trim_space v))
          else refresher_of ps r)"

definition ParseSessionExpires :: "string \<Rightarrow> string + (int \<times> string)" where
  "ParseSessionExpires v =
     (let parts = split_on (CHR '';'') v in
      case atoi (trim_space (hd parts)) of
        None \<Rightarrow> Inl (''ParseSessionExpires('' @ go_quote v @ ''): invalid delta-seconds'')
      | Some delta \<Rightarrow> Inr (delta, refresher_of (tl parts) []))"

section \<open>Lemmas\<close>

lemma add_header_keys: "fst ` set (add_header kv hs) = insert (fst kv) (fst ` set hs)"
  by (induction kv hs rule: add_header.induct) auto

lemma add_header_distinct: "distinct (map fst hs) \<Longrightarrow> distinct (map fst (add_header kv hs))"
  by (induction kv hs rule: add_header.induct) (auto simp: add_header_keys image_iff)

lemma add_header_lookup:
  "map_of (add_header (k, v) hs) k' =
     (if k' = k then Some (case map_of hs k of None \<Rightarrow> v | Some w \<Rightarrow> w @ '', '' @ v) else map_of hs k')"
  by (induction "(k, v)" hs rule: add_header.induct) auto

definition join_values :: "string list \<Rightarrow> string option" where
  "join_values vs = (case vs of [] \<Rightarrow> None | w # ws \<Rightarrow> Some (w @ concat (map (\<lambda>v. '', '' @ v) ws)))"

lemma fold_add_header_lookup:
  "map_of (fold add_header hs acc) k =
     (case map_of acc k of
        None \<Rightarrow> join_values (map snd (filter (\<lambda>h. fst h = k) hs))
      | Some w \<Rightarrow> Some (w @ concat (map (\<lambda>v. '', '' @ v) (map snd (filter (\<lambda>h. fst h = k) hs)))))"
  by (induction hs arbitrary: acc)
    (auto simp: add_header_lookup join_values_def split: option.splits list.splits)

lemma trim_space_id: "\<forall>c\<in>set s. \<not> is_space c \<Longrightarrow> trim_space s = s"
proof -
  have *: "dropWhile is_space u = u" if "\<forall>c\<in>set u. \<not> is_space c" for u
    using that by (cases u) auto
  assume "\<forall>c\<in>set s. \<not> is_space c"
  with * [of s] * [of "rev s"] have "dropWhile is_space s = s" and "dropWhile is_space (rev s) = rev s"
    by simp_all
  then show ?thesis by (simp add: trim_def trim_left_def trim_right_def)
qed

lemma show_nat_no: "(\<And>d. is_digit d \<Longrightarrow> \<not> P d) \<Longrightarrow> \<forall>c\<in>set (show_nat n). \<not> P c"
  using show_nat_digits [of n] by (auto simp: list_all_iff)

section \<open>Properties\<close>

text \<open>
  Flattening loses no header: what the map holds for a name is the values of
  all headers of exactly that name, in order, joined by a comma and a space.
\<close>

theorem headerSliceToMap_lookup:
  "map_of (headerSliceToMap hs) k = join_values (map snd (filter (\<lambda>h. fst h = k) hs))"
  by (simp add: headerSliceToMap_def fold_add_header_lookup)

text \<open>
  A Session-Expires value written from a number of seconds and a refresher
  parameter parses back to that number and the refresher in lower case.
\<close>

theorem ParseSessionExpires_roundtrip:
  assumes "int n < 2 ^ 63" and "\<forall>c\<in>set r. \<not> is_space c \<and> c \<noteq> CHR '';''"
  shows "ParseSessionExpires (show_nat n @ '';refresher='' @ r) = Inr (int n, to_lower r)"
proof -
  have "\<forall>c\<in>set (show_nat n). \<not> (c = CHR '';'')" by (rule show_nat_no) (auto simp: is_digit_def code_def)
  then have d: "CHR '';'' \<notin> set (show_nat n)" by auto
  have "\<forall>c\<in>set (show_nat n). \<not> is_space c"
    by (rule show_nat_no) (auto simp: is_digit_def is_space_def code_def)
  then have t: "trim_space (show_nat n) = show_nat n" by (rule trim_space_id)
  have r: "CHR '';'' \<notin> set (''refresher='' @ r)" using assms(2) by auto
  have "split_on (CHR '';'') (show_nat n @ '';refresher='' @ r) = [show_nat n, ''refresher='' @ r]"
    using split_on_append [OF d, of "''refresher='' @ r"] split_on_nosep [OF r] by simp
  moreover have "split_pair (CHR ''='') (''refresher='' @ r) = Some (''refresher'', r)"
    by (simp add: split_pair_def)
  moreover have "trim_space r = r" using assms(2) by (intro trim_space_id) auto
  moreover have "trim_space ''refresher'' = ''refresher''"
    by (rule trim_space_id) (auto simp: is_space_def code_def)
  ultimately show ?thesis using t atoi_show_nat [OF assms(1)] by (simp add: ParseSessionExpires_def)
qed

theorem ParseSessionExpires_roundtrip_witness:
  "ParseSessionExpires (show_nat 90 @ '';refresher='' @ ''UAS'') = Inr (int 90, to_lower ''UAS'')"
  by (rule ParseSessionExpires_roundtrip) (simp_all add: is_space_def code_def)

end
