(* ===== verification/Sip_Call.thy ===== *)
theory Sip_Call
  imports Sip_Message
begin

text \<open>
  \<open>internal/sip/call.go\<close> without its media sources (those are in \<open>Sip_Media\<close>): the call leg and
  its state machine. The third-party dialog is a parameter of every operation that talks to
  it: a \<open>dialog_reply\<close> says what the stack answered and what other goroutines did to the call
  while the operation was blocked in it, so that an operation's check of the state and its
  later change of it can be apart. The lemmas show that the end of a call is signalled exactly
  once whatever interleaves, what each operation does on each branch, and where a call that
  has ended can leave the ended state.
\<close>

section \<open>The call\<close>

text \<open>
  A recording in progress: its file's path, whether the file is still open, and the guard of
  the archive hook. What an operation does outside the call is an effect, in order.
\<close>

record recording_session =
  rs_path :: string
  rs_archived :: bool

datatype call_effect =
    Register string
  | Unregister string
  | SpawnStopMedia
  | CloseFile string
  | Archive string string string

record call =
  c_direction :: direction
  c_created :: int
  c_invite :: sip_request
  c_state :: call_state
  c_answeredAt :: "int option"
  c_endedAt :: "int option"
  c_endReason :: string
  c_err :: "string option"
  c_sent :: "message list"
  c_recv :: "message list"
  c_stateCh :: "unit chan"
  c_doneCh :: "unit chan"
  c_recording :: "recording_session option"
  c_silence :: bool
  c_codec :: string
  c_rawPCMPath :: string
  c_dtmf :: "(string \<times> int) list"
  c_owner :: string
  c_effects :: "call_effect list"

text \<open>The INVITE of a dialog always carries a Call-ID.\<close>

definition call_CallID :: "call \<Rightarrow> string" where
  "call_CallID c = (case rq_CallID (c_invite c) of Some i \<Rightarrow> i | None \<Rightarrow> [])"

definition recordSent :: "message \<Rightarrow> call \<Rightarrow> call" where
  "recordSent m c = c\<lparr>c_sent := c_sent c @ [m]\<rparr>"

definition recordReceived :: "message \<Rightarrow> call \<Rightarrow> call" where
  "recordReceived m c = c\<lparr>c_recv := c_recv c @ [m]\<rparr>"

definition effect :: "call_effect \<Rightarrow> call \<Rightarrow> call" where
  "effect e c = c\<lparr>c_effects := c_effects c @ [e]\<rparr>"

definition blank_call :: "direction \<Rightarrow> int \<Rightarrow> sip_request \<Rightarrow> string \<Rightarrow> call" where
  "blank_call dir now invite owner = \<lparr>c_direction = dir, c_created = now, c_invite = invite,
     c_state = StateInit, c_answeredAt = None, c_endedAt = None, c_endReason = [], c_err = None,
     c_sent = [], c_recv = [], c_stateCh = make_chan 1, c_doneCh = make_chan 0,
     c_recording = None, c_silence = False, c_codec = [], c_rawPCMPath = [], c_dtmf = [], c_owner = owner, c_effects = []\<rparr>"

definition newInboundCall :: "int \<Rightarrow> sip_request \<Rightarrow> string \<Rightarrow> call" where
  "newInboundCall now invite owner =
     (let c = recordReceived (newRequestMsg MsgRecv now invite) (blank_call Inbound now invite owner)
      in effect (Register (call_CallID c)) c)"

definition newOutboundCall :: "int \<Rightarrow> sip_request \<Rightarrow> string \<Rightarrow> call" where
  "newOutboundCall now invite owner =
     (let c = recordSent (newRequestMsg MsgSent now invite) (blank_call Outbound now invite owner)
      in effect (Register (call_CallID c)) c)"

section \<open>State changes\<close>

fun wake :: "nat \<Rightarrow> call \<Rightarrow> call go" where
  "wake 0 c = Ret c"
| "wake (Suc n) c =
     go_bind (try_send () (c_stateCh c))
       (\<lambda>sent. wake n (case sent of Some ch \<Rightarrow> c\<lparr>c_stateCh := ch\<rparr> | None \<Rightarrow> c))"

definition end_once :: "int \<Rightarrow> call_state \<Rightarrow> string \<Rightarrow> call \<Rightarrow> call go" where
  "end_once now s reason c =
     (if s = StateEnded \<and> c_endedAt c = None then
        go_bind (close_chan (c_doneCh c))
          (\<lambda>ch. Ret (effect SpawnStopMedia (effect (Unregister (call_CallID c))
             (c\<lparr>c_endedAt := Some now, c_endReason := reason, c_doneCh := ch\<rparr>))))
      else Ret c)"

definition setState :: "int \<Rightarrow> call_state \<Rightarrow> string \<Rightarrow> call \<Rightarrow> call go" where
  "setState now s reason c =
     (if s = c_state c then Ret c
      else let c1 = c\<lparr>c_state := s\<rparr>;
               c2 = (if s = StateAnswered \<and> c_answeredAt c1 = None
                     then c1\<lparr>c_answeredAt := Some now\<rparr> else c1)
           in go_bind (end_once now s reason c2) (wake 4))"

text \<open>
  What the rest of the program does to a call while an operation is blocked in the stack: the
  dialog ends, a message or a digit is recorded, the state changes in another goroutine's operation.
\<close>

datatype call_event =
    DialogEnded int
  | GotMessage message
  | SentMessage message
  | GotDigit string int
  | OtherSetState int call_state string

fun apply_event :: "call_event \<Rightarrow> call \<Rightarrow> call go" where
  "apply_event (DialogEnded now) c = setState now StateEnded ''remote-bye'' c"
| "apply_event (GotMessage m) c = Ret (recordReceived m c)"
| "apply_event (SentMessage m) c = Ret (recordSent m c)"
| "apply_event (GotDigit d now) c = Ret (c\<lparr>c_dtmf := c_dtmf c @ [(d, now)]\<rparr>)"
| "apply_event (OtherSetState now s reason) c = setState now s reason c"

definition meanwhile :: "call_event list \<Rightarrow> call \<Rightarrow> call go" where
  "meanwhile evs c = go_fold apply_event evs c"

record dialog_reply =
  dr_err :: "string option"
  dr_meanwhile :: "call_event list"
  dr_now :: int

section \<open>Inbound signalling\<close>

text \<open>The tail that \<open>Trying\<close>, \<open>Ringing\<close> and \<open>SendEarlyMedia183\<close> share: send, then change the state.\<close>

definition send_then :: "string \<Rightarrow> call_state \<Rightarrow> dialog_reply \<Rightarrow> call \<Rightarrow> (call_error option \<times> call) go" where
  "send_then op target rep c =
     go_bind (meanwhile (dr_meanwhile rep) c)
       (\<lambda>c1. case dr_err rep of
            Some err \<Rightarrow> Ret (Some (Wrapped op err), c1)
          | None \<Rightarrow> go_bind (setState (dr_now rep) target [] c1) (\<lambda>c2. Ret (None, c2)))"

definition Trying :: "dialog_reply \<Rightarrow> call \<Rightarrow> (call_error option \<times> call) go" where
  "Trying rep c =
     (if c_direction c \<noteq> Inbound then Ret (Some (Plain ''Trying: inbound only''), c)
      else if c_state c \<noteq> StateInit then Ret (Some (InvalidState ''Trying'' (c_state c) [StateInit]), c)
      else send_then ''Trying'' StateTrying rep c)"

definition Ringing :: "dialog_reply \<Rightarrow> call \<Rightarrow> (call_error option \<times> call) go" where
  "Ringing rep c =
     (if c_direction c \<noteq> Inbound then Ret (Some (Plain ''Ringing: inbound only''), c)
      else if c_state c \<noteq> StateInit \<and> c_state c \<noteq> StateTrying then
        Ret (Some (InvalidState ''Ringing'' (c_state c) [StateInit, StateTrying]), c)
      else send_then ''Ringing'' StateRinging rep c)"

definition SendEarlyMedia183 :: "string \<Rightarrow> dialog_reply \<Rightarrow> call \<Rightarrow> (call_error option \<times> call) go" where
  "SendEarlyMedia183 sdp rep c =
     (if c_direction c \<noteq> Inbound then Ret (Some (Plain ''SendEarlyMedia183: inbound only''), c)
      else if c_state c \<noteq> StateInit \<and> c_state c \<noteq> StateTrying \<and> c_state c \<noteq> StateRinging then
        Ret (Some (InvalidState ''SendEarlyMedia183'' (c_state c) [StateInit, StateTrying, StateRinging]), c)
      else send_then ''SendEarlyMedia183'' StateRinging rep c)"

text \<open>\<open>codec\<close> is what the stack's audio reader reports as negotiated; its error is ignored.\<close>

definition Answer :: "string \<Rightarrow> dialog_reply \<Rightarrow> call \<Rightarrow> (call_error option \<times> call) go" where
  "Answer codec rep c =
     (if c_state c = StateAnswered \<or> c_state c = StateEnded then
        Ret (Some (InvalidState ''Answer'' (c_state c) [StateInit, StateTrying, StateRinging]), c)
      else go_bind (meanwhile (dr_meanwhile rep) c)
        (\<lambda>c1. case (if c_direction c = Inbound then dr_err rep else None) of
             Some err \<Rightarrow> Ret (Some (Wrapped ''Answer'' err), c1)
           | None \<Rightarrow> go_bind (setState (dr_now rep) StateAnswered [] c1)
               (\<lambda>c2. Ret (None, c2\<lparr>c_codec := codec\<rparr>))))"

definition reject :: "string \<Rightarrow> int \<Rightarrow> string \<Rightarrow> dialog_reply \<Rightarrow> call \<Rightarrow> (call_error option \<times> call) go" where
  "reject name rcode reason rep c =
     (if c_direction c \<noteq> Inbound then Ret (Some (Plain (name @ '': inbound only'')), c)
      else if rcode < 400 \<or> rcode > 699 then
        Ret (Some (Plain (name @ '': code '' @ itoa rcode @ '' is not a failure response'')), c)
      else if c_state c = StateAnswered \<or> c_state c = StateEnded then
        Ret (Some (InvalidState name (c_state c) [StateInit, StateTrying, StateRinging]), c)
      else go_bind (meanwhile (dr_meanwhile rep) c)
        (\<lambda>c1. case dr_err rep of
             Some err \<Rightarrow> Ret (Some (Wrapped name err), c1)
           | None \<Rightarrow>
               go_bind (setState (dr_now rep) StateEnded (''rejected '' @ itoa rcode @ '' '' @ reason) c1)
                 (\<lambda>c2. Ret (None, c2))))"

definition Reject :: "int \<Rightarrow> string \<Rightarrow> dialog_reply \<Rightarrow> call \<Rightarrow> (call_error option \<times> call) go" where
  "Reject rcode reason rep c = reject ''Reject'' rcode reason rep c"

definition RejectWithHeaders :: "int \<Rightarrow> string \<Rightarrow> dialog_reply \<Rightarrow> call \<Rightarrow> (call_error option \<times> call) go" where
  "RejectWithHeaders rcode reason rep c = reject ''RejectWithHeaders'' rcode reason rep c"

section \<open>Ending the media\<close>

text \<open>
  \<open>hook\<close> says whether \<open>ArchiveHook\<close> is installed. \<open>filepath.Base\<close> and \<open>filepath.Ext\<close> of a path
  without a trailing slash.
\<close>

definition path_base :: "string \<Rightarrow> string" where
  "path_base p = rev (takeWhile (\<lambda>c. c \<noteq> CHR ''/'') (rev p))"

definition path_ext :: "string \<Rightarrow> string" where
  "path_ext p =
     (let b = path_base p in
      if CHR ''.'' \<in> set b then CHR ''.'' # rev (takeWhile (\<lambda>c. c \<noteq> CHR ''.'') (rev b)) else [])"

definition finalizeRecording :: "bool \<Rightarrow> recording_session \<Rightarrow> call \<Rightarrow> recording_session \<times> call" where
  "finalizeRecording hook sess c =
     (if \<not> hook \<or> c_owner c = [] \<or> rs_path sess = [] then (sess, c)
      else if rs_archived sess then (sess, c)
      else (sess\<lparr>rs_archived := True\<rparr>,
            let base = path_base (rs_path sess);
                role = trim_suffix base (path_ext base)
            in effect (Archive (c_owner c) role (rs_path sess)) c))"

text \<open>\<open>drained\<close> says whether the audio pump exited within the grace period.\<close>

definition stopMedia :: "bool \<Rightarrow> bool \<Rightarrow> call \<Rightarrow> call" where
  "stopMedia hook drained c =
     (let c1 = c\<lparr>c_silence := False, c_recording := None\<rparr> in
      case c_recording c of
        None \<Rightarrow> c1
      | Some rec \<Rightarrow>
          if drained then snd (finalizeRecording hook rec (effect (CloseFile (rs_path rec)) c1))
          else c1)"

definition StopRecording :: "bool \<Rightarrow> call \<Rightarrow> call" where
  "StopRecording hook c =
     (case c_recording c of
        None \<Rightarrow> c
      | Some rec \<Rightarrow>
          snd (finalizeRecording hook rec (effect (CloseFile (rs_path rec)) (c\<lparr>c_recording := None\<rparr>))))"

section \<open>In-dialog requests\<close>

record do_reply =
  do_contact :: "string option"
  do_res :: "sip_response option"
  do_err :: "string option"
  do_meanwhile :: "call_event list"
  do_now :: int

definition in_dialog_request :: "string \<Rightarrow> string \<Rightarrow> string option \<Rightarrow> headers \<Rightarrow> sip_request" where
  "in_dialog_request method contentType body extra =
     \<lparr>rq_Method = method,
      rq_Headers = (if contentType \<noteq> [] then [(''Content-Type'', contentType)] else []) @ extra,
      rq_CallID = None, rq_CSeq = None, rq_Body = (case body of Some b \<Rightarrow> b | None \<Rightarrow> [])\<rparr>"

text \<open>Sending a request and recording both sides of it: the result is the response and the error.\<close>

definition transact ::
  "do_reply \<Rightarrow> sip_request \<Rightarrow> call \<Rightarrow> call go" where
  "transact rep req c =
     go_bind (meanwhile (do_meanwhile rep) (recordSent (newRequestMsg MsgSent (do_now rep) req) c))
       (\<lambda>c1. Ret (case do_res rep of
            None \<Rightarrow> c1
          | Some res \<Rightarrow> recordReceived (newResponseMsg MsgRecv (do_now rep) res) c1))"

definition doInDialog ::
  "string \<Rightarrow> string \<Rightarrow> string option \<Rightarrow> headers \<Rightarrow> do_reply \<Rightarrow> call
     \<Rightarrow> ((sip_response option \<times> call_error option) \<times> call) go" where
  "doInDialog method contentType body extra rep c =
     (if c_state c \<noteq> StateAnswered then
        Ret ((None, Some (InvalidState method (c_state c) [StateAnswered])), c)
      else case do_contact rep of
        None \<Rightarrow> Ret ((None, Some (Plain (method @ '': no remote contact on dialog''))), c)
      | Some contact \<Rightarrow>
          go_bind (transact rep (in_dialog_request method contentType body extra) c)
            (\<lambda>c1. Ret ((do_res rep, map_option Plain (do_err rep)), c1)))"

definition SendInfo ::
  "string \<Rightarrow> string option \<Rightarrow> headers \<Rightarrow> do_reply \<Rightarrow> call
     \<Rightarrow> ((sip_response option \<times> call_error option) \<times> call) go" where
  "SendInfo contentType body extra rep c = doInDialog ''INFO'' contentType body extra rep c"

definition SendMessage ::
  "string \<Rightarrow> string option \<Rightarrow> headers \<Rightarrow> do_reply \<Rightarrow> call
     \<Rightarrow> ((sip_response option \<times> call_error option) \<times> call) go" where
  "SendMessage contentType body extra rep c = doInDialog ''MESSAGE'' contentType body extra rep c"

definition SendRefer :: "dialog_reply \<Rightarrow> call \<Rightarrow> (call_error option \<times> call) go" where
  "SendRefer rep c =
     (if c_state c \<noteq> StateAnswered then Ret (Some (InvalidState ''SendRefer'' (c_state c) [StateAnswered]), c)
      else go_bind (meanwhile (dr_meanwhile rep) c)
        (\<lambda>c1. Ret (map_option Plain (dr_err rep), c1)))"

definition reinvite_request :: "sip_request \<Rightarrow> string \<Rightarrow> headers \<Rightarrow> sip_request" where
  "reinvite_request invite sdp hdrs =
     \<lparr>rq_Method = ''INVITE'',
      rq_Headers = take 1 (filter (\<lambda>h. equal_fold (fst h) ''Contact'') (rq_Headers invite))
        @ [(''Content-Type'', ''application/sdp'')] @ hdrs,
      rq_CallID = None, rq_CSeq = None, rq_Body = sdp\<rparr>"

definition ack_request :: sip_request where
  "ack_request = \<lparr>rq_Method = ''ACK'', rq_Headers = [], rq_CallID = None, rq_CSeq = None, rq_Body = []\<rparr>"

text \<open>
  The two re-INVITE operations after their guards. \<open>ack_err\<close> is the error of writing the ACK.
  Without a response and without an error the code would dereference nil. They differ in what
  a non-2xx response is: an error, or a result.
\<close>

definition reinvite ::
  "string \<Rightarrow> bool \<Rightarrow> sip_request \<Rightarrow> do_reply \<Rightarrow> string option \<Rightarrow> call
     \<Rightarrow> ((sip_response option \<times> call_error option) \<times> call) go" where
  "reinvite op reject_is_error req rep ack_err c =
     go_bind (transact rep req c)
       (\<lambda>c1. case do_err rep of
            Some err \<Rightarrow> Ret ((do_res rep, Some (Wrapped op err)), c1)
          | None \<Rightarrow>
              (case do_res rep of
                 None \<Rightarrow> Panic
               | Some res \<Rightarrow>
                   if rp_StatusCode res < 200 \<or> rp_StatusCode res \<ge> 300 then
                     Ret ((Some res, if reject_is_error
                        then Some (Plain (''reinvite rejected: '' @ itoa (rp_StatusCode res) @ '' '' @ rp_Reason res))
                        else None), c1)
                   else Ret ((Some res, map_option Plain ack_err),
                             recordSent (newRequestMsg MsgSent (do_now rep) ack_request) c1)))"

definition SendReinvite ::
  "headers \<Rightarrow> string \<Rightarrow> do_reply \<Rightarrow> string option \<Rightarrow> call
     \<Rightarrow> ((sip_response option \<times> call_error option) \<times> call) go" where
  "SendReinvite hdrs local_sdp rep ack_err c =
     (if c_direction c \<noteq> Outbound then Ret ((None, Some (Plain ''SendReinvite: outbound only'')), c)
      else if c_state c \<noteq> StateAnswered then
        Ret ((None, Some (InvalidState ''SendReinvite'' (c_state c) [StateAnswered])), c)
      else case do_contact rep of
        None \<Rightarrow> Ret ((None, Some (Plain ''SendReinvite: no remote contact on dialog'')), c)
      | Some contact \<Rightarrow>
          if local_sdp = [] then Ret ((None, Some (Plain ''SendReinvite: no local SDP on dialog'')), c)
          else reinvite ''SendReinvite'' True (reinvite_request (c_invite c) local_sdp hdrs) rep ack_err c)"

definition SendReinviteWithSDP ::
  "string \<Rightarrow> headers \<Rightarrow> do_reply \<Rightarrow> string option \<Rightarrow> call
     \<Rightarrow> ((sip_response option \<times> call_error option) \<times> call) go" where
  "SendReinviteWithSDP sdp hdrs rep ack_err c =
     (if c_direction c \<noteq> Outbound then Ret ((None, Some (Plain ''SendReinviteWithSDP: outbound only'')), c)
      else if c_state c \<noteq> StateAnswered then
        Ret ((None, Some (InvalidState ''SendReinviteWithSDP'' (c_state c) [StateAnswered])), c)
      else if sdp = [] then Ret ((None, Some (Plain ''SendReinviteWithSDP: empty sdp'')), c)
      else case do_contact rep of
        None \<Rightarrow> Ret ((None, Some (Plain ''SendReinviteWithSDP: no remote contact on dialog'')), c)
      | Some contact \<Rightarrow>
          reinvite ''SendReinviteWithSDP'' False (reinvite_request (c_invite c) sdp hdrs) rep ack_err c)"

section \<open>Hanging up\<close>

definition Hangup :: "bool \<Rightarrow> bool \<Rightarrow> dialog_reply \<Rightarrow> call \<Rightarrow> (call_error option \<times> call) go" where
  "Hangup hook drained rep c =
     (if c_state c = StateEnded then Ret (None, c)
      else go_bind (meanwhile (dr_meanwhile rep) (stopMedia hook drained c))
        (\<lambda>c1. case dr_err rep of
             Some err \<Rightarrow>
               go_bind (setState (dr_now rep) StateEnded (''hangup-err: '' @ err) c1) (\<lambda>c2. Ret (None, c2))
           | None \<Rightarrow>
               go_bind (setState (dr_now rep) StateEnded ''local-hangup'' c1) (\<lambda>c2. Ret (None, c2))))"

text \<open>The call can end while \<open>stopMedia\<close> waits; \<open>doInDialog\<close> then checks the state again.\<close>

definition HangupWithHeaders ::
  "bool \<Rightarrow> bool \<Rightarrow> call_event list \<Rightarrow> headers \<Rightarrow> do_reply \<Rightarrow> call \<Rightarrow> (call_error option \<times> call) go" where
  "HangupWithHeaders hook drained while_stopping extra rep c =
     (if c_state c \<noteq> StateAnswered then
        Ret (Some (InvalidState ''HangupWithHeaders'' (c_state c) [StateAnswered]), c)
      else go_bind (go_bind (meanwhile while_stopping (stopMedia hook drained c))
                      (doInDialog ''BYE'' [] None extra rep))
        (\<lambda>((res, err), c1). case err of
             Some e \<Rightarrow>
               go_bind (setState (do_now rep) StateEnded (''hangup-err: '' @ call_error_text e) c1)
                 (\<lambda>c2. Ret (Some (Wrapped ''HangupWithHeaders'' (call_error_text e)), c2))
           | None \<Rightarrow>
               go_bind (setState (do_now rep) StateEnded ''local-hangup'' c1)
                 (\<lambda>c2. Ret (case res of
                      Some r \<Rightarrow>
                        if rp_StatusCode r \<ge> 300
                        then Some (Plain (''HangupWithHeaders: BYE rejected '' @ itoa (rp_StatusCode r)
                                          @ '' '' @ rp_Reason r))
                        else None
                    | None \<Rightarrow> None, c2))))"

section \<open>Reading a call\<close>

definition call_Header :: "string \<Rightarrow> call \<Rightarrow> string" where
  "call_Header name c = ci_lookup name (rq_Headers (c_invite c))"

definition Duration :: "int \<Rightarrow> call \<Rightarrow> int" where
  "Duration now c =
     (case c_answeredAt c of
        None \<Rightarrow> 0
      | Some a \<Rightarrow> (case c_endedAt c of None \<Rightarrow> now | Some e \<Rightarrow> e) - a)"

definition ReceivedByMethod :: "string \<Rightarrow> call \<Rightarrow> message list" where
  "ReceivedByMethod method c = filter (\<lambda>m. ms_Method m = method) (c_recv c)"

definition SentByStatus :: "int \<Rightarrow> call \<Rightarrow> message list" where
  "SentByStatus status c = filter (\<lambda>m. ms_StatusCode m = status) (c_sent c)"

definition ReceivedByStatus :: "int \<Rightarrow> call \<Rightarrow> message list" where
  "ReceivedByStatus status c = filter (\<lambda>m. ms_StatusCode m = status) (c_recv c)"

definition answer_side :: "call \<Rightarrow> message list" where
  "answer_side c = (if c_direction c = Outbound then c_recv c else c_sent c)"

definition AnsweredStatus :: "call \<Rightarrow> int" where
  "AnsweredStatus c =
     (case List.find (\<lambda>m. 200 \<le> ms_StatusCode m \<and> ms_StatusCode m < 300 \<and> ms_Method m = ''INVITE'')
             (rev (answer_side c)) of
        Some m \<Rightarrow> ms_StatusCode m | None \<Rightarrow> 0)"

definition AnsweredResponse :: "call \<Rightarrow> message option" where
  "AnsweredResponse c =
     List.find (\<lambda>m. ms_StatusCode m = 200 \<and> ms_Method m = ''INVITE'') (rev (answer_side c))"

definition MethodsReceived :: "call \<Rightarrow> string list" where
  "MethodsReceived c = map ms_Method (filter (\<lambda>m. ms_Method m \<noteq> []) (c_recv c))"

definition match_request :: "string list \<Rightarrow> message list \<Rightarrow> message option" where
  "match_request methods recv =
     List.find (\<lambda>m. ms_StatusCode m = 0 \<and> (\<exists>method\<in>set methods. equal_fold (ms_Method m) method)) recv"

text \<open>
  Polling: each round sees the branch its \<open>select\<close> took (the context's error, or a tick) and the
  messages recorded by then. Waiting for a state: each round sees the state and then the
  branch (the context's error, or a wake-up).
\<close>

datatype 'a poll = PollOk 'a | PollCtx string | PollPending

fun await_ticks :: "string list \<Rightarrow> (string option \<times> message list) list \<Rightarrow> message poll" where
  "await_ticks methods [] = PollPending"
| "await_ticks methods ((done, recv) # rs) =
     (case done of
        Some err \<Rightarrow> PollCtx err
      | None \<Rightarrow> (case match_request methods recv of
                   Some m \<Rightarrow> PollOk m | None \<Rightarrow> await_ticks methods rs))"

definition AwaitReceivedRequest ::
  "string list \<Rightarrow> message list \<Rightarrow> (string option \<times> message list) list \<Rightarrow> message poll" where
  "AwaitReceivedRequest methods recv rounds =
     (case match_request methods recv of Some m \<Rightarrow> PollOk m | None \<Rightarrow> await_ticks methods rounds)"

fun WaitState :: "call_state \<Rightarrow> (call_state \<times> string option) list \<Rightarrow> (call_error option) poll" where
  "WaitState target [] = PollPending"
| "WaitState target ((s, done) # rs) =
     (if s = target then PollOk None
      else if s = StateEnded \<and> target \<noteq> StateEnded then PollOk (Some (InvalidState ''WaitState'' s [target]))
      else case done of Some err \<Rightarrow> PollCtx err | None \<Rightarrow> WaitState target rs)"

section \<open>The end of a call\<close>

text \<open>
  The invariant that every state change and every recording keeps: the done channel is closed
  exactly when the end has been stamped, the call has then been unregistered exactly once, and
  the wake-up channel is open.
\<close>

definition unregistered :: "call \<Rightarrow> nat" where
  "unregistered c = length (filter (\<lambda>e. \<exists>i. e = Unregister i) (c_effects c))"

definition call_ok :: "call \<Rightarrow> bool" where
  "call_ok c \<longleftrightarrow>
     (ch_closed (c_doneCh c) \<longleftrightarrow> c_endedAt c \<noteq> None)
     \<and> (c_state c = StateEnded \<longrightarrow> c_endedAt c \<noteq> None)
     \<and> (c_state c = StateAnswered \<longrightarrow> c_answeredAt c \<noteq> None)
     \<and> unregistered c = (if c_endedAt c = None then 0 else 1)
     \<and> \<not> ch_closed (c_stateCh c) \<and> ch_cap (c_stateCh c) = 1 \<and> length (ch_buf (c_stateCh c)) \<le> 1"

lemma unregistered_effect [simp]:
  "unregistered (effect e c) = unregistered c + (case e of Unregister i \<Rightarrow> 1 | _ \<Rightarrow> 0)"
  by (cases e) (auto simp: unregistered_def effect_def)

lemma effect_simps [simp]:
  "c_state (effect e c) = c_state c" "c_endedAt (effect e c) = c_endedAt c" "c_answeredAt (effect e c) = c_answeredAt c"
  "c_doneCh (effect e c) = c_doneCh c" "c_stateCh (effect e c) = c_stateCh c" "c_endReason (effect e c) = c_endReason c"
  "c_recv (effect e c) = c_recv c" "c_sent (effect e c) = c_sent c" "c_direction (effect e c) = c_direction c"
  by (simp_all add: effect_def)

lemma wake_ok:
  assumes "\<not> ch_closed (c_stateCh c)" and "ch_cap (c_stateCh c) = 1" and "length (ch_buf (c_stateCh c)) \<le> 1"
  shows "wake (Suc n) c = Ret (c\<lparr>c_stateCh := (c_stateCh c)\<lparr>ch_buf := [()]\<rparr>\<rparr>)"
  using assms
proof (induction n arbitrary: c)
  case 0
  then show ?case
    by (cases "ch_buf (c_stateCh c)") (auto simp: try_send_open)
next
  case (Suc n)
  let ?d = "c\<lparr>c_stateCh := (c_stateCh c)\<lparr>ch_buf := [()]\<rparr>\<rparr>"
  have "try_send () (c_stateCh c) = Ret (if ch_buf (c_stateCh c) = [] then Some ((c_stateCh c)\<lparr>ch_buf := [()]\<rparr>) else None)"
    using Suc.prems by (cases "ch_buf (c_stateCh c)") (auto simp: try_send_open)
  moreover have "wake (Suc n) ?d = Ret ?d" using Suc.IH [of ?d] Suc.prems by simp
  moreover have "wake (Suc n) c = Ret ?d" using Suc.IH [of c] Suc.prems by simp
  ultimately show ?case by (auto simp del: wake.simps(2) simp: wake.simps(2) [of "Suc n"])
qed

lemma wake_4:
  assumes "\<not> ch_closed (c_stateCh c)" and "ch_cap (c_stateCh c) = 1" and "length (ch_buf (c_stateCh c)) \<le> 1"
  shows "wake 4 c = Ret (c\<lparr>c_stateCh := (c_stateCh c)\<lparr>ch_buf := [()]\<rparr>\<rparr>)"
  using wake_ok [OF assms, of 3] by (simp add: eval_nat_numeral del: wake.simps)

text \<open>What one state change does, in full.\<close>

lemma setState_spec:
  assumes "call_ok c"
  shows "\<exists>d. setState now s reason c = Ret d \<and> call_ok d \<and> c_state d = s
     \<and> c_endedAt d = (if s = StateEnded \<and> c_endedAt c = None then Some now else c_endedAt c)
     \<and> c_endReason d = (if s = StateEnded \<and> c_endedAt c = None then reason else c_endReason c)
     \<and> c_answeredAt d = (if s = StateAnswered \<and> c_answeredAt c = None then Some now else c_answeredAt c)
     \<and> c_direction d = c_direction c \<and> c_recv d = c_recv c \<and> c_sent d = c_sent c"
proof (cases "s = c_state c")
  case True
  then show ?thesis using assms by (auto simp: setState_def call_ok_def)
next
  case False
  let ?c2 = "if s = StateAnswered \<and> c_answeredAt c = None
     then c\<lparr>c_state := s, c_answeredAt := Some now\<rparr> else c\<lparr>c_state := s\<rparr>"
  let ?c3 = "if s = StateEnded \<and> c_endedAt c = None
     then effect SpawnStopMedia (effect (Unregister (call_CallID ?c2))
        (?c2\<lparr>c_endedAt := Some now, c_endReason := reason, c_doneCh := (c_doneCh c)\<lparr>ch_closed := True\<rparr>\<rparr>)) else ?c2"
  have "setState now s reason c = go_bind (end_once now s reason ?c2) (wake 4)"
    using False by (auto simp: setState_def Let_def)
  also have "end_once now s reason ?c2 = Ret ?c3"
    using assms by (auto simp: end_once_def close_chan_def call_ok_def)
  finally have "setState now s reason c = wake 4 ?c3" by simp
  also have "\<dots> = Ret (?c3\<lparr>c_stateCh := (c_stateCh ?c3)\<lparr>ch_buf := [()]\<rparr>\<rparr>)"
    by (rule wake_4) (use assms in \<open>auto simp: call_ok_def\<close>)
  finally show ?thesis using assms by (auto simp: call_ok_def unregistered_def effect_def)
qed

text \<open>What survives anything that happens to a call: who called whom, and a stamped end.\<close>

definition keeps_end :: "call \<Rightarrow> call \<Rightarrow> bool" where
  "keeps_end c d \<longleftrightarrow> c_direction d = c_direction c \<and>
     (c_endedAt c \<noteq> None \<longrightarrow> c_endedAt d = c_endedAt c \<and> c_endReason d = c_endReason c)"

lemma keeps_end_refl [simp]: "keeps_end c c"
  by (simp add: keeps_end_def)

lemma keeps_end_trans: "keeps_end c d \<Longrightarrow> keeps_end d e \<Longrightarrow> keeps_end c e"
  by (auto simp: keeps_end_def)

definition good :: "call \<Rightarrow> call \<Rightarrow> bool" where
  "good c d \<longleftrightarrow> call_ok d \<and> keeps_end c d"

lemma good_refl: "call_ok c \<Longrightarrow> good c c"
  by (simp add: good_def)

lemma good_trans: "good c d \<Longrightarrow> good d e \<Longrightarrow> good c e"
  by (auto simp: good_def intro: keeps_end_trans)

lemma setState_good:
  "call_ok c \<Longrightarrow> \<exists>d. setState now s reason c = Ret d \<and> good c d \<and> c_state d = s
     \<and> c_recv d = c_recv c \<and> c_sent d = c_sent c"
  using setState_spec [of c now s reason] by (auto simp: good_def keeps_end_def)

lemma record_good: "call_ok c \<Longrightarrow> good c (recordSent m c) \<and> good c (recordReceived m c)"
  by (simp add: good_def keeps_end_def call_ok_def recordSent_def recordReceived_def unregistered_def)

lemma digit_good: "call_ok c \<Longrightarrow> good c (c\<lparr>c_dtmf := x\<rparr>)"
  by (simp add: good_def keeps_end_def call_ok_def unregistered_def)

lemma apply_event_good: "call_ok c \<Longrightarrow> \<exists>d. apply_event e c = Ret d \<and> good c d"
  by (cases e) (use setState_good record_good digit_good in \<open>fastforce+\<close>)

interpretation events: guarded_machine apply_event call_ok
  by unfold_locales (use apply_event_good in \<open>auto simp: good_def\<close>)

lemma meanwhile_good: "call_ok c \<Longrightarrow> \<exists>d. meanwhile evs c = Ret d \<and> good c d"
proof -
  assume c: "call_ok c"
  from events.run_ok [OF c] obtain d where d: "meanwhile evs c = Ret d" "call_ok d"
    by (auto simp: meanwhile_def)
  have step: "keeps_end c t" if "call_ok s" "keeps_end c s" "apply_event e s = Ret t" for e s t
    using apply_event_good [OF that(1), of e] that(2,3) by (auto simp: good_def intro: keeps_end_trans)
  have "keeps_end c d"
    by (rule events.run_keeps [where Q = "keeps_end c" and E = UNIV and s = c and es = evs])
      (use step c d(1) in \<open>auto simp: meanwhile_def\<close>)
  with d show ?thesis by (simp add: good_def)
qed

lemma good_ok: "good c d \<Longrightarrow> call_ok d"
  by (simp add: good_def)

lemma good_setState: "good c d \<Longrightarrow> \<exists>e. setState now s r d = Ret e \<and> good c e \<and> c_state e = s"
  using setState_good [OF good_ok, of c d now s r] good_trans by blast

lemma good_meanwhile: "good c d \<Longrightarrow> \<exists>e. meanwhile evs d = Ret e \<and> good c e"
  using meanwhile_good [OF good_ok, of c d evs] good_trans by blast

lemma meanwhile_Nil [simp]: "meanwhile [] c = Ret c"
  by (simp add: meanwhile_def)

lemma send_then_good:
  "call_ok c \<Longrightarrow> \<exists>err d. send_then op target rep c = Ret (err, d) \<and> good c d"
proof -
  assume "call_ok c"
  from meanwhile_good [OF this] obtain d where d: "meanwhile (dr_meanwhile rep) c = Ret d" "good c d" by blast
  then obtain e where "setState (dr_now rep) target [] d = Ret e" "good c e"
    using good_setState by blast
  with d show ?thesis by (cases "dr_err rep") (auto simp: send_then_def)
qed

lemma media_good:
  "call_ok c \<Longrightarrow> good c (stopMedia hook drained c)" "call_ok c \<Longrightarrow> good c (StopRecording hook c)"
  by (auto simp: stopMedia_def StopRecording_def finalizeRecording_def Let_def good_def keeps_end_def call_ok_def
      unregistered_def effect_def split: option.split)

lemma stopMedia_state [simp]: "c_state (stopMedia hook drained c) = c_state c"
  by (simp add: stopMedia_def finalizeRecording_def Let_def effect_def split: option.split)

lemma transact_good: "call_ok c \<Longrightarrow> \<exists>d. transact rep req c = Ret d \<and> good c d"
proof -
  assume c: "call_ok c"
  let ?c = "recordSent (newRequestMsg MsgSent (do_now rep) req) c"
  have "good c ?c" using record_good [OF c] by blast
  from good_meanwhile [OF this] obtain d where d: "meanwhile (do_meanwhile rep) ?c = Ret d" and g: "good c d"
    by blast
  show ?thesis
  proof (cases "do_res rep")
    case None
    then show ?thesis using d g by (simp add: transact_def)
  next
    case (Some res)
    have "good d (recordReceived (newResponseMsg MsgRecv (do_now rep) res) d)"
      using g record_good by (simp add: good_def)
    then show ?thesis using Some d g good_trans by (auto simp: transact_def)
  qed
qed

lemma doInDialog_good:
  "call_ok c \<Longrightarrow> \<exists>res err d. doInDialog method ct body extra rep c = Ret ((res, err), d) \<and> good c d"
proof -
  assume c: "call_ok c"
  from transact_good [OF this] obtain d where
    "transact rep (in_dialog_request method ct body extra) c = Ret d" "good c d" by blast
  then show ?thesis using good_refl [OF c] by (cases "do_contact rep") (auto simp: doInDialog_def)
qed

definition reply_ok :: "do_reply \<Rightarrow> bool" where
  "reply_ok rep \<longleftrightarrow> do_err rep \<noteq> None \<or> do_res rep \<noteq> None"

lemma reinvite_good:
  assumes "call_ok c" and "reply_ok rep"
  shows "\<exists>res err d. reinvite op flag req rep ack_err c = Ret ((res, err), d) \<and> good c d"
proof -
  from transact_good [OF assms(1)] obtain d where d: "transact rep req c = Ret d" "good c d" by blast
  then have "good d (recordSent m d)" for m using record_good by (simp add: good_def)
  with d good_trans have "good c (recordSent m d)" for m by blast
  with d assms(2) show ?thesis
    by (auto simp: reinvite_def reply_ok_def split: option.splits)
qed

lemma Hangup_spec:
  assumes "call_ok c"
  shows "\<exists>d. Hangup hook drained rep c = Ret (None, d) \<and> good c d \<and> c_state d = StateEnded"
proof (cases "c_state c = StateEnded")
  case True
  then show ?thesis using assms by (simp add: Hangup_def good_refl)
next
  case False
  have m: "good c (stopMedia hook drained c)" using media_good assms by blast
  then obtain d where d: "meanwhile (dr_meanwhile rep) (stopMedia hook drained c) = Ret d" "good c d"
    using good_meanwhile by blast
  then have "\<exists>e. setState (dr_now rep) StateEnded r d = Ret e \<and> good c e \<and> c_state e = StateEnded" for r
    using good_setState by blast
  with False d show ?thesis by (cases "dr_err rep") (auto simp: Hangup_def)
qed

lemma HangupWithHeaders_good:
  assumes "call_ok c"
  shows "\<exists>err d. HangupWithHeaders hook drained evs extra rep c = Ret (err, d) \<and> good c d
     \<and> (c_state c = StateAnswered \<longrightarrow> c_state d = StateEnded)"
proof (cases "c_state c = StateAnswered")
  case False
  then show ?thesis using assms by (simp add: HangupWithHeaders_def good_refl)
next
  case True
  have m: "good c (stopMedia hook drained c)" using media_good assms by blast
  then obtain d where d: "meanwhile evs (stopMedia hook drained c) = Ret d" "good c d"
    using good_meanwhile by blast
  with doInDialog_good [OF good_ok [OF d(2)], of "''BYE''" "[]" None extra rep]
  obtain res err e where e: "doInDialog ''BYE'' [] None extra rep d = Ret ((res, err), e)" "good c e"
    using good_trans by blast
  obtain f where "setState (do_now rep) StateEnded
      (case err of Some x \<Rightarrow> ''hangup-err: '' @ call_error_text x | None \<Rightarrow> ''local-hangup'') e = Ret f"
    "good c f" "c_state f = StateEnded" using good_setState [OF e(2)] by blast
  with True d e show ?thesis by (cases err) (auto simp: HangupWithHeaders_def)
qed

section \<open>The leg as a machine\<close>

text \<open>
  One step is one operation of a test, with what the stack answers and what other goroutines do
  in between, or one of those events alone. A re-INVITE relies on the stack to answer with a
  response or an error: \<open>op_replies\<close> says so of an operation.
\<close>

datatype call_op =
    OpTrying dialog_reply
  | OpRinging dialog_reply
  | OpEarlyMedia string dialog_reply
  | OpAnswer string dialog_reply
  | OpReject string int string dialog_reply
  | OpInDialog string string "string option" headers do_reply
  | OpRefer dialog_reply
  | OpReinvite headers string do_reply "string option"
  | OpReinviteSDP string headers do_reply "string option"
  | OpHangup bool bool dialog_reply
  | OpHangupHeaders bool bool "call_event list" headers do_reply
  | OpStopRecording bool
  | OpEvent call_event

definition after :: "('a \<times> call) go \<Rightarrow> call go" where
  "after m = go_bind m (\<lambda>(_, c). Ret c)"

fun call_step :: "call_op \<Rightarrow> call \<Rightarrow> call go" where
  "call_step (OpTrying rep) c = after (Trying rep c)"
| "call_step (OpRinging rep) c = after (Ringing rep c)"
| "call_step (OpEarlyMedia sdp rep) c = after (SendEarlyMedia183 sdp rep c)"
| "call_step (OpAnswer codec rep) c = after (Answer codec rep c)"
| "call_step (OpReject name n reason rep) c = after (reject name n reason rep c)"
| "call_step (OpInDialog m ct b hs rep) c = after (doInDialog m ct b hs rep c)"
| "call_step (OpRefer rep) c = after (SendRefer rep c)"
| "call_step (OpReinvite hs sdp rep e) c = after (SendReinvite hs sdp rep e c)"
| "call_step (OpReinviteSDP sdp hs rep e) c = after (SendReinviteWithSDP sdp hs rep e c)"
| "call_step (OpHangup hook drained rep) c = after (Hangup hook drained rep c)"
| "call_step (OpHangupHeaders hook drained evs hs rep) c = after (HangupWithHeaders hook drained evs hs rep c)"
| "call_step (OpStopRecording hook) c = Ret (StopRecording hook c)"
| "call_step (OpEvent e) c = apply_event e c"

fun op_replies :: "call_op \<Rightarrow> bool" where
  "op_replies (OpReinvite hs sdp rep e) \<longleftrightarrow> reply_ok rep"
| "op_replies (OpReinviteSDP sdp hs rep e) \<longleftrightarrow> reply_ok rep"
| "op_replies _ \<longleftrightarrow> True"

lemma after_Panic [simp]: "after Panic = Panic"
  by (simp add: after_def)

lemma after_good: "\<exists>x d. m = Ret (x, d) \<and> good c d \<Longrightarrow> \<exists>d. after m = Ret d \<and> good c d"
  by (auto simp: after_def)

lemma Answer_good:
  assumes "call_ok c"
  shows "\<exists>err d. Answer codec rep c = Ret (err, d) \<and> good c d"
proof -
  from meanwhile_good [OF assms] obtain d where d: "meanwhile (dr_meanwhile rep) c = Ret d" "good c d" by blast
  then obtain e where e: "setState (dr_now rep) StateAnswered [] d = Ret e" "good c e"
    using good_setState by blast
  then have "good c (e\<lparr>c_codec := codec\<rparr>)"
    by (simp add: good_def keeps_end_def call_ok_def unregistered_def)
  with d e assms show ?thesis
    by (auto simp: Answer_def good_refl split: option.splits)
qed

lemma reject_good:
  assumes "call_ok c"
  shows "\<exists>err d. reject name n reason rep c = Ret (err, d) \<and> good c d"
proof -
  from meanwhile_good [OF assms] obtain d where d: "meanwhile (dr_meanwhile rep) c = Ret d" "good c d" by blast
  then obtain e where e: "setState (dr_now rep) StateEnded (''rejected '' @ itoa n @ '' '' @ reason) d = Ret e" "good c e"
    using good_setState by blast
  with d assms show ?thesis by (cases "dr_err rep") (auto simp: reject_def good_refl)
qed

text \<open>Without a response and an error a re-INVITE panics, unless its guards end it before it is sent.\<close>

lemma reinvite_cases:
  assumes "call_ok c"
  shows "(\<exists>d. after (reinvite op flag req rep e c) = Ret d \<and> good c d)
     \<or> after (reinvite op flag req rep e c) = Panic \<and> \<not> reply_ok rep"
proof (cases "reply_ok rep")
  case True
  from reinvite_good [OF assms this, of op flag req e] obtain res err d where
    "reinvite op flag req rep e c = Ret ((res, err), d)" "good c d" by blast
  then show ?thesis by (simp add: after_def)
next
  case False
  from transact_good [OF assms, of rep req] obtain d where "transact rep req c = Ret d" by blast
  with False show ?thesis by (auto simp: reinvite_def reply_ok_def)
qed

lemma call_step_reinvite:
  assumes "call_ok c" and "\<not> op_replies op"
  shows "(\<exists>d. call_step op c = Ret d \<and> good c d) \<or> call_step op c = Panic \<and> c_direction c = Outbound"
proof (cases op)
  case (OpReinvite hs sdp rep e)
  with reinvite_cases [OF assms(1), of _ _ _ rep e] good_refl [OF assms(1)] show ?thesis
    by (auto simp: SendReinvite_def after_def [of "Ret _"] split: option.splits)
next
  case (OpReinviteSDP sdp hs rep e)
  with reinvite_cases [OF assms(1), of _ _ _ rep e] good_refl [OF assms(1)] show ?thesis
    by (auto simp: SendReinviteWithSDP_def after_def [of "Ret _"] split: option.splits)
qed (use assms in auto)

lemma call_step_replies:
  assumes "call_ok c" and "op_replies op"
  shows "\<exists>d. call_step op c = Ret d \<and> good c d"
proof (cases op)
  case (OpRefer rep)
  with assms meanwhile_good [of c "dr_meanwhile rep"] show ?thesis
    by (auto simp: SendRefer_def after_def good_refl)
next
  case (OpReinvite hs sdp rep e)
  with assms reinvite_good [of c rep] good_refl [of c] show ?thesis
    by (auto simp: SendReinvite_def split: option.splits intro!: after_good)
next
  case (OpReinviteSDP sdp hs rep e)
  with assms reinvite_good [of c rep] good_refl [of c] show ?thesis
    by (auto simp: SendReinviteWithSDP_def split: option.splits intro!: after_good)
next
  case (OpHangup hook drained rep)
  from Hangup_spec [OF assms(1), of hook drained rep] OpHangup show ?thesis by (auto simp: after_def)
next
  case (OpHangupHeaders hook drained evs hs rep)
  from HangupWithHeaders_good [OF assms(1)] OpHangupHeaders show ?thesis by (fastforce simp: after_def)
next
  case (OpInDialog m ct b hs rep)
  from doInDialog_good [OF assms(1)] OpInDialog show ?thesis by (fastforce simp: after_def)
qed (use assms in \<open>auto simp: Trying_def Ringing_def SendEarlyMedia183_def good_refl media_good apply_event_good Answer_good
       reject_good intro!: after_good send_then_good\<close>)

lemma call_step_result:
  "call_ok c \<Longrightarrow> (\<exists>d. call_step op c = Ret d \<and> good c d)
     \<or> call_step op c = Panic \<and> \<not> op_replies op \<and> c_direction c = Outbound"
  using call_step_reinvite call_step_replies by blast

lemma call_step_good:
  "call_ok c \<Longrightarrow> c_direction c = Inbound \<or> op_replies op \<Longrightarrow> \<exists>d. call_step op c = Ret d \<and> good c d"
  using call_step_result [of c op] by auto

lemma call_step_Ret_good: "call_ok c \<Longrightarrow> call_step op c = Ret d \<Longrightarrow> good c d"
  using call_step_result [of c op] by auto

interpretation leg: risky_machine call_step call_ok "\<lambda>op. \<not> op_replies op"
  by unfold_locales (use call_step_result good_ok in blast)

lemma good_direction: "good c d \<Longrightarrow> c_direction d = c_direction c"
  by (simp add: good_def keeps_end_def)

text \<open>An inbound leg sends no re-INVITE: none of its operations panics.\<close>

interpretation inbound: guarded_machine call_step "\<lambda>c. call_ok c \<and> c_direction c = Inbound"
  by unfold_locales (use call_step_good good_ok good_direction in fastforce)

lemma newInboundCall_sel [simp]:
  "c_state (newInboundCall now req owner) = StateInit" "c_endedAt (newInboundCall now req owner) = None"
  "c_direction (newInboundCall now req owner) = Inbound"
  by (simp_all add: newInboundCall_def blank_call_def recordReceived_def Let_def)

lemma call_ok_new [simp]: "call_ok (newInboundCall now req owner)" "call_ok (newOutboundCall now req owner)"
  by (simp_all add: call_ok_def newInboundCall_def newOutboundCall_def blank_call_def recordReceived_def
      recordSent_def unregistered_def effect_def Let_def)

text \<open>The same as a relation, for statements about reachable states.\<close>

inductive leg_step :: "call \<Rightarrow> call \<Rightarrow> bool" where
  "call_step op c = Ret d \<Longrightarrow> leg_step c d"

inductive_cases leg_stepE: "leg_step c d"

lemma leg_step_good:
  assumes "call_ok c" and "leg_step c d"
  shows "good c d"
proof -
  from assms(2) obtain op where "call_step op c = Ret d" by (rule leg_stepE)
  with call_step_Ret_good [OF assms(1)] show ?thesis by blast
qed

interpretation leg_sys: step_system leg_step call_ok
  by unfold_locales (use leg_step_good good_ok in blast)

lemma leg_steps_good: "leg_step\<^sup>*\<^sup>* c d \<Longrightarrow> call_ok c \<Longrightarrow> good c d"
  by (induction rule: rtranclp_induct) (auto intro: good_refl good_trans leg_step_good dest: good_ok)

section \<open>Undisturbed operations\<close>

text \<open>Nothing else happens to the call while the operation is blocked in the stack.\<close>

fun undisturbed :: "call_op \<Rightarrow> bool" where
  "undisturbed (OpTrying rep) \<longleftrightarrow> dr_meanwhile rep = []"
| "undisturbed (OpRinging rep) \<longleftrightarrow> dr_meanwhile rep = []"
| "undisturbed (OpEarlyMedia sdp rep) \<longleftrightarrow> dr_meanwhile rep = []"
| "undisturbed (OpAnswer codec rep) \<longleftrightarrow> dr_meanwhile rep = []"
| "undisturbed (OpReject name n reason rep) \<longleftrightarrow> dr_meanwhile rep = []"
| "undisturbed (OpInDialog m ct b hs rep) \<longleftrightarrow> do_meanwhile rep = []"
| "undisturbed (OpRefer rep) \<longleftrightarrow> dr_meanwhile rep = []"
| "undisturbed (OpReinvite hs sdp rep e) \<longleftrightarrow> do_meanwhile rep = []"
| "undisturbed (OpReinviteSDP sdp hs rep e) \<longleftrightarrow> do_meanwhile rep = []"
| "undisturbed (OpHangup hook drained rep) \<longleftrightarrow> dr_meanwhile rep = []"
| "undisturbed (OpHangupHeaders hook drained evs hs rep) \<longleftrightarrow> evs = [] \<and> do_meanwhile rep = []"
| "undisturbed (OpStopRecording hook) \<longleftrightarrow> True"
| "undisturbed (OpEvent e) \<longleftrightarrow> (\<forall>now s reason. e \<noteq> OtherSetState now s reason)"

lemma setState_state: "call_ok c \<Longrightarrow> setState now s r c = Ret d \<Longrightarrow> c_state d = s"
  using setState_good [of c now s r] by auto

lemma send_then_state:
  "call_ok c \<Longrightarrow> dr_meanwhile rep = [] \<Longrightarrow> send_then op target rep c = Ret (err, d) \<Longrightarrow>
     c_state d = (if dr_err rep = None then target else c_state c)"
  by (auto simp: send_then_def dest: setState_state split: option.splits)

lemma transact_state: "do_meanwhile rep = [] \<Longrightarrow> transact rep req c = Ret d \<Longrightarrow> c_state d = c_state c"
  by (auto simp: transact_def recordSent_def recordReceived_def split: option.splits)

lemma doInDialog_state:
  "do_meanwhile rep = [] \<Longrightarrow> doInDialog m ct b hs rep c = Ret (x, d) \<Longrightarrow> c_state d = c_state c"
  by (auto simp: doInDialog_def dest: transact_state split: if_splits option.splits)

lemma reinvite_state:
  "do_meanwhile rep = [] \<Longrightarrow> reinvite op flag req rep e c = Ret (x, d) \<Longrightarrow> c_state d = c_state c"
proof -
  assume m: "do_meanwhile rep = []" and r: "reinvite op flag req rep e c = Ret (x, d)"
  then obtain c1 where t: "transact rep req c = Ret c1" by (auto simp: reinvite_def)
  have "c_state c1 = c_state c" using transact_state [OF m t] .
  with t r show ?thesis by (auto simp: reinvite_def recordSent_def split: option.splits if_splits)
qed

lemma Answer_state:
  "call_ok c \<Longrightarrow> dr_meanwhile rep = [] \<Longrightarrow> Answer codec rep c = Ret (err, d) \<Longrightarrow>
     c_state d = c_state c \<or> c_state d = StateAnswered \<and> c_state c < StateAnswered"
proof -
  assume c: "call_ok c" and rep: "dr_meanwhile rep = []" and a: "Answer codec rep c = Ret (err, d)"
  from setState_good [OF c, of "dr_now rep" StateAnswered "[]"] obtain e where
    "setState (dr_now rep) StateAnswered [] c = Ret e" "c_state e = StateAnswered" by blast
  with rep a show ?thesis
    by (cases "c_state c") (auto simp: Answer_def state_order split: option.splits)
qed

lemma top_state: "s \<le> StateEnded"
  by (cases s) (simp_all add: state_order)

section \<open>Properties\<close>

text \<open>
  C12 (safety): the end of a call is final as far as its record goes: once stamped, the time and
  the reason of the end stay, the done channel stays closed and no second unregistration
  happens, in every state reachable from there.
\<close>

theorem end_is_recorded_once:
  assumes "call_ok c" and "c_endedAt c = Some t" and "leg_step\<^sup>*\<^sup>* c d"
  shows "c_endedAt d = Some t \<and> c_endReason d = c_endReason c \<and> ch_closed (c_doneCh d) \<and> unregistered d = 1"
  using leg_steps_good [OF assms(3,1)] assms(2) by (auto simp: good_def keeps_end_def call_ok_def)

definition sample_invite :: sip_request where
  "sample_invite = \<lparr>rq_Method = ''INVITE'', rq_Headers = [(''From'', ''a'')], rq_CallID = Some ''cid'',
     rq_CSeq = Some ''1 INVITE'', rq_Body = []\<rparr>"

definition plain_reply :: dialog_reply where
  "plain_reply = \<lparr>dr_err = None, dr_meanwhile = [], dr_now = 9\<rparr>"

definition ended_call :: call where
  "ended_call = (case setState 5 StateEnded ''remote-bye'' (newInboundCall 1 sample_invite ''t'') of
     Ret c \<Rightarrow> c | Panic \<Rightarrow> newInboundCall 1 sample_invite ''t'')"

lemma ended_call_ok: "call_ok ended_call" "c_endedAt ended_call = Some 5" "c_endReason ended_call = ''remote-bye''"
  using setState_spec [of "newInboundCall 1 sample_invite ''t''" 5 StateEnded "''remote-bye''"]
  by (auto simp: ended_call_def)

theorem end_is_recorded_once_witness:
  "\<exists>d. leg_step ended_call d \<and> c_endedAt d = Some 5 \<and> c_endReason d = c_endReason ended_call
     \<and> ch_closed (c_doneCh d) \<and> unregistered d = 1"
proof -
  from call_step_good [OF ended_call_ok(1), of "OpEvent (OtherSetState 6 StateRinging [])"] obtain d where
    "call_step (OpEvent (OtherSetState 6 StateRinging [])) ended_call = Ret d" by auto
  then have "leg_step ended_call d" by (rule leg_step.intros)
  with end_is_recorded_once [OF ended_call_ok(1,2), of d] show ?thesis by blast
qed

text \<open>
  C13 (functional): \<open>Hangup\<close> never fails: from any state, whatever the stack answers and whatever
  happens meanwhile, it returns no error and leaves the call ended with its done channel closed.
\<close>

theorem Hangup_always_ends:
  assumes "call_ok c"
  shows "\<exists>d. Hangup hook drained rep c = Ret (None, d) \<and> c_state d = StateEnded \<and> ch_closed (c_doneCh d)"
  using Hangup_spec [OF assms, of hook drained rep] by (auto simp: good_def call_ok_def)

theorem Hangup_always_ends_witness:
  "\<exists>d. Hangup True False (plain_reply\<lparr>dr_err := Some ''timeout'', dr_meanwhile := [DialogEnded 3]\<rparr>)
       (newInboundCall 1 sample_invite ''t'') = Ret (None, d) \<and> c_state d = StateEnded \<and> ch_closed (c_doneCh d)"
  by (rule Hangup_always_ends) simp

text \<open>
  C10 (safety): when nothing interferes, no operation and no event of the dialog takes a call
  back to an earlier state; in particular the ended state is never left.
\<close>

theorem undisturbed_monotone:
  assumes "call_ok c" and "undisturbed op" and "call_step op c = Ret d"
  shows "c_state c \<le> c_state d"
proof -
  have eq: "s = t \<Longrightarrow> t \<le> s" for s t :: call_state by simp
  show ?thesis
  proof (cases op)
    case (OpTrying rep)
    with assms show ?thesis
      by (cases "c_state c") (auto simp: after_def Trying_def state_order dest!: send_then_state [OF assms(1)] split: if_splits)
  next
    case (OpRinging rep)
    with assms show ?thesis
      by (cases "c_state c") (auto simp: after_def Ringing_def state_order dest!: send_then_state [OF assms(1)] split: if_splits)
  next
    case (OpEarlyMedia sdp rep)
    with assms show ?thesis
      by (cases "c_state c") (auto simp: after_def SendEarlyMedia183_def state_order dest!: send_then_state [OF assms(1)] split: if_splits)
  next
    case (OpAnswer codec rep)
    with assms show ?thesis by (auto simp: after_def dest!: Answer_state [OF assms(1)])
  next
    case (OpReject name n reason rep)
    with assms show ?thesis
      by (auto simp: after_def reject_def top_state dest: setState_state split: if_splits option.splits)
  next
    case (OpInDialog m ct b hs rep)
    with assms show ?thesis by (auto simp: after_def dest!: doInDialog_state)
  next
    case (OpRefer rep)
    with assms show ?thesis by (auto simp: after_def SendRefer_def split: if_splits)
  next
    case (OpReinvite hs sdp rep e)
    with assms show ?thesis
      by (auto simp: after_def SendReinvite_def dest!: reinvite_state split: if_splits option.splits)
  next
    case (OpReinviteSDP sdp hs rep e)
    with assms show ?thesis
      by (auto simp: after_def SendReinviteWithSDP_def dest!: reinvite_state split: if_splits option.splits)
  next
    case (OpHangup hook drained rep)
    with assms Hangup_spec [OF assms(1), of hook drained rep] show ?thesis by (auto simp: after_def top_state)
  next
    case (OpHangupHeaders hook drained evs hs rep)
    with assms HangupWithHeaders_good [OF assms(1), of hook drained evs hs rep] show ?thesis
      by (cases "c_state c = StateAnswered") (auto simp: after_def top_state HangupWithHeaders_def)
  next
    case (OpStopRecording hook)
    with assms show ?thesis
      by (auto simp: StopRecording_def finalizeRecording_def Let_def effect_def split: option.splits)
  next
    case (OpEvent e)
    with assms show ?thesis
      by (cases e) (auto simp: top_state recordReceived_def recordSent_def dest: setState_state)
  qed
qed

theorem undisturbed_monotone_witness:
  "\<exists>d. call_step (OpRinging plain_reply) (newInboundCall 1 sample_invite ''t'') = Ret d
     \<and> c_state (newInboundCall 1 sample_invite ''t'') \<le> c_state d"
proof -
  from call_step_good [of "newInboundCall 1 sample_invite ''t''" "OpRinging plain_reply"] obtain d where
    d: "call_step (OpRinging plain_reply) (newInboundCall 1 sample_invite ''t'') = Ret d" by auto
  moreover have "undisturbed (OpRinging plain_reply)" by (simp add: plain_reply_def)
  ultimately show ?thesis using undisturbed_monotone [OF call_ok_new(1) _ d] by blast
qed

text \<open>
  C38 (error): the check of the state and its change are not one step. When the dialog ends
  while the 180 of \<open>Ringing\<close> is on its way, the method returns no error and takes the ended call
  back to ringing: the done channel is closed and the call is unregistered, but a wait for the
  ended state no longer returns.
\<close>

theorem Ringing_revives_ended_call:
  assumes "call_ok c" and "c_direction c = Inbound" and "c_state c \<in> {StateInit, StateTrying}"
  shows "\<exists>d. Ringing \<lparr>dr_err = None, dr_meanwhile = [DialogEnded t], dr_now = n\<rparr> c = Ret (None, d)
     \<and> c_state d = StateRinging \<and> ch_closed (c_doneCh d) \<and> unregistered d = 1
     \<and> WaitState StateEnded (replicate k (c_state d, None)) = PollPending"
proof -
  from setState_good [OF assms(1), of t StateEnded "''remote-bye''"] obtain e where
    e: "setState t StateEnded ''remote-bye'' c = Ret e" "good c e" "c_state e = StateEnded" by blast
  then obtain d where d: "setState n StateRinging [] e = Ret d" "c_state d = StateRinging"
    "c_endedAt d = c_endedAt e" "call_ok d"
    using setState_spec [OF good_ok [OF e(2)], of n StateRinging "[]"] by auto
  have "c_endedAt d \<noteq> None" using d(3) e(2,3) by (auto simp: good_def call_ok_def)
  then have "ch_closed (c_doneCh d) \<and> unregistered d = 1" using d(4) by (simp add: call_ok_def)
  moreover have "WaitState StateEnded (replicate k (StateRinging, None)) = PollPending"
    by (induction k) auto
  ultimately show ?thesis using assms(2,3) d e(1)
    by (auto simp: Ringing_def send_then_def meanwhile_def)
qed

theorem Ringing_revives_ended_call_witness:
  "\<exists>d. Ringing \<lparr>dr_err = None, dr_meanwhile = [DialogEnded 3], dr_now = 4\<rparr> (newInboundCall 1 sample_invite ''t'')
       = Ret (None, d) \<and> c_state d = StateRinging \<and> ch_closed (c_doneCh d) \<and> unregistered d = 1
     \<and> WaitState StateEnded (replicate 7 (c_state d, None)) = PollPending"
  by (rule Ringing_revives_ended_call) simp_all

end
