(* ===== verification/Sip_Observer.thy ===== *)
theory Sip_Observer
  imports Sip_Call
begin

text \<open>
  \<open>internal/sip/observer.go\<close>: the registry from Call-ID to call, and the middleware that records
  requests of registered calls and the responses sent to them. The world is the registry with
  the heap of calls it points into. The lemmas show what is recorded where, also when a call is
  registered only while its INVITE is being handled, and what the accessors over the recorded
  messages return.
\<close>

record sip_world =
  sw_registry :: "string \<rightharpoonup> nat"
  sw_calls :: "call list"

definition register :: "string \<Rightarrow> nat \<Rightarrow> sip_world \<Rightarrow> sip_world" where
  "register callID a w =
     (if callID = [] then w else w\<lparr>sw_registry := (sw_registry w)(callID \<mapsto> a)\<rparr>)"

definition unregister :: "string \<Rightarrow> sip_world \<Rightarrow> sip_world" where
  "unregister callID w =
     (if callID = [] then w else w\<lparr>sw_registry := (sw_registry w)(callID := None)\<rparr>)"

definition lookup_call :: "string \<Rightarrow> sip_world \<Rightarrow> nat option" where
  "lookup_call callID w = sw_registry w callID"

interpretation callreg: keyed_store lookup_call register "\<lambda>callID a. callID \<noteq> []"
  by unfold_locales (auto simp: lookup_call_def register_def)

definition on_call :: "nat \<Rightarrow> (call \<Rightarrow> call) \<Rightarrow> sip_world \<Rightarrow> sip_world go" where
  "on_call a f w =
     go_bind (go_index (sw_calls w) (int a)) (\<lambda>c. Ret (w\<lparr>sw_calls := (sw_calls w)[a := f c]\<rparr>))"

text \<open>
  The middleware: what it does before it hands the request on, and the wrapped transaction it
  hands on, which is the Call-ID it will look up at each response.
\<close>

definition observeRequest :: "int \<Rightarrow> sip_request \<Rightarrow> sip_world \<Rightarrow> (string \<times> sip_world) go" where
  "observeRequest now req w =
     (let callID = (case rq_CallID req of Some i \<Rightarrow> i | None \<Rightarrow> []) in
      case lookup_call callID w of
        Some a \<Rightarrow> go_bind (on_call a (recordReceived (newRequestMsg MsgRecv now req)) w) (\<lambda>w'. Ret (callID, w'))
      | None \<Rightarrow> Ret (callID, w))"

definition observedRespond :: "int \<Rightarrow> string \<Rightarrow> sip_response \<Rightarrow> sip_world \<Rightarrow> sip_world go" where
  "observedRespond now callID res w =
     (case lookup_call callID w of
        Some a \<Rightarrow> on_call a (recordSent (newResponseMsg MsgSent now res)) w
      | None \<Rightarrow> Ret w)"

text \<open>The effects of a call on the registry; \<open>a\<close> is the call's address.\<close>

fun registry_effect :: "nat \<Rightarrow> call_effect \<Rightarrow> sip_world \<Rightarrow> sip_world" where
  "registry_effect a (Register i) w = register i a w"
| "registry_effect a (Unregister i) w = unregister i w"
| "registry_effect a _ w = w"

definition add_call :: "call \<Rightarrow> sip_world \<Rightarrow> sip_world" where
  "add_call c w =
     fold (registry_effect (length (sw_calls w))) (c_effects c) (w\<lparr>sw_calls := sw_calls w @ [c]\<rparr>)"

section \<open>Lemmas\<close>

definition world_ok :: "sip_world \<Rightarrow> bool" where
  "world_ok w \<longleftrightarrow> (\<forall>i a. sw_registry w i = Some a \<longrightarrow> a < length (sw_calls w))"

lemma on_call_ok: "a < length (sw_calls w) \<Longrightarrow>
    on_call a f w = Ret (w\<lparr>sw_calls := (sw_calls w)[a := f (sw_calls w ! a)]\<rparr>)"
  by (simp add: on_call_def go_index_def)

lemma world_ok_lookup: "world_ok w \<Longrightarrow> lookup_call i w = Some a \<Longrightarrow> a < length (sw_calls w)"
  by (simp add: world_ok_def lookup_call_def)

lemma newRequestMsg_Method [simp]: "ms_Method (newRequestMsg d t r) = rq_Method r"
  by (simp add: newRequestMsg_def)

lemma newResponseMsg_StatusCode [simp]: "ms_StatusCode (newResponseMsg d t r) = rp_StatusCode r"
  by (simp add: newResponseMsg_def)

lemma add_inbound:
  assumes "rq_CallID req = Some i" and "i \<noteq> []"
  shows "add_call (newInboundCall now req owner) w =
     w\<lparr>sw_registry := (sw_registry w)(i \<mapsto> length (sw_calls w)),
       sw_calls := sw_calls w @ [newInboundCall now req owner]\<rparr>"
proof -
  have "c_effects (newInboundCall now req owner) = [Register i]"
    using assms by (simp add: newInboundCall_def blank_call_def recordReceived_def effect_def call_CallID_def Let_def)
  then show ?thesis using assms(2) by (simp add: add_call_def register_def)
qed

section \<open>Properties\<close>

text \<open>
  A request is recorded exactly once, as received, on the call its Call-ID is
  registered for and on no other; a request of an unknown call changes nothing.
\<close>

theorem observeRequest_records:
  assumes "world_ok w" and "rq_CallID req = Some i"
  shows "\<exists>w'. observeRequest now req w = Ret (i, w') \<and> sw_registry w' = sw_registry w
     \<and> sw_calls w' = (case lookup_call i w of
          None \<Rightarrow> sw_calls w
        | Some a \<Rightarrow> (sw_calls w)[a := recordReceived (newRequestMsg MsgRecv now req) (sw_calls w ! a)])"
proof (cases "lookup_call i w")
  case None
  then show ?thesis using assms(2) by (simp add: observeRequest_def)
next
  case (Some a)
  with world_ok_lookup [OF assms(1)] have "a < length (sw_calls w)" by blast
  from on_call_ok [OF this] Some assms(2) show ?thesis by (simp add: observeRequest_def)
qed

definition empty_world :: sip_world where
  "empty_world = \<lparr>sw_registry = Map.empty, sw_calls = []\<rparr>"

definition bye_request :: sip_request where
  "bye_request = \<lparr>rq_Method = ''BYE'', rq_Headers = [], rq_CallID = Some ''cid'', rq_CSeq = None, rq_Body = []\<rparr>"

theorem observeRequest_records_witness:
  "\<exists>w'. observeRequest 4 bye_request (add_call (newInboundCall 1 sample_invite ''t'') empty_world) = Ret (''cid'', w')
     \<and> MethodsReceived (sw_calls w' ! 0) = [''INVITE'', ''BYE'']"
proof -
  let ?c = "newInboundCall 1 sample_invite ''t''"
  have w: "add_call ?c empty_world = \<lparr>sw_registry = [''cid'' \<mapsto> 0], sw_calls = [?c]\<rparr>"
    using add_inbound [of sample_invite "''cid''"] by (simp add: sample_invite_def empty_world_def)
  have c: "c_recv ?c = [newRequestMsg MsgRecv 1 sample_invite]"
    by (simp add: newInboundCall_def recordReceived_def blank_call_def Let_def)
  have "world_ok (add_call ?c empty_world)" "lookup_call ''cid'' (add_call ?c empty_world) = Some 0"
    by (auto simp: w world_ok_def lookup_call_def split: if_splits)
  moreover have "rq_CallID bye_request = Some ''cid''" by (simp add: bye_request_def)
  ultimately obtain w' where w': "observeRequest 4 bye_request (add_call ?c empty_world) = Ret (''cid'', w')"
    "sw_calls w' = (sw_calls (add_call ?c empty_world))[0 := recordReceived (newRequestMsg MsgRecv 4 bye_request)
       (sw_calls (add_call ?c empty_world) ! 0)]"
    using observeRequest_records [of "add_call ?c empty_world" bye_request "''cid''" 4] by auto
  moreover have "rq_Method bye_request = ''BYE''" "rq_Method sample_invite = ''INVITE''"
    by (simp_all add: bye_request_def sample_invite_def)
  moreover have "sw_calls (add_call ?c empty_world) = [?c]" by (simp add: w)
  ultimately show ?thesis using c by (simp add: MethodsReceived_def recordReceived_def)
qed

text \<open>
  The responses to an INVITE are captured although its call does not exist
  yet when the middleware sees the request: the transaction wrapped then records, on the call
  that the handler registers afterwards, every response sent from there on.
\<close>

theorem invite_responses_captured:
  assumes "world_ok w" and "lookup_call i w = None" and "i \<noteq> []" and "rq_CallID req = Some i"
    and "observeRequest now req w = Ret (tx, w1)" and "w2 = add_call (newInboundCall now req owner) w1"
  shows "\<exists>w3. go_fold (\<lambda>(t, res). observedRespond t tx res) responses w2 = Ret w3
     \<and> c_sent (sw_calls w3 ! length (sw_calls w)) = map (\<lambda>(t, res). newResponseMsg MsgSent t res) responses
     \<and> c_recv (sw_calls w3 ! length (sw_calls w)) = [newRequestMsg MsgRecv now req]"
proof -
  have w1: "w1 = w" "tx = i" using assms(2,4,5) by (simp_all add: observeRequest_def)
  let ?a = "length (sw_calls w)"
  have step: "\<exists>w3. go_fold (\<lambda>(t, res). observedRespond t i res) responses v = Ret w3
      \<and> c_sent (sw_calls w3 ! ?a) = c_sent (sw_calls v ! ?a) @ map (\<lambda>(t, res). newResponseMsg MsgSent t res) responses
      \<and> c_recv (sw_calls w3 ! ?a) = c_recv (sw_calls v ! ?a)"
    if "lookup_call i v = Some ?a" "?a < length (sw_calls v)" for v
    using that
  proof (induction responses arbitrary: v)
    case Nil
    then show ?case by simp
  next
    case (Cons x xs)
    obtain t res where x: "x = (t, res)" by (cases x)
    let ?v = "v\<lparr>sw_calls := (sw_calls v)[?a := recordSent (newResponseMsg MsgSent t res) (sw_calls v ! ?a)]\<rparr>"
    have "observedRespond t i res v = Ret ?v" using Cons.prems by (simp add: observedRespond_def on_call_ok)
    moreover have "lookup_call i ?v = Some ?a" "?a < length (sw_calls ?v)"
      using Cons.prems by (simp_all add: lookup_call_def)
    ultimately show ?case using Cons.IH [of ?v] Cons.prems x by (auto simp: recordSent_def)
  qed
  have w2: "w2 = w\<lparr>sw_registry := (sw_registry w)(i \<mapsto> ?a), sw_calls := sw_calls w @ [newInboundCall now req owner]\<rparr>"
    using assms(6) w1 add_inbound [OF assms(4,3)] by simp
  have "c_sent (newInboundCall now req owner) = []" "c_recv (newInboundCall now req owner) = [newRequestMsg MsgRecv now req]"
    by (simp_all add: newInboundCall_def blank_call_def recordReceived_def effect_def Let_def)
  with step [of w2] w2 w1 show ?thesis by (simp add: lookup_call_def)
qed

definition ok_response :: sip_response where
  "ok_response = \<lparr>rp_StatusCode = 200, rp_Reason = ''OK'', rp_Headers = [], rp_CallID = Some ''cid'',
     rp_CSeq = Some (''1 INVITE'', ''INVITE''), rp_Contact = None\<rparr>"

definition two_responses :: "(int \<times> sip_response) list" where
  "two_responses = [(2, ok_response\<lparr>rp_StatusCode := 180\<rparr>), (3, ok_response)]"

theorem invite_responses_captured_witness:
  "\<exists>w3. go_fold (\<lambda>(t, res). observedRespond t ''cid'' res) two_responses
       (add_call (newInboundCall 1 sample_invite ''t'') empty_world) = Ret w3
     \<and> c_sent (sw_calls w3 ! length (sw_calls empty_world)) = map (\<lambda>(t, res). newResponseMsg MsgSent t res) two_responses
     \<and> c_recv (sw_calls w3 ! length (sw_calls empty_world)) = [newRequestMsg MsgRecv 1 sample_invite]"
proof (rule invite_responses_captured [OF _ _ _ _ _ refl])
  show "observeRequest 1 sample_invite empty_world = Ret (''cid'', empty_world)"
    by (simp add: observeRequest_def empty_world_def sample_invite_def lookup_call_def)
  show "rq_CallID sample_invite = Some ''cid''" by (simp add: sample_invite_def)
qed (simp_all add: world_ok_def empty_world_def lookup_call_def)

text \<open>
  Waiting for a request never returns a response, although responses carry a
  method too: what it returns was recorded in one of the lists it looked at, has no status, and
  has one of the methods up to letter case.
\<close>

theorem AwaitReceivedRequest_sound:
  assumes "AwaitReceivedRequest methods recv rounds = PollOk m"
  shows "ms_StatusCode m = 0 \<and> (\<exists>method\<in>set methods. equal_fold (ms_Method m) method)
     \<and> (m \<in> set recv \<or> (\<exists>(d, r)\<in>set rounds. m \<in> set r))"
proof -
  have f: "ms_StatusCode m = 0 \<and> (\<exists>method\<in>set methods. equal_fold (ms_Method m) method) \<and> m \<in> set r"
    if "match_request methods r = Some m" for r
  proof -
    from that obtain i where "i < length r" "m = r ! i" "ms_StatusCode (r ! i) = 0"
      "\<exists>method\<in>set methods. equal_fold (ms_Method (r ! i)) method"
      unfolding match_request_def find_Some_iff by blast
    then show ?thesis by simp
  qed
  have ticks: "await_ticks methods rs = PollOk m \<Longrightarrow> ms_StatusCode m = 0
      \<and> (\<exists>method\<in>set methods. equal_fold (ms_Method m) method) \<and> (\<exists>(d, r)\<in>set rs. m \<in> set r)" for rs
  proof (induction rs)
    case (Cons p rs)
    obtain d r where p: "p = (d, r)" by (cases p)
    show ?case
    proof (cases "match_request methods r")
      case None
      with Cons p show ?thesis by (auto split: option.splits)
    next
      case (Some m')
      with Cons.prems p f [of r] show ?thesis by (auto split: option.splits)
    qed
  qed simp
  from assms f [of recv] ticks [of rounds] show ?thesis
    by (auto simp: AwaitReceivedRequest_def split: option.splits)
qed

definition info_message :: message where
  "info_message = no_message\<lparr>ms_Direction := MsgRecv, ms_Method := ''INFO''\<rparr>"

theorem AwaitReceivedRequest_sound_witness:
  "AwaitReceivedRequest [''info''] [] [(None, [info_message\<lparr>ms_StatusCode := 200\<rparr>, info_message])] = PollOk info_message
   \<and> ms_StatusCode info_message = 0"
proof
  show r: "AwaitReceivedRequest [''info''] [] [(None, [info_message\<lparr>ms_StatusCode := 200\<rparr>, info_message])] = PollOk info_message"
    by (simp add: AwaitReceivedRequest_def match_request_def info_message_def no_message_def) code_simp
  show "ms_StatusCode info_message = 0" using AwaitReceivedRequest_sound [OF r] by blast
qed

text \<open>
  The list of methods received contains those of responses: sending one in-dialog
  request that is answered adds its own method to the requests the call seems to have received.
\<close>

theorem MethodsReceived_counts_responses:
  assumes "c_state c = StateAnswered" and "do_contact rep = Some k" and "do_meanwhile rep = []"
    and "do_res rep = Some res" and "rp_CSeq res = Some (v, method)" and "method \<noteq> []"
    and "doInDialog method ct body extra rep c = Ret (x, d)"
  shows "MethodsReceived d = MethodsReceived c @ [method]
     \<and> map ms_StatusCode (ReceivedByMethod method d) = map ms_StatusCode (ReceivedByMethod method c) @ [rp_StatusCode res]"
  using assms
  by (auto simp: doInDialog_def transact_def recordSent_def recordReceived_def MethodsReceived_def
      ReceivedByMethod_def newResponseMsg_def no_message_def)

definition answered_call :: call where
  "answered_call = (newInboundCall 1 sample_invite ''t'')\<lparr>c_state := StateAnswered, c_recv := []\<rparr>"

definition info_reply :: do_reply where
  "info_reply = \<lparr>do_contact = Some ''sip:a'', do_res = Some (ok_response\<lparr>rp_CSeq := Some (''2 INFO'', ''INFO'')\<rparr>),
     do_err = None, do_meanwhile = [], do_now = 7\<rparr>"

theorem MethodsReceived_counts_responses_witness:
  "\<exists>x d. SendInfo ''text/plain'' None [] info_reply answered_call = Ret (x, d) \<and> MethodsReceived d = [''INFO'']"
proof -
  obtain x d where d: "doInDialog ''INFO'' ''text/plain'' None [] info_reply answered_call = Ret (x, d)"
    by (simp add: doInDialog_def answered_call_def info_reply_def transact_def)
  have "MethodsReceived d = MethodsReceived answered_call @ [''INFO''] \<and>
      map ms_StatusCode (ReceivedByMethod ''INFO'' d)
        = map ms_StatusCode (ReceivedByMethod ''INFO'' answered_call) @ [200]"
    using MethodsReceived_counts_responses [OF _ _ _ _ _ _ d, of "''sip:a''"
        "ok_response\<lparr>rp_CSeq := Some (''2 INFO'', ''INFO'')\<rparr>" "''2 INFO''"]
    by (simp add: answered_call_def info_reply_def ok_response_def)
  with d show ?thesis by (auto simp: SendInfo_def answered_call_def MethodsReceived_def)
qed

end
