(* ===== verification/Sip_Wait.thy ===== *)
theory Sip_Wait
  imports Sip_Call
begin

text \<open>
  \<open>WaitState\<close> and \<open>setState\<close> of \<open>internal/sip/call.go\<close> as goroutines that run concurrently. A
  waiter looks at the state and then receives from the call's wake-up channel, which holds one
  token; a state change is published under the mutex and is followed by four sends that never
  block. \<open>Sip_Call\<close> takes the states that a waiter sees as given; here the lemmas show that a
  waiter sees every state that stays: no wake-up is lost between its look and its sleep, as long
  as it is the only one. With two waiters one may sleep through the end of the call.
\<close>

section \<open>Waiters\<close>

text \<open>
  Where a waiter is: before its look at the state, after a look that saw \<open>s\<close> and before its
  \<open>select\<close>, blocked in it, or back with its result.
\<close>

datatype waiter_at =
    Looking
  | Choosing call_state
  | Blocked call_state
  | is_Back: Back "(call_error option) poll"

record waiter =
  w_target :: call_state
  w_at :: waiter_at

text \<open>
  \<open>ws_queue\<close> are the waiters blocked on the channel, in the order in which Go serves them;
  \<open>ws_sends\<close> counts the sends that the calls of \<open>setState\<close> still have to make.
\<close>

record wait_sys =
  ws_call :: call
  ws_waiters :: "nat \<rightharpoonup> waiter"
  ws_queue :: "nat list"
  ws_sends :: nat

definition wait_start :: "call \<Rightarrow> wait_sys" where
  "wait_start c = \<lparr>ws_call = c, ws_waiters = Map.empty, ws_queue = [], ws_sends = 0\<rparr>"

definition put_waiter :: "nat \<Rightarrow> waiter_at \<Rightarrow> wait_sys \<Rightarrow> wait_sys" where
  "put_waiter i at w =
     (case ws_waiters w i of
        None \<Rightarrow> w
      | Some x \<Rightarrow> w\<lparr>ws_waiters := (ws_waiters w)(i \<mapsto> x\<lparr>w_at := at\<rparr>)\<rparr>)"

section \<open>Steps\<close>

text \<open>One round of the loop up to the \<open>select\<close>: the verdict on the state that is seen.\<close>

definition seen :: "call_state \<Rightarrow> call_state \<Rightarrow> waiter_at" where
  "seen target s = (case WaitState target [(s, None)] of PollPending \<Rightarrow> Choosing s | r \<Rightarrow> Back r)"

definition look :: "nat \<Rightarrow> wait_sys \<Rightarrow> wait_sys" where
  "look i w =
     (case ws_waiters w i of
        None \<Rightarrow> w
      | Some x \<Rightarrow>
          (case w_at x of
             Looking \<Rightarrow> put_waiter i (seen (w_target x) (c_state (ws_call w))) w
           | _ \<Rightarrow> w))"

text \<open>
  The \<open>select\<close>: the end of the context (\<open>done\<close>), a token, or neither and the waiter blocks. When
  both are ready Go may take either.
\<close>

definition select_turn :: "nat \<Rightarrow> string option \<Rightarrow> wait_sys \<Rightarrow> wait_sys" where
  "select_turn i done w =
     (case ws_waiters w i of
        None \<Rightarrow> w
      | Some x \<Rightarrow>
          (case w_at x of
             Choosing s \<Rightarrow>
               (case done of
                  Some err \<Rightarrow> put_waiter i (Back (PollCtx err)) w
                | None \<Rightarrow>
                    (case try_recv (c_stateCh (ws_call w)) of
                       Got u ch \<Rightarrow> put_waiter i Looking (w\<lparr>ws_call := (ws_call w)\<lparr>c_stateCh := ch\<rparr>\<rparr>)
                     | RecvClosed \<Rightarrow> put_waiter i Looking w
                     | RecvWouldBlock \<Rightarrow> put_waiter i (Blocked s) (w\<lparr>ws_queue := ws_queue w @ [i]\<rparr>)))
           | _ \<Rightarrow> w))"

text \<open>The context of a blocked waiter ends.\<close>

definition expire :: "nat \<Rightarrow> string \<Rightarrow> wait_sys \<Rightarrow> wait_sys" where
  "expire i err w =
     (if i \<in> set (ws_queue w)
      then put_waiter i (Back (PollCtx err)) (w\<lparr>ws_queue := remove1 i (ws_queue w)\<rparr>) else w)"

text \<open>The part of \<open>setState\<close> before its sends, and one of the sends: it goes to who waits longest.\<close>

definition publish :: "int \<Rightarrow> call_state \<Rightarrow> string \<Rightarrow> call \<Rightarrow> call go" where
  "publish now s reason c =
     (let c1 = c\<lparr>c_state := s\<rparr>;
          c2 = (if s = StateAnswered \<and> c_answeredAt c1 = None then c1\<lparr>c_answeredAt := Some now\<rparr> else c1)
      in end_once now s reason c2)"

definition change :: "int \<Rightarrow> call_state \<Rightarrow> string \<Rightarrow> wait_sys \<Rightarrow> wait_sys go" where
  "change now s reason w =
     (if s = c_state (ws_call w) then Ret w
      else go_bind (publish now s reason (ws_call w))
             (\<lambda>c. Ret (w\<lparr>ws_call := c, ws_sends := ws_sends w + 4\<rparr>)))"

definition send_token :: "wait_sys \<Rightarrow> wait_sys go" where
  "send_token w =
     (if ws_sends w = 0 then Ret w
      else let v = w\<lparr>ws_sends := ws_sends w - 1\<rparr>
           in case ws_queue w of
                i # q \<Rightarrow> Ret (put_waiter i Looking (v\<lparr>ws_queue := q\<rparr>))
              | [] \<Rightarrow> go_bind (try_send () (c_stateCh (ws_call w)))
                  (\<lambda>sent. Ret (case sent of
                     Some ch \<Rightarrow> v\<lparr>ws_call := (ws_call w)\<lparr>c_stateCh := ch\<rparr>\<rparr> | None \<Rightarrow> v)))"

datatype wait_event =
    Enter nat call_state
  | Look nat
  | Choose nat "string option"
  | Expire nat string
  | Change int call_state string
  | SendToken

text \<open>
  The scheduler picks any event at any time; one that is not enabled changes nothing. A goroutine
  whose \<open>WaitState\<close> has returned may call it again.
\<close>

fun wait_step :: "wait_event \<Rightarrow> wait_sys \<Rightarrow> wait_sys go" where
  "wait_step (Enter i target) w =
     Ret (if (case ws_waiters w i of None \<Rightarrow> True | Some x \<Rightarrow> is_Back (w_at x))
          then w\<lparr>ws_waiters := (ws_waiters w)(i \<mapsto> \<lparr>w_target = target, w_at = Looking\<rparr>)\<rparr> else w)"
| "wait_step (Look i) w = Ret (look i w)"
| "wait_step (Choose i done) w = Ret (select_turn i done w)"
| "wait_step (Expire i err) w = Ret (expire i err w)"
| "wait_step (Change now s reason) w = change now s reason w"
| "wait_step SendToken w = send_token w"

section \<open>A state change with nobody asleep\<close>

text \<open>With no waiter blocked, publishing and the four sends are \<open>setState\<close> of \<open>Sip_Call\<close>.\<close>

lemma publish_setState:
  "setState now s reason c = (if s = c_state c then Ret c else go_bind (publish now s reason c) (wake 4))"
  by (simp add: setState_def publish_def Let_def)

lemma sends_wake:
  "ws_queue w = [] \<Longrightarrow> ws_sends w = n \<Longrightarrow>
     go_fold wait_step (replicate n SendToken) w =
       go_bind (wake n (ws_call w)) (\<lambda>c. Ret (w\<lparr>ws_call := c, ws_sends := 0\<rparr>))"
proof (induction n arbitrary: w)
  case (Suc n)
  show ?case
  proof (cases "try_send () (c_stateCh (ws_call w))")
    case (Ret sent)
    then show ?thesis using Suc.prems by (cases sent) (simp_all add: send_token_def Suc.IH)
  next
    case Panic
    with Suc.prems show ?thesis by (simp add: send_token_def Let_def del: try_send_panic_iff)
  qed
qed simp

lemma change_setState:
  assumes "ws_queue w = []" "ws_sends w = 0" "s \<noteq> c_state (ws_call w)"
  shows "go_fold wait_step (Change now s reason # replicate 4 SendToken) w =
     go_bind (setState now s reason (ws_call w)) (\<lambda>c. Ret (w\<lparr>ws_call := c\<rparr>))"
proof (cases "publish now s reason (ws_call w)")
  case (Ret c)
  have "(\<lambda>d. Ret (w\<lparr>ws_call := d, ws_sends := 0\<rparr>)) = (\<lambda>d. Ret (w\<lparr>ws_call := d\<rparr>))"
    using assms(2) by (cases w) (simp add: fun_eq_iff)
  with Ret assms sends_wake [of "w\<lparr>ws_call := c, ws_sends := 4\<rparr>" 4] show ?thesis
    by (simp add: change_def publish_setState)
qed (use assms in \<open>simp add: change_def publish_setState\<close>)

section \<open>The invariant\<close>

definition at_of :: "wait_sys \<Rightarrow> nat \<Rightarrow> waiter_at option" where
  "at_of w i = map_option w_at (ws_waiters w i)"

text \<open>The queue holds exactly the blocked waiters, once each, and only while there is no token.\<close>

definition wait_ok :: "wait_sys \<Rightarrow> bool" where
  "wait_ok w \<longleftrightarrow> call_ok (ws_call w) \<and> distinct (ws_queue w)
     \<and> (\<forall>i. i \<in> set (ws_queue w) \<longleftrightarrow> (\<exists>s. at_of w i = Some (Blocked s)))
     \<and> (ws_queue w \<noteq> [] \<longrightarrow> ch_buf (c_stateCh (ws_call w)) = [])"

lemma put_waiter_simps [simp]:
  "ws_call (put_waiter i at w) = ws_call w" "ws_queue (put_waiter i at w) = ws_queue w"
  "ws_sends (put_waiter i at w) = ws_sends w"
  "at_of (put_waiter i at w) j = (if i = j \<and> at_of w i \<noteq> None then Some at else at_of w j)"
  "map_option w_target (ws_waiters (put_waiter i at w) j) = map_option w_target (ws_waiters w j)"
  by (auto simp: put_waiter_def at_of_def split: option.splits)

lemma at_of_update [simp]:
  "at_of (w\<lparr>ws_call := c\<rparr>) = at_of w" "at_of (w\<lparr>ws_queue := q\<rparr>) = at_of w" "at_of (w\<lparr>ws_sends := n\<rparr>) = at_of w"
  by (simp_all add: at_of_def fun_eq_iff)

lemma publish_spec:
  assumes "call_ok c"
  shows "\<exists>d. publish now s reason c = Ret d \<and> call_ok d \<and> c_state d = s \<and> c_stateCh d = c_stateCh c"
  using assms
  by (auto simp: publish_def end_once_def close_chan_def call_ok_def Let_def unregistered_def effect_def)

lemma call_ok_token: "call_ok c \<Longrightarrow> length b \<le> 1 \<Longrightarrow> call_ok (c\<lparr>c_stateCh := (c_stateCh c)\<lparr>ch_buf := b\<rparr>\<rparr>)"
  by (simp add: call_ok_def unregistered_def)

lemma call_ok_try_send:
  assumes "call_ok c"
  shows "try_send () (c_stateCh c) = Ret (if ch_buf (c_stateCh c) = [] then Some ((c_stateCh c)\<lparr>ch_buf := [()]\<rparr>) else None)"
  using assms by (cases "ch_buf (c_stateCh c)") (auto simp: call_ok_def try_send_open)

lemma call_ok_try_recv:
  assumes "call_ok c"
  shows "try_recv (c_stateCh c) = (if ch_buf (c_stateCh c) = [] then RecvWouldBlock else Got () ((c_stateCh c)\<lparr>ch_buf := []\<rparr>))"
  using assms by (cases "ch_buf (c_stateCh c)") (auto simp: call_ok_def try_recv_def)

lemma seen_iff:
  "seen target s = (if s = target then Back (PollOk None)
     else if s = StateEnded then Back (PollOk (Some (InvalidState ''WaitState'' s [target]))) else Choosing s)"
  by (simp add: seen_def)

lemma look_at:
  "at_of w i = Some Looking \<Longrightarrow> look i w = put_waiter i (seen (w_target (the (ws_waiters w i))) (c_state (ws_call w))) w"
  by (auto simp: look_def at_of_def)

lemma look_off: "at_of w i \<noteq> Some Looking \<Longrightarrow> look i w = w"
  by (auto simp: look_def at_of_def split: option.splits waiter_at.splits)

lemma select_off: "(\<And>s. at_of w i \<noteq> Some (Choosing s)) \<Longrightarrow> select_turn i done w = w"
  by (auto simp: select_turn_def at_of_def split: option.splits waiter_at.splits)

lemma select_at:
  assumes "call_ok (ws_call w)" "at_of w i = Some (Choosing s)"
  shows "select_turn i done w = (case done of Some err \<Rightarrow> put_waiter i (Back (PollCtx err)) w
     | None \<Rightarrow> if ch_buf (c_stateCh (ws_call w)) = [] then put_waiter i (Blocked s) (w\<lparr>ws_queue := ws_queue w @ [i]\<rparr>)
               else put_waiter i Looking (w\<lparr>ws_call := (ws_call w)\<lparr>c_stateCh := (c_stateCh (ws_call w))\<lparr>ch_buf := []\<rparr>\<rparr>\<rparr>))"
  using assms by (auto simp: select_turn_def at_of_def call_ok_try_recv split: option.splits)

lemma look_ok: "wait_ok w \<Longrightarrow> wait_ok (look i w)"
proof (cases "at_of w i = Some Looking")
  case True
  assume ok: "wait_ok w"
  with True show ?thesis by (auto simp: wait_ok_def look_at seen_iff)
qed (simp add: look_off)

lemma select_ok: "wait_ok w \<Longrightarrow> wait_ok (select_turn i done w)"
proof (cases "\<exists>s. at_of w i = Some (Choosing s)")
  case True
  assume ok: "wait_ok w"
  then have c: "call_ok (ws_call w)" by (simp add: wait_ok_def)
  from True obtain s where s: "at_of w i = Some (Choosing s)" by blast
  then have "i \<notin> set (ws_queue w)" using ok by (auto simp: wait_ok_def)
  with ok s call_ok_token [OF c, of "[]"] show ?thesis
    by (auto simp: wait_ok_def select_at [OF c s] split: option.split)
qed (simp add: select_off)

lemma expire_ok: "wait_ok w \<Longrightarrow> wait_ok (expire i err w)"
  by (auto simp: wait_ok_def expire_def)

lemma change_ok: "wait_ok w \<Longrightarrow> \<exists>v. change now s reason w = Ret v \<and> wait_ok v"
  using publish_spec [of "ws_call w" now s reason] by (auto simp: wait_ok_def change_def)

lemma send_ok: "wait_ok w \<Longrightarrow> \<exists>v. send_token w = Ret v \<and> wait_ok v"
proof (cases "ws_queue w")
  case Nil
  assume "wait_ok w"
  with Nil call_ok_token [of "ws_call w" "[()]"] show ?thesis
    by (auto simp: wait_ok_def send_token_def call_ok_try_send Let_def)
next
  case (Cons i q)
  assume ok: "wait_ok w"
  then have "(j \<in> set q) = (\<exists>s. at_of w j = Some (Blocked s) \<and> j \<noteq> i)" for j
    using Cons by (auto simp: wait_ok_def)
  with ok Cons show ?thesis by (auto simp: wait_ok_def send_token_def Let_def)
qed

interpretation waits: guarded_machine wait_step wait_ok
proof unfold_locales
  fix w e
  assume ok: "wait_ok w"
  show "\<exists>v. wait_step e w = Ret v \<and> wait_ok v"
  proof (cases e)
    case (Enter i target)
    with ok show ?thesis by (auto simp: wait_ok_def at_of_def split: option.splits)
  qed (use ok look_ok select_ok expire_ok change_ok send_ok in simp_all)
qed

section \<open>One waiter\<close>

text \<open>
  The only goroutine that waits has not missed anything: the state it looked at last is still the
  state of the call, or a token is on its way to it.
\<close>

definition target_of :: "wait_sys \<Rightarrow> nat \<Rightarrow> call_state" where
  "target_of w i = w_target (the (ws_waiters w i))"

definition solo :: "nat \<Rightarrow> wait_sys \<Rightarrow> bool" where
  "solo i w \<longleftrightarrow> (\<forall>j at. at_of w j = Some at \<longrightarrow> j = i)"

definition mindful :: "nat \<Rightarrow> wait_sys \<Rightarrow> bool" where
  "mindful i w \<longleftrightarrow> solo i w
     \<and> (\<forall>s. at_of w i = Some (Choosing s) \<or> at_of w i = Some (Blocked s) \<longrightarrow>
          seen (target_of w i) s = Choosing s
          \<and> (s = c_state (ws_call w) \<or> 0 < ws_sends w
             \<or> at_of w i = Some (Choosing s) \<and> ch_buf (c_stateCh (ws_call w)) \<noteq> []))"

lemma put_waiter_more [simp]:
  "target_of (put_waiter i at w) j = target_of w j"
  "solo k (put_waiter i at w) = solo k w"
  by (auto simp: put_waiter_def target_of_def solo_def at_of_def split: option.splits)

lemma solo_update [simp]:
  "solo i (w\<lparr>ws_call := c\<rparr>) = solo i w" "solo i (w\<lparr>ws_queue := q\<rparr>) = solo i w" "solo i (w\<lparr>ws_sends := n\<rparr>) = solo i w"
  by (simp_all add: solo_def)

lemma soloD: "solo i w \<Longrightarrow> at_of w j = Some at \<Longrightarrow> j = i"
  by (simp add: solo_def)

lemma target_of_update [simp]:
  "target_of (w\<lparr>ws_call := c\<rparr>) = target_of w" "target_of (w\<lparr>ws_queue := q\<rparr>) = target_of w"
  "target_of (w\<lparr>ws_sends := n\<rparr>) = target_of w"
  by (simp_all add: target_of_def fun_eq_iff)

lemma look_mindful: "mindful i w \<Longrightarrow> mindful i (look j w)"
proof (cases "at_of w j = Some Looking")
  case True
  assume m: "mindful i w"
  then have "j = i" using True soloD by (auto simp: mindful_def)
  with m True look_at [OF True] show ?thesis
    by (simp add: mindful_def seen_iff target_of_def [symmetric])
qed (simp add: look_off)

lemma select_mindful: "wait_ok w \<Longrightarrow> mindful i w \<Longrightarrow> mindful i (select_turn j done w)"
proof (cases "\<exists>s. at_of w j = Some (Choosing s)")
  case True
  assume ok: "wait_ok w" and m: "mindful i w"
  from True obtain s where s: "at_of w j = Some (Choosing s)" by blast
  then have "j = i" using m by (auto simp: mindful_def dest: soloD)
  with ok s m show ?thesis
    by (auto simp: wait_ok_def mindful_def select_at split: option.split)
qed (simp add: select_off)

lemma change_mindful: "wait_ok w \<Longrightarrow> mindful i w \<Longrightarrow> change now s reason w = Ret v \<Longrightarrow> mindful i v"
  using publish_spec [of "ws_call w" now s reason]
  by (auto simp: wait_ok_def mindful_def change_def split: if_splits)

lemma send_mindful: "wait_ok w \<Longrightarrow> mindful i w \<Longrightarrow> send_token w = Ret v \<Longrightarrow> mindful i v"
proof (cases "ws_queue w")
  case Nil
  assume "wait_ok w" "mindful i w" "send_token w = Ret v"
  with Nil show ?thesis
    by (auto simp: wait_ok_def mindful_def send_token_def call_ok_try_send Let_def split: if_splits)
next
  case (Cons j q)
  assume w: "wait_ok w" "mindful i w" "send_token w = Ret v"
  then obtain s where "at_of w j = Some (Blocked s)" using Cons by (auto simp: wait_ok_def)
  moreover from this have "j = i" using w(2) by (auto simp: mindful_def dest: soloD)
  ultimately show ?thesis using w Cons
    by (auto simp: mindful_def send_token_def Let_def split: if_splits)
qed

definition only_waiter :: "nat \<Rightarrow> wait_event set" where
  "only_waiter i = {e. \<forall>j target. e = Enter j target \<longrightarrow> j = i}"

lemma enter_mindful:
  assumes "mindful i w" "wait_step (Enter i target) w = Ret v"
  shows "mindful i v"
proof (cases "v = w")
  case False
  with assms(2) have v: "v = w\<lparr>ws_waiters := (ws_waiters w)(i \<mapsto> \<lparr>w_target = target, w_at = Looking\<rparr>)\<rparr>"
    by (simp split: if_splits)
  have "at_of v j = (if j = i then Some Looking else at_of w j)" for j by (simp add: v at_of_def)
  with assms(1) show ?thesis by (auto simp: mindful_def solo_def)
qed (use assms in simp)

lemma expire_mindful: "mindful i w \<Longrightarrow> mindful i (expire j err w)"
  by (cases "j \<in> set (ws_queue w)") (auto simp: mindful_def expire_def split: if_splits)

lemma mindful_step:
  assumes "wait_ok w" "mindful i w" "e \<in> only_waiter i" "wait_step e w = Ret v"
  shows "mindful i v"
proof (cases e)
  case (Enter j target)
  with assms(3) have "j = i" by (simp add: only_waiter_def)
  with enter_mindful assms(2,4) Enter show ?thesis by blast
next
  case (Look j)
  with look_mindful [OF assms(2), of j] assms(4) show ?thesis by simp
next
  case (Choose j ctx)
  with select_mindful [OF assms(1,2), of j ctx] assms(4) show ?thesis by simp
next
  case (Expire j err)
  with expire_mindful [OF assms(2), of j err] assms(4) show ?thesis by simp
next
  case (Change now s reason)
  with change_mindful [OF assms(1,2), of now s reason v] assms(4) show ?thesis by simp
next
  case SendToken
  with send_mindful [OF assms(1,2)] assms(4) show ?thesis by simp
qed

text \<open>Sending the tokens that are due changes neither the state nor the wait, and ends the sends.\<close>

definition same_wait :: "nat \<Rightarrow> call_state \<Rightarrow> call_state \<Rightarrow> wait_sys \<Rightarrow> bool" where
  "same_wait i s target w \<longleftrightarrow> c_state (ws_call w) = s \<and> target_of w i = target
     \<and> (\<exists>at. at_of w i = Some at \<and> \<not> is_Back at)"

lemma send_same:
  "wait_ok w \<Longrightarrow> send_token w = Ret v \<Longrightarrow>
     ws_sends v = ws_sends w - 1 \<and> (same_wait i s target w \<longrightarrow> same_wait i s target v)"
  by (cases "ws_queue w")
    (auto simp: wait_ok_def same_wait_def send_token_def call_ok_try_send Let_def split: if_splits)

lemma sends_out:
  "wait_ok w \<Longrightarrow> same_wait i s target w \<Longrightarrow> mindful i w \<Longrightarrow>
     \<exists>v. go_fold wait_step (replicate (ws_sends w) SendToken) w = Ret v
       \<and> wait_ok v \<and> mindful i v \<and> same_wait i s target v \<and> ws_sends v = 0"
proof (induction "ws_sends w" arbitrary: w)
  case (Suc n)
  from send_ok [OF Suc.prems(1)] obtain v where v: "send_token w = Ret v" "wait_ok v" by blast
  moreover from send_same [OF Suc.prems(1) v(1)] Suc.prems(2) Suc.hyps(2) have "ws_sends v = n" "same_wait i s target v" by auto
  moreover have "mindful i v" using send_mindful [OF Suc.prems(1,3) v(1)] .
  ultimately show ?case using Suc.hyps(1) [of v] Suc.hyps(2) [symmetric] by simp
qed auto

text \<open>Then three turns of the waiter are enough.\<close>

lemma turns_return:
  assumes "wait_ok w" "mindful i w" "same_wait i s target w" "ws_sends w = 0" "seen target s = Back r"
  shows "\<exists>u. go_fold wait_step [Look i, Choose i None, Look i] w = Ret u \<and> at_of u i = Some (Back r)"
proof -
  from assms(3) obtain at where at: "at_of w i = Some at" "\<not> is_Back at" "c_state (ws_call w) = s" "target_of w i = target"
    by (auto simp: same_wait_def)
  show ?thesis
  proof (cases at)
    case Looking
    with at assms(5) have "look i w = put_waiter i (Back r) w" by (simp add: look_at target_of_def)
    moreover have "at_of (put_waiter i (Back r) w) i = Some (Back r)" using at by simp
    ultimately show ?thesis by (simp add: select_off look_off)
  next
    case (Choosing t)
    then have "ch_buf (c_stateCh (ws_call w)) \<noteq> []" using assms at by (auto simp: mindful_def)
    then obtain c where c: "select_turn i None w = put_waiter i Looking (w\<lparr>ws_call := c\<rparr>)" "c_state c = s"
      using assms(1) at Choosing by (auto simp: select_at wait_ok_def)
    have "look i w = w" using at Choosing by (simp add: look_off)
    moreover have "look i (put_waiter i Looking (w\<lparr>ws_call := c\<rparr>)) = put_waiter i (Back r) (put_waiter i Looking (w\<lparr>ws_call := c\<rparr>))"
      using at assms(5) c(2) look_at [of "put_waiter i Looking (w\<lparr>ws_call := c\<rparr>)" i]
      by (simp add: target_of_def [symmetric])
    ultimately show ?thesis using c at by simp
  next
    case (Blocked t)
    then show ?thesis using assms at by (auto simp: mindful_def)
  next
    case (Back r)
    then show ?thesis using at by simp
  qed
qed

section \<open>Properties\<close>

lemma wait_start_ok: "call_ok c \<Longrightarrow> wait_ok (wait_start c) \<and> mindful i (wait_start c)"
  by (simp add: wait_ok_def mindful_def solo_def at_of_def wait_start_def)

text \<open>
  C14 (liveness): While one goroutine at a time waits for a state of a call, no wake-up is lost.
  Whatever state changes, sends and expiring contexts have interleaved with it, nothing has
  panicked, and if the verdict on the state that the call is in now is not to wait (it is the
  state waited for, or the call has ended), then the sends that are under way and three turns
  of the waiter return that verdict from \<open>WaitState\<close>, be it blocked or between its look and its
  \<open>select\<close>.
\<close>

theorem WaitState_no_lost_wakeup:
  assumes "call_ok c" and "\<forall>e \<in> set es. \<forall>j target. e = Enter j target \<longrightarrow> j = i"
  shows "\<exists>w. go_fold wait_step es (wait_start c) = Ret w
     \<and> (\<forall>x r. ws_waiters w i = Some x \<longrightarrow> \<not> is_Back (w_at x) \<longrightarrow>
          WaitState (w_target x) [(c_state (ws_call w), None)] = r \<longrightarrow> r \<noteq> PollPending \<longrightarrow>
          (\<exists>u. go_fold wait_step (replicate (ws_sends w) SendToken @ [Look i, Choose i None, Look i]) w = Ret u
             \<and> at_of u i = Some (Back r)))"
proof -
  from waits.run_ok [of "wait_start c" es] wait_start_ok [OF assms(1)]
  obtain w where w: "go_fold wait_step es (wait_start c) = Ret w" "wait_ok w" by blast
  have m: "mindful i w"
    by (rule waits.run_keeps [where Q = "mindful i" and E = "only_waiter i" and s = "wait_start c" and es = es])
      (use mindful_step wait_start_ok [OF assms(1)] assms(2) w(1) in \<open>auto simp: only_waiter_def\<close>)
  show ?thesis
  proof (rule exI [of _ w], intro conjI allI impI)
    fix x r
    assume x: "ws_waiters w i = Some x" "\<not> is_Back (w_at x)"
      and r: "WaitState (w_target x) [(c_state (ws_call w), None)] = r" "r \<noteq> PollPending"
    let ?s = "c_state (ws_call w)"
    have "same_wait i ?s (w_target x) w" using x by (simp add: same_wait_def at_of_def target_of_def)
    from sends_out [OF w(2) this m] obtain v where v: "go_fold wait_step (replicate (ws_sends w) SendToken) w = Ret v"
      "wait_ok v" "mindful i v" "same_wait i ?s (w_target x) v" "ws_sends v = 0" by blast
    have "seen (w_target x) ?s = Back r" using r by (auto simp: seen_def split: poll.splits)
    from turns_return [OF v(2-5) this] v(1)
    show "\<exists>u. go_fold wait_step (replicate (ws_sends w) SendToken @ [Look i, Choose i None, Look i]) w = Ret u
       \<and> at_of u i = Some (Back r)" by (auto simp: go_fold_append)
  qed (rule w(1))
qed

text \<open>A waiter that looked before the end and comes to its \<open>select\<close> when only the token is left.\<close>

theorem WaitState_no_lost_wakeup_witness:
  "\<exists>w u. go_fold wait_step [Enter 7 StateEnded, Look 7, Change 5 StateEnded ''remote-bye'']
        (wait_start (newInboundCall 1 sample_invite ''t'')) = Ret w
     \<and> at_of w 7 = Some (Choosing StateInit) \<and> ws_sends w = 4
     \<and> go_fold wait_step (replicate 4 SendToken @ [Look 7, Choose 7 None, Look 7]) w = Ret u
     \<and> at_of u 7 = Some (Back (PollOk None))"
proof -
  let ?es = "[Enter 7 StateEnded, Look 7, Change 5 StateEnded ''remote-bye'']"
    and ?c = "newInboundCall 1 sample_invite ''t''"
  have only: "\<forall>e \<in> set ?es. \<forall>j target. e = Enter j target \<longrightarrow> j = 7" by simp
  from WaitState_no_lost_wakeup [OF call_ok_new(1) only, of 1 sample_invite "''t''"]
  obtain w where w: "go_fold wait_step ?es (wait_start ?c) = Ret w" and
    res: "\<And>x r. ws_waiters w 7 = Some x \<Longrightarrow> \<not> is_Back (w_at x) \<Longrightarrow>
      WaitState (w_target x) [(c_state (ws_call w), None)] = r \<Longrightarrow> r \<noteq> PollPending \<Longrightarrow>
      \<exists>u. go_fold wait_step (replicate (ws_sends w) SendToken @ [Look 7, Choose 7 None, Look 7]) w = Ret u
        \<and> at_of u 7 = Some (Back r)" by blast
  have "case go_fold wait_step ?es (wait_start ?c) of
      Ret w \<Rightarrow> ws_waiters w 7 = Some \<lparr>w_target = StateEnded, w_at = Choosing StateInit\<rparr>
        \<and> ws_sends w = 4 \<and> c_state (ws_call w) = StateEnded
    | Panic \<Rightarrow> False" by code_simp
  with w have v: "ws_waiters w 7 = Some \<lparr>w_target = StateEnded, w_at = Choosing StateInit\<rparr>" "ws_sends w = 4"
    "c_state (ws_call w) = StateEnded" by auto
  with res [OF v(1)] w show ?thesis by (simp add: at_of_def del: replicate.simps go_fold.simps)
qed

text \<open>Two waiters that have both looked before the call ends, and come to their \<open>select\<close> after it.\<close>

definition two_waiters :: "wait_event list" where
  "two_waiters = [Enter 0 StateEnded, Enter 1 StateEnded, Look 0, Look 1, Change 9 StateEnded ''remote-bye'',
     SendToken, SendToken, SendToken, SendToken, Choose 0 None, Look 0, Choose 1 None]"

definition asleep :: "call_state \<Rightarrow> wait_sys \<Rightarrow> bool" where
  "asleep s w \<longleftrightarrow> ws_sends w = 0 \<and> c_state (ws_call w) = StateEnded \<and> at_of w 1 = Some (Blocked s)"

definition end_stays :: "wait_event set" where
  "end_stays = {e. (\<forall>err. e \<noteq> Expire 1 err) \<and> (\<forall>now s reason. e = Change now s reason \<longrightarrow> s = StateEnded)}"

lemma asleep_step:
  assumes "wait_ok w" "asleep s w" "e \<in> end_stays" "wait_step e w = Ret v"
  shows "asleep s v"
proof (cases e)
  case (Enter j target)
  with assms(2,4) show ?thesis by (auto simp: asleep_def at_of_def)
next
  case (Look j)
  with assms(2,4) show ?thesis by (cases "at_of w j = Some Looking") (auto simp: asleep_def look_at look_off)
next
  case (Choose j ctx)
  have c: "call_ok (ws_call w)" using assms(1) by (simp add: wait_ok_def)
  show ?thesis
  proof (cases "\<exists>t. at_of w j = Some (Choosing t)")
    case True
    then show ?thesis using Choose assms(2,4) by (auto simp: asleep_def select_at [OF c] split: option.splits if_splits)
  qed (use Choose assms(2,4) in \<open>simp add: select_off\<close>)
qed (use assms in \<open>auto simp: asleep_def expire_def end_stays_def change_def send_token_def split: if_splits\<close>)

lemma two_waiters_run:
  assumes "call_ok c" "c_state c \<noteq> StateEnded"
  shows "\<exists>w. go_fold wait_step two_waiters (wait_start c) = Ret w \<and> wait_ok w \<and> asleep (c_state c) w
     \<and> at_of w 0 = Some (Back (PollOk None))"
proof -
  from publish_spec [OF assms(1), of 9 StateEnded "''remote-bye''"] obtain d where
    d: "publish 9 StateEnded ''remote-bye'' c = Ret d" "call_ok d" "c_state d = StateEnded" by blast
  let ?x = "\<lparr>w_target = StateEnded, w_at = Choosing (c_state c)\<rparr>"
  let ?w = "\<lparr>ws_call = d, ws_waiters = [0 \<mapsto> ?x, 1 \<mapsto> ?x], ws_queue = [], ws_sends = 4\<rparr>"
  have one: "go_fold wait_step [Enter 0 StateEnded, Enter 1 StateEnded, Look 0, Look 1, Change 9 StateEnded ''remote-bye''] (wait_start c)
    = Ret ?w"
    using assms(2) d(1) by (simp add: wait_start_def look_def put_waiter_def seen_iff change_def fun_upd_twist)
  let ?e = "d\<lparr>c_stateCh := (c_stateCh d)\<lparr>ch_buf := [()]\<rparr>\<rparr>"
  have e: "wake 4 d = Ret ?e" by (rule wake_4) (use d(2) in \<open>auto simp: call_ok_def\<close>)
  have two: "go_fold wait_step (replicate 4 SendToken) ?w = Ret (?w\<lparr>ws_call := ?e, ws_sends := 0\<rparr>)"
    using sends_wake [of ?w 4] e by simp
  have three: "go_fold wait_step [Choose 0 None, Look 0, Choose 1 None] (?w\<lparr>ws_call := ?e, ws_sends := 0\<rparr>) = Ret
     \<lparr>ws_call = d\<lparr>c_stateCh := (c_stateCh d)\<lparr>ch_buf := []\<rparr>\<rparr>,
      ws_waiters = [0 \<mapsto> \<lparr>w_target = StateEnded, w_at = Back (PollOk None)\<rparr>, 1 \<mapsto> \<lparr>w_target = StateEnded, w_at = Blocked (c_state c)\<rparr>],
      ws_queue = [1], ws_sends = 0\<rparr>" (is "_ = Ret ?z")
    using d(2,3) by (simp add: select_turn_def try_recv_def put_waiter_def look_def seen_iff call_ok_def fun_upd_twist)
  have sched: "two_waiters = [Enter 0 StateEnded, Enter 1 StateEnded, Look 0, Look 1, Change 9 StateEnded ''remote-bye'']
      @ replicate 4 SendToken @ [Choose 0 None, Look 0, Choose 1 None]"
    by (simp add: two_waiters_def eval_nat_numeral)
  have run: "go_fold wait_step two_waiters (wait_start c) = Ret ?z"
    unfolding sched go_fold_append one go_bind.simps two three ..
  moreover have "wait_ok ?z" using waits.run_ok [of "wait_start c" two_waiters] wait_start_ok [OF assms(1)] run by auto
  ultimately show ?thesis using d(3) by (simp add: asleep_def at_of_def)
qed

text \<open>
  C39 (safety): Two goroutines that wait for the end of one call need not both learn of it. The four
  sends of a state change share a channel of capacity one, so when both have looked before the
  end and neither is blocked yet, one token is left for two: on any call that has not ended, the
  given schedule ends with no send outstanding, the first waiter returned and the second blocked,
  and as long as the call stays ended nothing but its own context gets it out.
\<close>

theorem second_waiter_sleeps:
  assumes "call_ok c" and "c_state c \<noteq> StateEnded"
  shows "\<exists>w. go_fold wait_step two_waiters (wait_start c) = Ret w
     \<and> ws_sends w = 0 \<and> c_state (ws_call w) = StateEnded \<and> at_of w 0 = Some (Back (PollOk None))
     \<and> (\<forall>more. set more \<subseteq> end_stays \<longrightarrow>
          (\<exists>u. go_fold wait_step more w = Ret u \<and> at_of u 1 = Some (Blocked (c_state c))))"
proof -
  from two_waiters_run [OF assms] obtain w where w: "go_fold wait_step two_waiters (wait_start c) = Ret w" "wait_ok w"
    "asleep (c_state c) w" "at_of w 0 = Some (Back (PollOk None))" by blast
  have "\<exists>u. go_fold wait_step more w = Ret u \<and> at_of u 1 = Some (Blocked (c_state c))" if "set more \<subseteq> end_stays" for more
  proof -
    from waits.run_ok [OF w(2), of more] obtain u where u: "go_fold wait_step more w = Ret u" by blast
    have "asleep (c_state c) u"
      by (rule waits.run_keeps [where Q = "asleep (c_state c)", OF _ w(2,3) that u]) (rule asleep_step)
    with u show ?thesis by (simp add: asleep_def)
  qed
  with w show ?thesis unfolding asleep_def by blast
qed

theorem second_waiter_sleeps_witness:
  "\<exists>w u. go_fold wait_step two_waiters (wait_start (newInboundCall 1 sample_invite ''t'')) = Ret w
     \<and> go_fold wait_step [SendToken, Look 1, Choose 1 None, Look 1] w = Ret u
     \<and> c_state (ws_call w) = StateEnded \<and> at_of u 1 = Some (Blocked StateInit)"
proof -
  have s: "c_state (newInboundCall 1 sample_invite ''t'') = StateInit" by code_simp
  then have "c_state (newInboundCall 1 sample_invite ''t'') \<noteq> StateEnded" by simp
  from second_waiter_sleeps [OF call_ok_new(1) this] obtain w where
    w: "go_fold wait_step two_waiters (wait_start (newInboundCall 1 sample_invite ''t'')) = Ret w" "c_state (ws_call w) = StateEnded"
    and more: "\<And>more. set more \<subseteq> end_stays \<Longrightarrow> \<exists>u. go_fold wait_step more w = Ret u \<and> at_of u 1 = Some (Blocked StateInit)"
    using s by metis
  have "set [SendToken, Look 1, Choose 1 None, Look 1] \<subseteq> end_stays" by (simp add: end_stays_def)
  from more [OF this] w show ?thesis by blast
qed

end
