(* ===== verification/Sip_Drain.thy ===== *)
theory Sip_Drain
  imports Sip_Call
begin

text \<open>
  \<open>internal/sip/drain.go\<close>: hanging up every live call within a time budget. The loop of \<open>drainOne\<close>
  takes the events its \<open>select\<close> receives, in the order it receives them; \<open>drainCalls\<close> takes the
  order in which its goroutines finish. The lemmas show that the loop returns as soon as a
  timer fires, what a result means, and that the results come in input order whatever the
  order of completion.
\<close>

record drain_result =
  de_CallID :: string
  de_HangupErr :: "string option"
  de_Ended :: bool

text \<open>What a call's \<open>Hangup\<close> does: it returns, or it panics with a value.\<close>

datatype hangup_outcome = HangupReturns "string option" | HangupPanics string

definition safeHangup :: "hangup_outcome \<Rightarrow> string option" where
  "safeHangup h =
     (case h of HangupReturns err \<Rightarrow> err | HangupPanics r \<Rightarrow> Some (''hangup panicked: '' @ r))"

datatype drain_event = HangupDone | DoneClosed | PerCallTimer | TotalDone

text \<open>
  The loop. A second \<open>DoneClosed\<close> is the local channel set to nil, a second \<open>HangupDone\<close> a
  channel that carries one value: neither case fires. \<open>None\<close> is a loop that still waits.
\<close>

fun drain_loop :: "string option \<Rightarrow> bool \<Rightarrow> drain_result \<Rightarrow> drain_event list \<Rightarrow> drain_result option" where
  "drain_loop err seen res [] = None"
| "drain_loop err seen res (PerCallTimer # es) = Some res"
| "drain_loop err seen res (TotalDone # es) = Some res"
| "drain_loop err seen res (HangupDone # es) =
     (if seen then drain_loop err seen res es
      else let res' = res\<lparr>de_HangupErr := err\<rparr> in
        if de_Ended res' then Some res' else drain_loop err True res' es)"
| "drain_loop err seen res (DoneClosed # es) =
     (if de_Ended res then drain_loop err seen res es
      else let res' = res\<lparr>de_Ended := True\<rparr> in
        if seen then Some res' else drain_loop err seen res' es)"

record drain_input =
  di_CallID :: string
  di_doneAtStart :: bool
  di_hangup :: hangup_outcome
  di_doneAfterHangup :: bool
  di_events :: "drain_event list"

definition drainOne :: "bool \<Rightarrow> drain_input \<Rightarrow> drain_result option" where
  "drainOne noWait d =
     (let res = \<lparr>de_CallID = di_CallID d, de_HangupErr = None, de_Ended = False\<rparr>;
          err = safeHangup (di_hangup d)
      in if di_doneAtStart d then Some (res\<lparr>de_HangupErr := err, de_Ended := True\<rparr>)
         else if noWait then Some (res\<lparr>de_HangupErr := err, de_Ended := di_doneAfterHangup d\<rparr>)
         else drain_loop err False res (di_events d))"

definition no_result :: drain_result where
  "no_result = \<lparr>de_CallID = [], de_HangupErr = None, de_Ended = False\<rparr>"

text \<open>
  \<open>order\<close> is the order in which the goroutines finish, each writing its own slot; a goroutine
  that never finishes would keep \<open>drainCalls\<close> waiting.
\<close>

fun write_slots :: "(nat \<Rightarrow> drain_result option) \<Rightarrow> nat list \<Rightarrow> drain_result list \<Rightarrow> drain_result list option" where
  "write_slots r [] results = Some results"
| "write_slots r (i # order) results =
     (case r i of None \<Rightarrow> None | Some x \<Rightarrow> write_slots r order (results[i := x]))"

definition drainCalls :: "int \<Rightarrow> int \<Rightarrow> nat list \<Rightarrow> drain_input list \<Rightarrow> drain_result list option" where
  "drainCalls perCall budget order calls =
     (if calls = [] then Some []
      else write_slots (\<lambda>i. drainOne (perCall \<le> 0 \<or> budget \<le> 0) (calls ! i)) order
             (replicate (length calls) no_result))"

section \<open>Lemmas\<close>

definition is_timer :: "drain_event \<Rightarrow> bool" where
  "is_timer e \<longleftrightarrow> e = PerCallTimer \<or> e = TotalDone"

abbreviation in_time :: "drain_event list \<Rightarrow> drain_event list" where
  "in_time es \<equiv> takeWhile (\<lambda>e. \<not> is_timer e) es"

lemma drain_loop_result:
  "drain_loop err seen res es = Some r \<Longrightarrow> (seen \<longrightarrow> de_HangupErr res = err) \<Longrightarrow>
     \<not> (seen \<and> de_Ended res) \<Longrightarrow>
     de_CallID r = de_CallID res
     \<and> (de_Ended r \<longleftrightarrow> de_Ended res \<or> DoneClosed \<in> set (in_time es))
     \<and> de_HangupErr r = (if seen \<or> HangupDone \<in> set (in_time es) then err else de_HangupErr res)"
  by (induction err seen res es rule: drain_loop.induct)
    (auto simp: is_timer_def Let_def split: if_splits)

lemma drain_loop_returns:
  "\<exists>e\<in>set es. is_timer e \<Longrightarrow> \<exists>r. drain_loop err seen res es = Some r"
  by (induction err seen res es rule: drain_loop.induct) (auto simp: is_timer_def Let_def)

lemma write_slots_all:
  "\<forall>i\<in>set order. \<exists>x. r i = Some x \<Longrightarrow> \<forall>i\<in>set order. i < length results \<Longrightarrow>
     \<exists>out. write_slots r order results = Some out \<and> length out = length results
       \<and> (\<forall>j < length results. out ! j = (if j \<in> set order then the (r j) else results ! j))"
proof (induction order arbitrary: results)
  case Nil
  then show ?case by simp
next
  case (Cons i order)
  then obtain x where x: "r i = Some x" by auto
  from Cons.IH [of "results[i := x]"] Cons.prems obtain out where
    "write_slots r order (results[i := x]) = Some out" "length out = length results"
    "\<forall>j < length results. out ! j = (if j \<in> set order then the (r j) else results[i := x] ! j)" by auto
  with x show ?case by (auto simp: nth_list_update)
qed

text \<open>
  The results are those of the calls one by one, in input order, in whatever order the goroutines
  finish.
\<close>

lemma drainCalls_in_order:
  assumes "\<forall>d\<in>set calls. \<exists>r. drainOne (perCall \<le> 0 \<or> budget \<le> 0) d = Some r"
    and "set order = {..<length calls}"
  shows "drainCalls perCall budget order calls
       = Some (map (\<lambda>d. the (drainOne (perCall \<le> 0 \<or> budget \<le> 0) d)) calls)"
proof (cases "calls = []")
  case True
  then show ?thesis by (simp add: drainCalls_def)
next
  case False
  let ?r = "\<lambda>i. drainOne (perCall \<le> 0 \<or> budget \<le> 0) (calls ! i)"
  have "\<forall>i\<in>set order. \<exists>x. ?r i = Some x" using assms by auto
  from write_slots_all [OF this, of "replicate (length calls) no_result"] assms(2) obtain out where
    out: "write_slots ?r order (replicate (length calls) no_result) = Some out" "length out = length calls"
      "\<forall>j < length calls. out ! j = the (?r j)" by auto
  have "out = map (\<lambda>d. the (drainOne (perCall \<le> 0 \<or> budget \<le> 0) d)) calls"
    using out(2,3) by (intro nth_equalityI) auto
  with out(1) False show ?thesis by (simp add: drainCalls_def)
qed

section \<open>Properties\<close>

text \<open>
  C23 (termination): once either timer is among the events, the loop returns, also when the
  hangup never does; its result carries the call's id, says that the call ended exactly when
  the done channel closed before the timer, and holds the hangup's error exactly when the
  hangup came back before it.
\<close>

theorem drainOne_bounded:
  assumes "\<not> di_doneAtStart d" and "\<exists>e\<in>set (di_events d). is_timer e"
  shows "\<exists>r. drainOne False d = Some r \<and> de_CallID r = di_CallID d
     \<and> (de_Ended r \<longleftrightarrow> DoneClosed \<in> set (in_time (di_events d)))
     \<and> de_HangupErr r = (if HangupDone \<in> set (in_time (di_events d)) then safeHangup (di_hangup d) else None)"
proof -
  let ?res = "\<lparr>de_CallID = di_CallID d, de_HangupErr = None, de_Ended = False\<rparr>"
  from drain_loop_returns [OF assms(2)] obtain r where
    r: "drain_loop (safeHangup (di_hangup d)) False ?res (di_events d) = Some r" by blast
  with drain_loop_result [OF r] assms(1) show ?thesis by (simp add: drainOne_def)
qed

definition wedged :: drain_input where
  "wedged = \<lparr>di_CallID = ''c1'', di_doneAtStart = False, di_hangup = HangupPanics ''boom'',
     di_doneAfterHangup = False, di_events = [DoneClosed, TotalDone]\<rparr>"

theorem drainOne_bounded_witness:
  "\<exists>r. drainOne False wedged = Some r \<and> de_CallID r = di_CallID wedged
     \<and> (de_Ended r \<longleftrightarrow> DoneClosed \<in> set (in_time (di_events wedged)))
     \<and> de_HangupErr r = (if HangupDone \<in> set (in_time (di_events wedged)) then safeHangup (di_hangup wedged) else None)"
  by (rule drainOne_bounded) (simp_all add: wedged_def is_timer_def)

end
