(* ===== verification/Sip_Stack.thy ===== *)
theory Sip_Stack
  imports Sip_Drain
begin

text \<open>
  The stack of one test user: \<open>internal/sip/uas.go\<close> (registration, dispatch of inbound calls,
  shutdown), \<open>uac.go\<close> and \<open>uac_cancel.go\<close> (outbound calls). The third-party user agent is a
  parameter: its answers are arguments. The lemmas show that an inbound call is ended when its
  handler is done with it, in what order and how often a stack is shut down, how often a
  registration is tried, and what the outbound operations return on each answer.
\<close>

section \<open>Configuration\<close>

record config =
  cf_SIPDomain :: string
  cf_User :: string
  cf_Pass :: string
  cf_Transport :: string
  cf_LogLevel :: string
  cf_Owner :: string
  cf_TLSBindHost :: string
  cf_TLSBindPort :: int

text \<open>The transports the user agent listens on: kind, host and port.\<close>

type_synonym transport = "string \<times> string \<times> int"

datatype stack_event =
    Registered
  | Drained "drain_result list"
  | Deregistered bool
  | ServeCancelled
  | AgentClosed
  | WarnUnclean string

record stack =
  sk_cfg :: config
  sk_agent :: string
  sk_transports :: "transport list"
  sk_regTx :: bool
  sk_stopped :: bool
  sk_handler :: bool
  sk_calls :: "call list"
  sk_events :: "stack_event list"

definition SetHandler :: "bool \<Rightarrow> stack \<Rightarrow> stack" where
  "SetHandler h s = s\<lparr>sk_handler := h\<rparr>"

definition track :: "call option \<Rightarrow> stack \<Rightarrow> stack" where
  "track c s = (case c of None \<Rightarrow> s | Some x \<Rightarrow> s\<lparr>sk_calls := sk_calls s @ [x]\<rparr>)"

definition liveCalls :: "stack \<Rightarrow> call list" where
  "liveCalls s = filter (\<lambda>c. \<not> ch_closed (c_doneCh c)) (sk_calls s)"

section \<open>Registration\<close>

text \<open>
  One attempt: what the user agent answers to building the transaction and to sending it, with
  the error text, and for an error whether the stack's context is done by then. A final
  rejection by the registrar is told apart from every other error.
\<close>

datatype register_answer = TxFails string bool | TxRejected string | TxError string bool | TxOk

datatype register_outcome = RegOk | RegRejected string | RegFailed string bool

fun registerOnce :: "register_answer \<Rightarrow> register_outcome" where
  "registerOnce (TxFails err ctx_done) = RegFailed (''register: build transaction: '' @ err) ctx_done"
| "registerOnce (TxRejected err) = RegRejected (''register: '' @ err)"
| "registerOnce (TxError err ctx_done) = RegFailed (''register: '' @ err) ctx_done"
| "registerOnce TxOk = RegOk"

definition registerAttempts :: nat where "registerAttempts = 3"

text \<open>The attempts left, the last error, and the outcomes to come; the result and the attempts made.\<close>

fun register_loop :: "nat \<Rightarrow> string option \<Rightarrow> register_outcome list \<Rightarrow> nat \<Rightarrow> string option \<times> nat" where
  "register_loop 0 lastErr outs made = (lastErr, made)"
| "register_loop (Suc k) lastErr [] made = (lastErr, made)"
| "register_loop (Suc k) lastErr (out # outs) made =
     (case out of
        RegOk \<Rightarrow> (None, made + 1)
      | RegRejected err \<Rightarrow> (Some err, made + 1)
      | RegFailed err ctx_done \<Rightarrow>
          if ctx_done then (Some err, made + 1) else register_loop k (Some err) outs (made + 1))"

definition stack_register :: "register_answer list \<Rightarrow> string option \<times> nat" where
  "stack_register answers = register_loop registerAttempts None (map registerOnce answers) 0"

definition transports :: "config \<Rightarrow> transport list" where
  "transports cfg =
     [(''tcp'', ''0.0.0.0'', 0), (''udp'', ''0.0.0.0'', 0)]
     @ (if cf_TLSBindPort cfg \<noteq> 0 then [(''tls'', nonEmpty (cf_TLSBindHost cfg) ''0.0.0.0'', cf_TLSBindPort cfg)] else [])"

text \<open>
  \<open>ua_err\<close> is the error of building the user agent, \<open>tls_err\<close> that of generating a certificate for
  a host, which is asked for only with a TLS port. The debug log level has no effect here.
\<close>

definition Start ::
  "string option \<Rightarrow> (string \<Rightarrow> string option) \<Rightarrow> register_answer list \<Rightarrow> bool \<Rightarrow> config \<Rightarrow> string + stack" where
  "Start ua_err tls_err answers handler cfg =
     (let cfg1 = (if cf_Transport cfg = [] then cfg\<lparr>cf_Transport := ''tcp''\<rparr> else cfg) in
      case ua_err of
        Some err \<Rightarrow> Inl (''sipgo NewUA: '' @ err)
      | None \<Rightarrow>
          (case (if cf_TLSBindPort cfg1 \<noteq> 0 then tls_err (cf_TLSBindHost cfg1) else None) of
             Some err \<Rightarrow> Inl err
           | None \<Rightarrow>
               let s = \<lparr>sk_cfg = cfg1, sk_agent = nonEmpty (cf_User cfg1) ''jambonz-it'',
                        sk_transports = transports cfg1, sk_regTx = False, sk_stopped = False,
                        sk_handler = handler, sk_calls = [], sk_events = []\<rparr> in
               if cf_SIPDomain cfg1 \<noteq> [] \<and> cf_User cfg1 \<noteq> [] \<and> cf_Pass cfg1 \<noteq> [] then
                 (case fst (stack_register answers) of
                    Some err \<Rightarrow> Inl err
                  | None \<Rightarrow> Inr (s\<lparr>sk_regTx := True, sk_events := [Registered]\<rparr>))
               else Inr s))"

section \<open>Inbound calls\<close>

text \<open>
  \<open>handler\<close> is what the configured handler does to the call, as a run of its operations, or
  \<open>None\<close> for a stack without one. The teardown afterwards has the dialog's reply as argument. The
  call is tracked before the handler runs; the stack holds a pointer to it, so what it tracks
  when dispatch returns is the call as it then is.
\<close>

definition dispatchInbound ::
  "int \<Rightarrow> sip_request \<Rightarrow> call_op list option \<Rightarrow> bool \<Rightarrow> bool \<Rightarrow> dialog_reply \<Rightarrow> stack \<Rightarrow> (call \<times> stack) go" where
  "dispatchInbound now req handler hook drained rep s =
     (let c = newInboundCall now req (cf_Owner (sk_cfg s)) in
      case handler of
        None \<Rightarrow>
          go_bind (Reject 480 ''Temporarily Unavailable'' rep c) (\<lambda>(_, c1). Ret (c1, track (Some c1) s))
      | Some ops \<Rightarrow>
          go_bind (go_fold call_step ops c)
            (\<lambda>c1. if c_state c1 \<noteq> StateEnded
                  then go_bind (Hangup hook drained rep c1) (\<lambda>(_, c2). Ret (c2, track (Some c2) s))
                  else Ret (c1, track (Some c1) s)))"

section \<open>Shutdown\<close>

definition unclean :: "drain_result \<Rightarrow> bool" where
  "unclean r \<longleftrightarrow> \<not> de_Ended r \<or> de_HangupErr r \<noteq> None"

text \<open>
  How the drain of one call goes: what happens to the call between the snapshot of the live calls
  and its own drain (\<open>ld_before\<close>), what its \<open>Hangup\<close> meets (as for \<open>Hangup\<close> itself), and what the
  waiting loop receives. A call that has ended by the time its drain starts is hung up
  synchronously, which acts on a call that has left the ended state again. Otherwise a hangup that
  does not come back leaves the call as it was.
\<close>

record leg_drain =
  ld_before :: "call_event list"
  ld_hook :: bool
  ld_drained :: bool
  ld_reply :: dialog_reply
  ld_events :: "drain_event list"

definition before_drain :: "leg_drain \<Rightarrow> call \<Rightarrow> call" where
  "before_drain b c = (case meanwhile (ld_before b) c of Ret c' \<Rightarrow> c' | Panic \<Rightarrow> c)"

definition hang_up_leg :: "leg_drain \<Rightarrow> call \<Rightarrow> (call_error option \<times> call) go" where
  "hang_up_leg b c = Hangup (ld_hook b) (ld_drained b) (ld_reply b) c"

definition hung_up :: "leg_drain \<Rightarrow> call \<Rightarrow> bool" where
  "hung_up b c \<longleftrightarrow> ch_closed (c_doneCh (before_drain b c)) \<or> HangupDone \<in> set (ld_events b)"

definition after_drain :: "leg_drain \<Rightarrow> call \<Rightarrow> call" where
  "after_drain b c =
     (if hung_up b c
      then (case hang_up_leg b (before_drain b c) of Ret (_, c') \<Rightarrow> c' | Panic \<Rightarrow> before_drain b c)
      else before_drain b c)"

definition leg_input :: "leg_drain \<Rightarrow> call \<Rightarrow> drain_input" where
  "leg_input b c =
     (let c1 = before_drain b c in
      \<lparr>di_CallID = call_CallID c, di_doneAtStart = ch_closed (c_doneCh c1),
       di_hangup = (case hang_up_leg b c1 of
           Ret (err, _) \<Rightarrow> HangupReturns (map_option call_error_text err)
         | Panic \<Rightarrow> HangupPanics ''runtime error''),
       di_doneAfterHangup = ch_closed (c_doneCh (after_drain b c)), di_events = ld_events b\<rparr>)"

text \<open>
  \<open>behave\<close> says how the drain of a live call goes, \<open>order\<close> in which order the drains finish,
  \<open>dereg_ok\<close> whether the de-registration succeeds. \<open>None\<close> is a drain that never returns.
\<close>

definition Stop ::
  "(call \<Rightarrow> leg_drain) \<Rightarrow> nat list \<Rightarrow> bool \<Rightarrow> stack \<Rightarrow> stack option" where
  "Stop behave order dereg_ok s =
     (if sk_stopped s then Some s
      else
        let live = liveCalls s;
            rest = (if sk_regTx s then [Deregistered dereg_ok] else []) @ [ServeCancelled, AgentClosed] in
        if live = [] then Some (s\<lparr>sk_stopped := True, sk_events := sk_events s @ rest\<rparr>)
        else case drainCalls 5000000000 10000000000 order (map (\<lambda>c. leg_input (behave c) c) live) of
          None \<Rightarrow> None
        | Some rs \<Rightarrow>
            Some (s\<lparr>sk_stopped := True,
                    sk_calls := map (\<lambda>c. if ch_closed (c_doneCh c) then c else after_drain (behave c) c) (sk_calls s),
                    sk_events := sk_events s @ [Drained rs]
                    @ map (\<lambda>r. WarnUnclean (de_CallID r)) (filter unclean rs) @ rest\<rparr>))"

section \<open>Outbound calls\<close>

record invite_options =
  io_Transport :: string
  io_Username :: string
  io_Password :: string
  io_Headers :: headers
  io_SDPMode :: string

text \<open>\<open>uri_err\<close> is the error of the third-party URI parser.\<close>

definition prepareInvite ::
  "string option \<Rightarrow> config \<Rightarrow> invite_options \<Rightarrow> string + (invite_options \<times> headers)" where
  "prepareInvite uri_err cfg opts =
     (case uri_err of
        Some err \<Rightarrow> Inl (''parse dest uri: '' @ err)
      | None \<Rightarrow>
          let opts1 = opts\<lparr>io_Transport := (if io_Transport opts \<noteq> [] then io_Transport opts
                             else if cf_Transport cfg \<noteq> [] then cf_Transport cfg else ''tcp''),
                           io_Username := (if io_Username opts = [] then cf_User cfg else io_Username opts),
                           io_Password := (if io_Password opts = [] then cf_Pass cfg else io_Password opts)\<rparr>
          in if io_SDPMode opts1 \<notin> {[], ''sendrecv'', ''sendonly'', ''recvonly'', ''inactive''}
             then Inl (''invite: invalid SDPMode '' @ go_quote (io_SDPMode opts1)
                       @ '' (want sendrecv/sendonly/recvonly/inactive)'')
             else Inr (opts1, io_Headers opts1))"

datatype invite_error = InviteRejected int string sip_response | InviteFailed string

fun invite_error_text :: "invite_error \<Rightarrow> string" where
  "invite_error_text (InviteRejected status reason res) = ''invite rejected: '' @ itoa status @ '' '' @ reason"
| "invite_error_text (InviteFailed err) = err"

fun RejectedHeader :: "string \<Rightarrow> invite_error \<Rightarrow> string" where
  "RejectedHeader name (InviteRejected status reason res) = ci_lookup name (rp_Headers res)"
| "RejectedHeader name (InviteFailed err) = []"

text \<open>
  An error of the dialog, which may carry the peer's final response. The established dialog is
  its INVITE and the final response, if the library kept it.
\<close>

record dialog_error =
  dg_text :: string
  dg_response :: "sip_response option"

definition invite_failure :: "string \<Rightarrow> dialog_error \<Rightarrow> invite_error" where
  "invite_failure op e =
     (case dg_response e of
        Some res \<Rightarrow> InviteRejected (rp_StatusCode res) (rp_Reason res) res
      | None \<Rightarrow> InviteFailed (op @ '': '' @ dg_text e))"

definition Invite ::
  "string option \<Rightarrow> (dialog_error + (sip_request \<times> sip_response option)) \<Rightarrow> string \<Rightarrow> int
     \<Rightarrow> invite_options \<Rightarrow> stack \<Rightarrow> ((invite_error + call) \<times> stack) go" where
  "Invite uri_err dialog codec now opts s =
     (case prepareInvite uri_err (sk_cfg s) opts of
        Inl err \<Rightarrow> Ret (Inl (InviteFailed err), s)
      | Inr _ \<Rightarrow>
          (case dialog of
             Inl e \<Rightarrow> Ret (Inl (invite_failure ''invite'' e), s)
           | Inr (req, final) \<Rightarrow>
               go_bind (setState now StateAnswered [] (newOutboundCall now req (cf_Owner (sk_cfg s))))
                 (\<lambda>c. let c1 = (case final of
                                  None \<Rightarrow> c | Some res \<Rightarrow> recordReceived (newResponseMsg MsgRecv now res) c);
                          c2 = c1\<lparr>c_codec := codec\<rparr>
                      in Ret (Inr c2, track (Some c2) s))))"

text \<open>
  The outcome of an INVITE that asks for early media: early media, an answer, or an error; and
  the responses seen on the way, with their bodies.
\<close>

datatype early_outcome = EarlyMedia | AnsweredOutright | EarlyFailed dialog_error

definition early_response :: "(sip_response \<times> string) list \<Rightarrow> sip_response option" where
  "early_response seen =
     fold (\<lambda>(res, body) early.
       if 100 \<le> rp_StatusCode res \<and> rp_StatusCode res < 200 \<and> body \<noteq> [] then Some res else early) seen None"

definition InviteEarlyMedia ::
  "string option \<Rightarrow> string option \<Rightarrow> (sip_response \<times> string) list \<Rightarrow> early_outcome
     \<Rightarrow> config \<Rightarrow> invite_options \<Rightarrow> invite_error + (sip_response option)" where
  "InviteEarlyMedia uri_err dialog_err seen out cfg opts =
     (case prepareInvite uri_err cfg opts of
        Inl err \<Rightarrow> Inl (InviteFailed err)
      | Inr _ \<Rightarrow>
          (case dialog_err of
             Some err \<Rightarrow> Inl (InviteFailed (''inviteEarlyMedia: new dialog: '' @ err))
           | None \<Rightarrow>
               (case out of
                  EarlyMedia \<Rightarrow> Inr (early_response seen)
                | AnsweredOutright \<Rightarrow> Inl (InviteFailed (''inviteEarlyMedia: call was answered, expected early media ''
                    @ ''(is earlyMedia set on the first verb?)''))
                | EarlyFailed e \<Rightarrow> Inl (invite_failure ''inviteEarlyMedia'' e))))"

definition header_of :: "string \<Rightarrow> headers \<Rightarrow> headers" where
  "header_of name hs = filter (\<lambda>h. equal_fold (fst h) name) hs"

definition cancel_request :: "sip_request \<Rightarrow> headers \<Rightarrow> sip_request" where
  "cancel_request invite extra =
     \<lparr>rq_Method = ''CANCEL'',
      rq_Headers = take 1 (header_of ''Via'' (rq_Headers invite)) @ take 1 (header_of ''From'' (rq_Headers invite))
        @ take 1 (header_of ''To'' (rq_Headers invite)) @ take 1 (header_of ''Call-ID'' (rq_Headers invite))
        @ header_of ''Route'' (rq_Headers invite) @ extra,
      rq_CallID = rq_CallID invite, rq_CSeq = None, rq_Body = []\<rparr>"

definition CancelWithHeaders :: "(sip_request \<Rightarrow> string + sip_response) \<Rightarrow> sip_request \<Rightarrow> headers \<Rightarrow> string option" where
  "CancelWithHeaders send invite extra =
     (case send (cancel_request invite extra) of
        Inl err \<Rightarrow> Some (''cancelWithHeaders: '' @ err)
      | Inr res \<Rightarrow>
          if rp_StatusCode res \<noteq> 200
          then Some (''cancelWithHeaders: CANCEL got '' @ itoa (rp_StatusCode res) @ '' '' @ rp_Reason res)
          else None)"

section \<open>Lemmas\<close>

lemma register_loop_bound: "snd (register_loop k e outs made) \<le> made + k"
  by (induction k e outs made rule: register_loop.induct) (auto split: register_outcome.split)

section \<open>Properties\<close>

text \<open>
  C15 (functional): when dispatch returns, an inbound call has ended, whatever its handler did,
  provided there is one; a stack without a handler ends it exactly when the 480 could be sent.
\<close>

theorem dispatchInbound_ends_call:
  "\<exists>c s'. dispatchInbound now req handler hook drained rep s = Ret (c, s') \<and> call_ok c
     \<and> sk_calls s' = sk_calls s @ [c]
     \<and> (handler \<noteq> None \<longrightarrow> c_state c = StateEnded \<and> ch_closed (c_doneCh c))
     \<and> (handler = None \<and> dr_meanwhile rep = [] \<longrightarrow> (c_state c = StateEnded \<longleftrightarrow> dr_err rep = None))"
proof (cases handler)
  case None
  let ?c = "newInboundCall now req (cf_Owner (sk_cfg s))"
  from reject_good [of ?c "''Reject''" 480 "''Temporarily Unavailable''" rep] obtain e d where
    d: "reject ''Reject'' 480 ''Temporarily Unavailable'' rep ?c = Ret (e, d)" "good ?c d" by auto
  have "dr_meanwhile rep = [] \<longrightarrow> (c_state d = StateEnded \<longleftrightarrow> dr_err rep = None)"
    using d(1) by (auto simp: reject_def dest: setState_state [OF call_ok_new(1)] split: option.splits)
  with None d show ?thesis by (auto simp: dispatchInbound_def Reject_def track_def good_def)
next
  case (Some ops)
  from inbound.run_ok [of "newInboundCall now req (cf_Owner (sk_cfg s))" ops] obtain c1 where
    c1: "go_fold call_step ops (newInboundCall now req (cf_Owner (sk_cfg s))) = Ret c1" "call_ok c1" by auto
  show ?thesis
  proof (cases "c_state c1 = StateEnded")
    case True
    then show ?thesis using c1 Some by (auto simp: dispatchInbound_def track_def call_ok_def)
  next
    case False
    from Hangup_spec [OF c1(2), of hook drained rep] obtain d where
      "Hangup hook drained rep c1 = Ret (None, d)" "good c1 d" "c_state d = StateEnded" by blast
    with False c1 Some show ?thesis by (auto simp: dispatchInbound_def track_def good_def call_ok_def)
  qed
qed

definition idle_stack :: stack where
  "idle_stack = \<lparr>sk_cfg = \<lparr>cf_SIPDomain = ''d'', cf_User = ''u'', cf_Pass = ''p'', cf_Transport = ''tcp'',
       cf_LogLevel = [], cf_Owner = ''t'', cf_TLSBindHost = [], cf_TLSBindPort = 0\<rparr>,
     sk_agent = ''u'', sk_transports = [], sk_regTx = True, sk_stopped = False, sk_handler = True,
     sk_calls = [ended_call, newInboundCall 1 sample_invite ''t''], sk_events = [Registered]\<rparr>"

theorem dispatchInbound_ends_call_witness:
  "\<exists>c s'. dispatchInbound 1 sample_invite (Some [OpTrying plain_reply]) True True plain_reply idle_stack = Ret (c, s')
     \<and> c_state c = StateEnded"
  using dispatchInbound_ends_call [of 1 sample_invite "Some [OpTrying plain_reply]" True True plain_reply idle_stack]
  by fastforce

text \<open>
  The shutdown happens once and in order: the live calls are drained first, then
  the registration is withdrawn if there is one, then the serve loop is cancelled and the agent
  closed; a second \<open>Stop\<close> does nothing.
\<close>

theorem Stop_order:
  assumes "\<not> sk_stopped s" and "Stop behave order dereg s = Some t"
  shows "\<exists>drain. sk_events t = sk_events s @ drain @ (if sk_regTx s then [Deregistered dereg] else [])
             @ [ServeCancelled, AgentClosed]
     \<and> (liveCalls s = [] \<longleftrightarrow> drain = [])
     \<and> (liveCalls s \<noteq> [] \<longrightarrow> (\<exists>rs. drain = Drained rs # map (\<lambda>r. WarnUnclean (de_CallID r)) (filter unclean rs)
          \<and> drainCalls 5000000000 10000000000 order (map (\<lambda>c. leg_input (behave c) c) (liveCalls s)) = Some rs))
     \<and> Stop behaveB orderB deregB t = Some t"
  using assms by (auto simp: Stop_def Let_def split: if_splits option.splits)

definition stuck_leg :: leg_drain where
  "stuck_leg = \<lparr>ld_before = [], ld_hook = False, ld_drained = True, ld_reply = plain_reply, ld_events = [PerCallTimer]\<rparr>"

lemma idle_stack_live: "liveCalls idle_stack = [newInboundCall 1 sample_invite ''t'']"
  using ended_call_ok by (simp add: liveCalls_def idle_stack_def call_ok_def newInboundCall_def blank_call_def
      recordReceived_def effect_def Let_def)

lemma idle_live_open: "\<not> ch_closed (c_doneCh (newInboundCall 1 sample_invite ''t''))"
  by (simp add: newInboundCall_def blank_call_def recordReceived_def effect_def Let_def)

theorem Stop_order_witness:
  "\<exists>t drain. Stop (\<lambda>c. stuck_leg) [0] True idle_stack = Some t
     \<and> sk_events t = sk_events idle_stack @ drain @ [Deregistered True] @ [ServeCancelled, AgentClosed] \<and> drain \<noteq> []"
proof -
  have "\<exists>r. drainOne False (leg_input stuck_leg c) = Some r" for c
    by (simp add: leg_input_def stuck_leg_def drainOne_def Let_def)
  then obtain r where "drainOne False (leg_input stuck_leg (newInboundCall 1 sample_invite ''t'')) = Some r" by blast
  then obtain t where t: "Stop (\<lambda>c. stuck_leg) [0] True idle_stack = Some t"
    using idle_stack_live by (auto simp: Stop_def drainCalls_def idle_stack_def Let_def)
  moreover have "\<not> sk_stopped idle_stack" "sk_regTx idle_stack" by (simp_all add: idle_stack_def)
  ultimately show ?thesis
    using Stop_order [of idle_stack "\<lambda>c. stuck_leg" "[0]" True t, where behaveB = "\<lambda>c. stuck_leg" and orderB = "[]" and deregB = False]
      idle_stack_live by auto
qed

lemma before_drain_good: "call_ok c \<Longrightarrow> good c (before_drain b c)"
  using meanwhile_good [of c "ld_before b"] by (auto simp: before_drain_def)

lemma hang_up_before_drain:
  "call_ok c \<Longrightarrow> \<exists>d. hang_up_leg b (before_drain b c) = Ret (None, d) \<and> good c d \<and> c_state d = StateEnded"
  using Hangup_spec [of "before_drain b c" "ld_hook b" "ld_drained b" "ld_reply b"] before_drain_good [of c b]
  by (auto simp: hang_up_leg_def dest: good_ok intro: good_trans)

text \<open>
  What the drain of a live call reports: the loop ends with its timer at the latest, \<open>Hangup\<close> has
  no error, and the call is flagged exactly if its done channel was neither closed when its drain
  started nor seen closed in time.
\<close>

lemma leg_drained:
  assumes "call_ok c" "\<exists>e\<in>set (ld_events b). is_timer e"
  shows "\<exists>r. drainOne False (leg_input b c) = Some r \<and> de_CallID r = call_CallID c
     \<and> (unclean r \<longleftrightarrow> \<not> ch_closed (c_doneCh (before_drain b c)) \<and> DoneClosed \<notin> set (in_time (ld_events b)))"
proof -
  let ?d = "leg_input b c" and ?res = "\<lparr>de_CallID = call_CallID c, de_HangupErr = None, de_Ended = False\<rparr>"
  from hang_up_before_drain [OF assms(1), of b] obtain d where
    "hang_up_leg b (before_drain b c) = Ret (None, d)" by blast
  then have h: "safeHangup (di_hangup ?d) = None" by (simp add: leg_input_def safeHangup_def Let_def)
  show ?thesis
  proof (cases "ch_closed (c_doneCh (before_drain b c))")
    case True
    with h show ?thesis by (simp add: drainOne_def Let_def unclean_def) (simp add: leg_input_def Let_def)
  next
    case False
    from drain_loop_returns [OF assms(2)] obtain r where r: "drain_loop None False ?res (ld_events b) = Some r" by blast
    moreover have "drainOne False ?d = drain_loop None False ?res (ld_events b)"
      using False h by (simp add: drainOne_def leg_input_def Let_def)
    ultimately show ?thesis using drain_loop_result [OF r] False by (auto simp: unclean_def)
  qed
qed

lemma after_drain_good: "call_ok c \<Longrightarrow> good c (after_drain b c)"
  using hang_up_before_drain [of c b] before_drain_good [of c b] by (auto simp: after_drain_def)

lemma after_drain_ended:
  assumes "call_ok c" "hung_up b c"
  shows "call_ok (after_drain b c) \<and> c_state (after_drain b c) = StateEnded \<and> ch_closed (c_doneCh (after_drain b c))"
  using hang_up_before_drain [OF assms(1), of b] assms(2) by (auto simp: after_drain_def good_def call_ok_def)

text \<open>
  C24 (liveness): \<open>Stop\<close> always returns, since the per-call timer ends every wait, and it leaves no call
  behind unnoticed: every call of the snapshot whose hangup came back, or that had ended by itself
  when its drain started, has ended, its done channel closed; and a warning is logged for exactly
  the live calls that had not ended by then and whose end was not seen in time.
\<close>

theorem Stop_ends_calls:
  assumes "\<not> sk_stopped s" "\<forall>c\<in>set (sk_calls s). call_ok c"
    and "\<forall>c\<in>set (liveCalls s). \<exists>e\<in>set (ld_events (behave c)). is_timer e"
    and "set order = {..<length (liveCalls s)}"
  shows "\<exists>t new. Stop behave order dereg s = Some t \<and> sk_events t = sk_events s @ new
     \<and> list_all2 (\<lambda>c c'. if ch_closed (c_doneCh c) then c' = c
          else hung_up (behave c) c \<longrightarrow> c_state c' = StateEnded \<and> ch_closed (c_doneCh c'))
        (sk_calls s) (sk_calls t)
     \<and> (\<forall>i. WarnUnclean i \<in> set new \<longleftrightarrow>
          (\<exists>c\<in>set (liveCalls s). call_CallID c = i \<and> \<not> ch_closed (c_doneCh (before_drain (behave c) c)) \<and> DoneClosed \<notin> set (in_time (ld_events (behave c)))))"
proof -
  let ?calls = "map (\<lambda>c. leg_input (behave c) c) (liveCalls s)"
  let ?rest = "(if sk_regTx s then [Deregistered dereg] else []) @ [ServeCancelled, AgentClosed]"
  let ?after = "\<lambda>c. if ch_closed (c_doneCh c) then c else after_drain (behave c) c"
  have live: "call_ok c \<and> \<not> ch_closed (c_doneCh c)" if "c \<in> set (liveCalls s)" for c
    using that assms(2) by (auto simp: liveCalls_def)
  have one: "\<exists>r. drainOne False (leg_input (behave c) c) = Some r \<and> de_CallID r = call_CallID c
     \<and> (unclean r \<longleftrightarrow> \<not> ch_closed (c_doneCh (before_drain (behave c) c)) \<and> DoneClosed \<notin> set (in_time (ld_events (behave c))))" if "c \<in> set (liveCalls s)" for c
    using leg_drained live [OF that] assms(3) that by blast
  have "\<forall>d\<in>set ?calls. \<exists>r. drainOne False d = Some r" using one by fastforce
  with drainCalls_in_order [of ?calls 5000000000 10000000000 order] assms(4) obtain rs where
    rs: "drainCalls 5000000000 10000000000 order ?calls = Some rs"
      "rs = map (\<lambda>c. the (drainOne False (leg_input (behave c) c))) (liveCalls s)" by auto
  have warn: "(\<exists>r\<in>set rs. unclean r \<and> de_CallID r = i) \<longleftrightarrow>
      (\<exists>c\<in>set (liveCalls s). call_CallID c = i \<and> \<not> ch_closed (c_doneCh (before_drain (behave c) c)) \<and> DoneClosed \<notin> set (in_time (ld_events (behave c))))" for i
    unfolding rs(2) set_map using one by force
  have calls: "list_all2 (\<lambda>c c'. if ch_closed (c_doneCh c) then c' = c
        else hung_up (behave c) c \<longrightarrow> c_state c' = StateEnded \<and> ch_closed (c_doneCh c'))
      (sk_calls s) (map ?after (sk_calls s))"
    using assms(2) after_drain_ended by (auto simp: list.rel_map list_all2_same)
  show ?thesis
  proof (cases "liveCalls s = []")
    case True
    then have "map ?after (sk_calls s) = sk_calls s"
      by (intro map_idI) (auto simp: liveCalls_def filter_empty_conv)
    then have "list_all2 (\<lambda>c c'. if ch_closed (c_doneCh c) then c' = c
        else hung_up (behave c) c \<longrightarrow> c_state c' = StateEnded \<and> ch_closed (c_doneCh c'))
      (sk_calls s) (sk_calls s)" using calls by simp
    moreover have "Stop behave order dereg s = Some (s\<lparr>sk_stopped := True, sk_events := sk_events s @ ?rest\<rparr>)"
      using True assms(1) by (simp add: Stop_def)
    ultimately show ?thesis using True by (intro exI conjI) (assumption | simp)+
  next
    case False
    then have "Stop behave order dereg s = Some (s\<lparr>sk_stopped := True, sk_calls := map ?after (sk_calls s),
        sk_events := sk_events s @ [Drained rs] @ map (\<lambda>r. WarnUnclean (de_CallID r)) (filter unclean rs) @ ?rest\<rparr>)"
      using assms(1) rs(1) by (simp add: Stop_def Let_def)
    moreover have "WarnUnclean i \<in> set ([Drained rs] @ map (\<lambda>r. WarnUnclean (de_CallID r)) (filter unclean rs) @ ?rest)
        \<longleftrightarrow> (\<exists>r\<in>set rs. unclean r \<and> de_CallID r = i)" for i by auto
    ultimately show ?thesis using calls warn by (intro exI conjI) (assumption | simp)+
  qed
qed

text \<open>The done channel is closed, but not seen before the timer: the call has ended, and is flagged.\<close>

definition late_leg :: leg_drain where
  "late_leg = stuck_leg\<lparr>ld_events := [HangupDone, PerCallTimer, DoneClosed]\<rparr>"

theorem Stop_ends_calls_witness:
  "\<exists>t new. Stop (\<lambda>c. late_leg) [0] True idle_stack = Some t \<and> sk_events t = sk_events idle_stack @ new
     \<and> (\<forall>c\<in>set (sk_calls t). ch_closed (c_doneCh c)) \<and> WarnUnclean (call_CallID (newInboundCall 1 sample_invite ''t'')) \<in> set new"
proof -
  have ok: "\<forall>c\<in>set (sk_calls idle_stack). call_ok c" using ended_call_ok by (simp add: idle_stack_def)
  have ev: "ld_events late_leg = [HangupDone, PerCallTimer, DoneClosed]" by (simp add: late_leg_def stuck_leg_def)
  have hu: "hung_up late_leg c" for c by (simp add: hung_up_def ev)
  have bd: "before_drain late_leg c = c" for c by (simp add: before_drain_def late_leg_def stuck_leg_def)
  have ns: "\<not> sk_stopped idle_stack" by (simp add: idle_stack_def)
  have tm: "\<forall>c\<in>set (liveCalls idle_stack). \<exists>e\<in>set (ld_events late_leg). is_timer e" by (simp add: ev is_timer_def)
  have od: "set [0] = {..<length (liveCalls idle_stack)}" by (auto simp: idle_stack_live)
  from Stop_ends_calls [OF ns ok tm od, of True] obtain t new where
    t: "Stop (\<lambda>c. late_leg) [0] True idle_stack = Some t" "sk_events t = sk_events idle_stack @ new"
      "list_all2 (\<lambda>c c'. if ch_closed (c_doneCh c) then c' = c
          else hung_up late_leg c \<longrightarrow> c_state c' = StateEnded \<and> ch_closed (c_doneCh c'))
        (sk_calls idle_stack) (sk_calls t)"
      "\<forall>i. WarnUnclean i \<in> set new \<longleftrightarrow>
          (\<exists>c\<in>set (liveCalls idle_stack). call_CallID c = i \<and> \<not> ch_closed (c_doneCh (before_drain late_leg c)) \<and> DoneClosed \<notin> set (in_time (ld_events late_leg)))" by blast
  from t(3) have "\<forall>c\<in>set (sk_calls t). ch_closed (c_doneCh c)"
    by (auto simp: idle_stack_def hu list_all2_Cons1 split: if_splits)
  moreover have "WarnUnclean (call_CallID (newInboundCall 1 sample_invite ''t'')) \<in> set new"
    using t(4) idle_live_open by (simp add: idle_stack_live ev is_timer_def bd)
  ultimately show ?thesis using t(1,2) by blast
qed

text \<open>
  A registration makes at most three attempts, stops at the first success or
  once the stack's context is done, and
  returns a registrar's rejection at once.
\<close>

theorem register_attempts:
  "snd (stack_register outs) \<le> 3
   \<and> stack_register (TxRejected err # outs) = (Some (''register: '' @ err), 1)
   \<and> stack_register (TxOk # outs) = (None, 1)
   \<and> stack_register (TxError e1 True # outs) = (Some (''register: '' @ e1), 1)
   \<and> stack_register (TxError e1 False # TxFails e2 False # TxOk # outs) = (None, 3)
   \<and> stack_register (TxError e1 False # TxFails e2 False # TxError e3 d # outs) = (Some (''register: '' @ e3), 3)"
  using register_loop_bound [of 3 None "map registerOnce outs" 0]
  by (simp add: stack_register_def registerAttempts_def eval_nat_numeral)

text \<open>
  \<open>Invite\<close> returns a typed rejection exactly when the dialog failed with a final
  response, and on success an answered call that the stack tracks, whose recorded history is
  the INVITE sent and the final response received.
\<close>

theorem Invite_result:
  assumes "prepareInvite uri_err (sk_cfg s) opts = Inr x"
  shows "\<exists>r s'. Invite uri_err dialog codec now opts s = Ret (r, s')
     \<and> (case dialog of
          Inl e \<Rightarrow> s' = s \<and> (case dg_response e of
             Some res \<Rightarrow> r = Inl (InviteRejected (rp_StatusCode res) (rp_Reason res) res)
           | None \<Rightarrow> r = Inl (InviteFailed (''invite: '' @ dg_text e)))
        | Inr (req, final) \<Rightarrow> (\<exists>c. r = Inr c \<and> call_ok c \<and> c_state c = StateAnswered \<and> c_codec c = codec
             \<and> sk_calls s' = sk_calls s @ [c] \<and> c_sent c = [newRequestMsg MsgSent now req]
             \<and> c_recv c = (case final of None \<Rightarrow> [] | Some res \<Rightarrow> [newResponseMsg MsgRecv now res])))"
proof (cases dialog)
  case (Inl e)
  then show ?thesis using assms by (auto simp: Invite_def invite_failure_def split: option.split)
next
  case (Inr p)
  obtain req final where p: "p = (req, final)" by (cases p)
  let ?c = "newOutboundCall now req (cf_Owner (sk_cfg s))"
  from setState_good [of ?c now StateAnswered "[]"] obtain d where
    d: "setState now StateAnswered [] ?c = Ret d" "good ?c d" "c_state d = StateAnswered"
      "c_recv d = c_recv ?c" "c_sent d = c_sent ?c" by auto
  have "c_recv ?c = []" "c_sent ?c = [newRequestMsg MsgSent now req]"
    by (simp_all add: newOutboundCall_def blank_call_def recordSent_def Let_def)
  with d Inr p assms show ?thesis
    by (cases final) (auto simp: Invite_def track_def good_def call_ok_def unregistered_def recordReceived_def Let_def)
qed

definition plain_options :: invite_options where
  "plain_options = \<lparr>io_Transport = [], io_Username = [], io_Password = [], io_Headers = [], io_SDPMode = ''sendonly''\<rparr>"

theorem Invite_result_witness:
  "\<exists>c s'. Invite None (Inr (sample_invite, None)) ''PCMU'' 3 plain_options idle_stack = Ret (Inr c, s')
     \<and> c_state c = StateAnswered \<and> sk_calls s' = sk_calls idle_stack @ [c]"
proof -
  obtain x where "prepareInvite None (sk_cfg idle_stack) plain_options = Inr x"
    by (simp add: prepareInvite_def plain_options_def Let_def)
  from Invite_result [OF this, of "Inr (sample_invite, None)" "''PCMU''" 3] show ?thesis by auto
qed

end
