(* ===== verification/Sip_Stack_Life.thy ===== *)
theory Sip_Stack_Life
  imports Sip_Stack
begin

text \<open>
  The life of a stack (\<open>internal/sip/uas.go\<close>) with everything that runs at the same time: inbound
  calls are dispatched, each in its own goroutine with its handler, tests and the far end act on
  the calls, and \<open>Stop\<close> takes its snapshot of the live calls, drains them, withdraws the
  registration, cancels the serve loop and closes the agent. \<open>Sip_Stack\<close> has \<open>Stop\<close> and the dispatch
  of a call as one step each; here they are taken apart, in any interleaving. The lemmas show
  which calls can be left when the agent is closed, and that \<open>Stop\<close> of \<open>Sip_Stack\<close> is the run in
  which nothing else happens.
\<close>

section \<open>State\<close>

text \<open>
  A leg has its call, whether its handler is still running, and what the drain has done with it:
  not in the snapshot, to be drained, given up by the drain, or hung up.
\<close>

datatype drain_at = NotSeen | Due | GaveUp | HungUp

record life_leg =
  lg_call :: call
  lg_handler :: bool
  lg_drain :: drain_at

datatype stop_at = Serving | Draining | Unregistered | Cancelled | Closed

text \<open>
  The tracked calls of the stack are those of the legs, in the order of their dispatch;
  \<open>lf_snapshot\<close> is how many there were when \<open>Stop\<close> took its snapshot.
\<close>

record life =
  lf_stack :: stack
  lf_legs :: "life_leg list"
  lf_stop :: stop_at
  lf_snapshot :: nat

definition life_stack :: "life \<Rightarrow> stack" where
  "life_stack w = (lf_stack w)\<lparr>sk_calls := map lg_call (lf_legs w)\<rparr>"

definition life_start :: "stack \<Rightarrow> life" where
  "life_start s = \<lparr>lf_stack = s, lf_legs = [], lf_stop = Serving, lf_snapshot = 0\<rparr>"

definition ended :: "call \<Rightarrow> bool" where
  "ended c \<longleftrightarrow> ch_closed (c_doneCh c)"

section \<open>Steps\<close>

text \<open>\<open>dispatchInbound\<close> up to the handler, and its end after the handler has returned.\<close>

definition dispatch_begin :: "int \<Rightarrow> sip_request \<Rightarrow> dialog_reply \<Rightarrow> life \<Rightarrow> life go" where
  "dispatch_begin now req rep w =
     (let c = newInboundCall now req (cf_Owner (sk_cfg (lf_stack w))) in
      if sk_handler (lf_stack w)
      then Ret (w\<lparr>lf_legs := lf_legs w @ [\<lparr>lg_call = c, lg_handler = True, lg_drain = NotSeen\<rparr>]\<rparr>)
      else go_bind (Reject 480 ''Temporarily Unavailable'' rep c)
             (\<lambda>(_, c1). Ret (w\<lparr>lf_legs := lf_legs w @ [\<lparr>lg_call = c1, lg_handler = False, lg_drain = NotSeen\<rparr>]\<rparr>)))"

definition dispatch_end :: "bool \<Rightarrow> bool \<Rightarrow> dialog_reply \<Rightarrow> life_leg \<Rightarrow> life_leg go" where
  "dispatch_end hook drained rep l =
     (if \<not> lg_handler l then Ret l
      else if c_state (lg_call l) \<noteq> StateEnded
      then go_bind (Hangup hook drained rep (lg_call l)) (\<lambda>(_, c). Ret (l\<lparr>lg_call := c, lg_handler := False\<rparr>))
      else Ret (l\<lparr>lg_handler := False\<rparr>))"

text \<open>
  \<open>Stop\<close>: the snapshot, the drain of one call, and the three steps after the drain. The drain of a
  call that has ended meanwhile still hangs it up, in case it has left the ended state again.
\<close>

definition stop_begin :: "life \<Rightarrow> life" where
  "stop_begin w =
     (if lf_stop w \<noteq> Serving then w
      else w\<lparr>lf_legs := map (\<lambda>l. if ended (lg_call l) then l else l\<lparr>lg_drain := Due\<rparr>) (lf_legs w),
             lf_stop := Draining, lf_snapshot := length (lf_legs w)\<rparr>)"

definition drain_leg :: "leg_drain \<Rightarrow> life_leg \<Rightarrow> life_leg" where
  "drain_leg b l =
     (if lg_drain l \<noteq> Due then l
      else l\<lparr>lg_call := after_drain b (lg_call l),
             lg_drain := (if hung_up b (lg_call l) then HungUp else GaveUp)\<rparr>)"

definition log_stop :: "stack_event list \<Rightarrow> stop_at \<Rightarrow> life \<Rightarrow> life" where
  "log_stop evs at w = w\<lparr>lf_stack := (lf_stack w)\<lparr>sk_events := sk_events (lf_stack w) @ evs\<rparr>, lf_stop := at\<rparr>"

definition stop_next :: "bool \<Rightarrow> life \<Rightarrow> life" where
  "stop_next dereg w =
     (case lf_stop w of
        Draining \<Rightarrow>
          if \<exists>l\<in>set (lf_legs w). lg_drain l = Due then w
          else log_stop (if sk_regTx (lf_stack w) then [Deregistered dereg] else []) Unregistered w
      | Unregistered \<Rightarrow> log_stop [ServeCancelled] Cancelled w
      | Cancelled \<Rightarrow> log_stop [AgentClosed] Closed w
      | _ \<Rightarrow> w)"

definition at_leg :: "nat \<Rightarrow> (life_leg \<Rightarrow> life_leg go) \<Rightarrow> life \<Rightarrow> life go" where
  "at_leg i f w =
     (if i < length (lf_legs w) then go_bind (f (lf_legs w ! i)) (\<lambda>l. Ret (w\<lparr>lf_legs := (lf_legs w)[i := l]\<rparr>)) else Ret w)"

datatype life_event =
    Dispatch int sip_request dialog_reply
  | Act nat call_op
  | HandlerReturns nat bool bool dialog_reply
  | StopBegin
  | DrainLeg nat leg_drain
  | StopNext bool

text \<open>Once the serve loop is cancelled no more calls are dispatched.\<close>

fun life_step :: "life_event \<Rightarrow> life \<Rightarrow> life go" where
  "life_step (Dispatch now req rep) w = (if lf_stop w \<in> {Cancelled, Closed} then Ret w else dispatch_begin now req rep w)"
| "life_step (Act i op) w = at_leg i (\<lambda>l. go_bind (call_step op (lg_call l)) (\<lambda>c. Ret (l\<lparr>lg_call := c\<rparr>))) w"
| "life_step (HandlerReturns i hook drained rep) w = at_leg i (dispatch_end hook drained rep) w"
| "life_step StopBegin w = Ret (stop_begin w)"
| "life_step (DrainLeg i b) w = at_leg i (\<lambda>l. Ret (drain_leg b l)) w"
| "life_step (StopNext dereg) w = Ret (stop_next dereg w)"

section \<open>The invariant of a leg\<close>

text \<open>
  A call whose handler has returned and a call that the drain has hung up have ended. \<open>leg_grows\<close> is
  what a step may do to a leg otherwise: what has ended stays ended, and the handler of a leg
  does not start again.
\<close>

definition leg_ok :: "life_leg \<Rightarrow> bool" where
  "leg_ok l \<longleftrightarrow> call_ok (lg_call l) \<and> c_direction (lg_call l) = Inbound \<and> (\<not> lg_handler l \<or> lg_drain l = HungUp \<longrightarrow> ended (lg_call l))"

definition leg_grows :: "life_leg \<Rightarrow> life_leg \<Rightarrow> bool" where
  "leg_grows l m \<longleftrightarrow> leg_ok m \<and> (ended (lg_call l) \<longrightarrow> ended (lg_call m)) \<and> (lg_drain l = NotSeen \<longleftrightarrow> lg_drain m = NotSeen)
     \<and> (lg_drain m = Due \<longrightarrow> lg_drain l = Due)"

lemma good_ended: "call_ok c \<Longrightarrow> good c d \<Longrightarrow> ended c \<Longrightarrow> ended d"
  by (auto simp: good_def keeps_end_def call_ok_def ended_def)

lemma state_ended: "call_ok c \<Longrightarrow> c_state c = StateEnded \<Longrightarrow> ended c"
  by (simp add: call_ok_def ended_def)

lemma act_grows:
  assumes "leg_ok l"
  shows "\<exists>m. go_bind (call_step op (lg_call l)) (\<lambda>c. Ret (l\<lparr>lg_call := c\<rparr>)) = Ret m \<and> leg_grows l m"
proof -
  from assms have c: "call_ok (lg_call l)" "c_direction (lg_call l) = Inbound" by (simp_all add: leg_ok_def)
  from call_step_good [OF c(1), of op] c(2) obtain d where "call_step op (lg_call l) = Ret d" "good (lg_call l) d" by blast
  with assms good_ended [OF c(1)] good_ok good_direction show ?thesis by (auto simp: leg_ok_def leg_grows_def)
qed

lemma dispatch_end_grows:
  assumes "leg_ok l"
  shows "\<exists>m. dispatch_end hook drained rep l = Ret m \<and> leg_grows l m"
proof -
  from assms have c: "call_ok (lg_call l)" by (simp add: leg_ok_def)
  from Hangup_spec [OF c, of hook drained rep] obtain d where
    d: "Hangup hook drained rep (lg_call l) = Ret (None, d)" "good (lg_call l) d" "c_state d = StateEnded" by blast
  then have "call_ok d" "ended d" "c_direction d = c_direction (lg_call l)" using good_ok state_ended good_direction by blast+
  with assms d(1) state_ended [OF c] show ?thesis by (auto simp: dispatch_end_def leg_ok_def leg_grows_def)
qed

lemma drain_leg_grows:
  assumes "leg_ok l"
  shows "\<exists>m. Ret (drain_leg b l) = Ret m \<and> leg_grows l m"
proof (cases "lg_drain l = Due")
  case True
  let ?d = "after_drain b (lg_call l)"
  from assms have c: "call_ok (lg_call l)" by (simp add: leg_ok_def)
  note g = after_drain_good [OF c, of b]
  have "call_ok ?d" "c_direction ?d = c_direction (lg_call l)" "ended (lg_call l) \<longrightarrow> ended ?d"
    using good_ok [OF g] good_direction [OF g] good_ended [OF c g] by blast+
  moreover have "hung_up b (lg_call l) \<longrightarrow> ended ?d" using after_drain_ended [OF c] by (simp add: ended_def)
  ultimately show ?thesis using True assms by (auto simp: drain_leg_def leg_ok_def leg_grows_def)
qed (use assms in \<open>auto simp: drain_leg_def leg_ok_def leg_grows_def\<close>)

section \<open>The invariant of the machine\<close>

text \<open>
  After the snapshot, every leg of it that the drain did not take over had ended; and once the
  registration is withdrawn, no drain is outstanding.
\<close>

definition life_ok :: "life \<Rightarrow> bool" where
  "life_ok w \<longleftrightarrow> sk_handler (lf_stack w) \<and> lf_snapshot w \<le> length (lf_legs w)
     \<and> (\<forall>i<length (lf_legs w). leg_ok (lf_legs w ! i))
     \<and> (lf_stop w \<noteq> Serving \<longrightarrow>
          (\<forall>i<lf_snapshot w. lg_drain (lf_legs w ! i) = NotSeen \<longrightarrow> ended (lg_call (lf_legs w ! i))))
     \<and> (lf_stop w \<notin> {Serving, Draining} \<longrightarrow> (\<forall>i<length (lf_legs w). lg_drain (lf_legs w ! i) \<noteq> Due))"

text \<open>The log of the shutdown is a function of how far it has come.\<close>

fun stop_log :: "stack \<Rightarrow> bool \<Rightarrow> stop_at \<Rightarrow> stack_event list" where
  "stop_log s dereg Serving = []"
| "stop_log s dereg Draining = []"
| "stop_log s dereg Unregistered = (if sk_regTx s then [Deregistered dereg] else [])"
| "stop_log s dereg Cancelled = (if sk_regTx s then [Deregistered dereg] else []) @ [ServeCancelled]"
| "stop_log s dereg Closed = (if sk_regTx s then [Deregistered dereg] else []) @ [ServeCancelled, AgentClosed]"

definition life_log :: "stack \<Rightarrow> life \<Rightarrow> bool" where
  "life_log s w \<longleftrightarrow> (\<exists>dereg. lf_stack w = s\<lparr>sk_events := sk_events s @ stop_log s dereg (lf_stop w)\<rparr>)"

lemma at_leg_ok:
  assumes "life_ok w" and "\<And>l. leg_ok l \<Longrightarrow> \<exists>m. f l = Ret m \<and> leg_grows l m"
  shows "\<exists>v. at_leg i f w = Ret v \<and> life_ok v \<and> lf_stack v = lf_stack w \<and> lf_stop v = lf_stop w"
proof (cases "i < length (lf_legs w)")
  case True
  with assms(1) have "leg_ok (lf_legs w ! i)" by (simp add: life_ok_def)
  from assms(2) [OF this] obtain m where m: "f (lf_legs w ! i) = Ret m" "leg_grows (lf_legs w ! i) m" by blast
  have "life_ok (w\<lparr>lf_legs := (lf_legs w)[i := m]\<rparr>)"
    using assms(1) m(2) True by (auto simp: life_ok_def leg_grows_def nth_list_update)
  with True m(1) show ?thesis by (simp add: at_leg_def)
qed (use assms(1) in \<open>simp add: at_leg_def\<close>)

lemma dispatch_ok:
  "life_ok w \<Longrightarrow> \<exists>v. dispatch_begin now req rep w = Ret v \<and> life_ok v \<and> lf_stack v = lf_stack w \<and> lf_stop v = lf_stop w"
  by (auto simp: life_ok_def dispatch_begin_def Let_def leg_ok_def nth_append)

lemma stop_begin_ok: "life_ok w \<Longrightarrow> life_ok (stop_begin w)"
  by (auto simp: life_ok_def stop_begin_def leg_ok_def)

lemma stop_next_ok: "life_ok w \<Longrightarrow> life_ok (stop_next d w)"
  by (auto simp: life_ok_def stop_next_def log_stop_def all_set_conv_all_nth split: stop_at.split)

lemma stop_next_log: "life_log s w \<Longrightarrow> life_log s (stop_next d w)"
  by (auto simp: life_log_def stop_next_def log_stop_def split: stop_at.splits)

lemma life_step_ok:
  assumes "life_ok w"
  shows "\<exists>v. life_step e w = Ret v \<and> life_ok v \<and> (life_log s w \<longrightarrow> life_log s v)"
proof (cases e)
  case (Dispatch now req rep)
  with dispatch_ok [OF assms, of now req rep] assms show ?thesis by (auto simp: life_log_def)
next
  case (Act i op)
  have "\<exists>v. life_step (Act i op) w = Ret v \<and> life_ok v \<and> lf_stack v = lf_stack w \<and> lf_stop v = lf_stop w"
    unfolding life_step.simps by (rule at_leg_ok [OF assms act_grows])
  with Act show ?thesis by (auto simp: life_log_def)
next
  case (HandlerReturns i hook drained rep)
  have "\<exists>v. life_step (HandlerReturns i hook drained rep) w = Ret v \<and> life_ok v \<and> lf_stack v = lf_stack w \<and> lf_stop v = lf_stop w"
    unfolding life_step.simps by (rule at_leg_ok [OF assms dispatch_end_grows])
  with HandlerReturns show ?thesis by (auto simp: life_log_def)
next
  case StopBegin
  have "life_log s w \<longrightarrow> life_log s (stop_begin w)" by (auto simp: life_log_def stop_begin_def)
  with StopBegin stop_begin_ok [OF assms] show ?thesis by simp
next
  case (DrainLeg i b)
  have "\<exists>v. life_step (DrainLeg i b) w = Ret v \<and> life_ok v \<and> lf_stack v = lf_stack w \<and> lf_stop v = lf_stop w"
    unfolding life_step.simps by (rule at_leg_ok [OF assms drain_leg_grows])
  with DrainLeg show ?thesis by (auto simp: life_log_def)
next
  case (StopNext d)
  with stop_next_ok [OF assms] stop_next_log [of s w d] show ?thesis by simp
qed

interpretation life: guarded_machine life_step life_ok
  by unfold_locales (use life_step_ok in blast)

section \<open>Nothing else happening\<close>

lemma drains_run:
  "n \<le> length (lf_legs w) \<Longrightarrow>
     go_fold life_step (map (\<lambda>i. DrainLeg i (b i)) [0..<n]) w =
       Ret (w\<lparr>lf_legs := map (\<lambda>i. if i < n then drain_leg (b i) (lf_legs w ! i) else lf_legs w ! i) [0..<length (lf_legs w)]\<rparr>)"
proof (induction n)
  case 0
  then show ?case by (simp add: map_nth)
next
  case (Suc n)
  let ?f = "\<lambda>n i. if i < n then drain_leg (b i) (lf_legs w ! i) else lf_legs w ! i"
  have "(map (?f n) [0..<length (lf_legs w)])[n := drain_leg (b n) (lf_legs w ! n)] = map (?f (Suc n)) [0..<length (lf_legs w)]"
    by (rule nth_equalityI) (use Suc.prems in \<open>auto simp: nth_list_update less_Suc_eq\<close>)
  with Suc show ?case by (simp add: go_fold_append at_leg_def)
qed

definition quiet_stop :: "(call \<Rightarrow> leg_drain) \<Rightarrow> bool \<Rightarrow> life \<Rightarrow> life_event list" where
  "quiet_stop behave dereg w =
     StopBegin # map (\<lambda>i. DrainLeg i (behave (lg_call (lf_legs w ! i)))) [0..<length (lf_legs w)]
       @ [StopNext dereg, StopNext dereg, StopNext dereg]"

definition is_report :: "stack_event \<Rightarrow> bool" where
  "is_report e \<longleftrightarrow> (case e of Drained rs \<Rightarrow> True | WarnUnclean i \<Rightarrow> True | _ \<Rightarrow> False)"

lemma quiet_stop_run:
  assumes "lf_stop w = Serving" and "\<forall>l\<in>set (lf_legs w). lg_drain l = NotSeen"
  shows "\<exists>v. go_fold life_step (quiet_stop behave dereg w) w = Ret v \<and> lf_stop v = Closed
     \<and> map lg_call (lf_legs v) = map (\<lambda>l. if ended (lg_call l) then lg_call l else after_drain (behave (lg_call l)) (lg_call l)) (lf_legs w)
     \<and> sk_events (lf_stack v) = sk_events (lf_stack w) @ stop_log (lf_stack w) dereg Closed"
proof -
  let ?u = "stop_begin w" and ?b = "\<lambda>i. behave (lg_call (lf_legs w ! i))" and ?n = "length (lf_legs w)"
  have u: "length (lf_legs ?u) = ?n" "lf_stop ?u = Draining" "lf_stack ?u = lf_stack w"
    "\<And>i. i < ?n \<Longrightarrow> lf_legs ?u ! i = (if ended (lg_call (lf_legs w ! i)) then lf_legs w ! i else (lf_legs w ! i)\<lparr>lg_drain := Due\<rparr>)"
    using assms(1) by (simp_all add: stop_begin_def)
  let ?v = "?u\<lparr>lf_legs := map (\<lambda>i. drain_leg (?b i) (lf_legs ?u ! i)) [0..<?n]\<rparr>"
  have d: "go_fold life_step (map (\<lambda>i. DrainLeg i (?b i)) [0..<?n]) ?u = Ret ?v"
    using drains_run [of ?n ?u ?b] u(1) by (simp cong: map_cong)
  have "lg_drain (drain_leg (?b i) (lf_legs ?u ! i)) \<noteq> Due" if "i < ?n" for i
    using that assms(2) by (auto simp: drain_leg_def u(4))
  then have nd: "\<not> (\<exists>l\<in>set (lf_legs ?v). lg_drain l = Due)" by auto
  have c: "map lg_call (lf_legs ?v) = map (\<lambda>l. if ended (lg_call l) then lg_call l else after_drain (behave (lg_call l)) (lg_call l)) (lf_legs w)"
    by (rule nth_equalityI) (use assms(2) in \<open>auto simp: drain_leg_def u(4)\<close>)
  have "go_fold life_step [StopNext dereg, StopNext dereg, StopNext dereg] ?v
      = Ret (stop_next dereg (stop_next dereg (stop_next dereg ?v)))" by simp
  moreover have "stop_next dereg (stop_next dereg (stop_next dereg ?v)) = log_stop [AgentClosed] Closed
      (log_stop [ServeCancelled] Cancelled (log_stop (if sk_regTx (lf_stack w) then [Deregistered dereg] else []) Unregistered ?v))"
    using nd by (simp add: stop_next_def log_stop_def u(2,3))
  moreover have "go_fold life_step (quiet_stop behave dereg w) w
      = go_bind (go_fold life_step (map (\<lambda>i. DrainLeg i (?b i)) [0..<?n]) ?u)
          (go_fold life_step [StopNext dereg, StopNext dereg, StopNext dereg])"
    by (simp add: quiet_stop_def go_fold_append del: go_fold.simps(2)) (simp add: go_fold.simps(2) [of _ StopBegin] go_fold_append)
  ultimately show ?thesis using c u(3) by (simp add: d log_stop_def)
qed

section \<open>Properties\<close>

text \<open>
  C25 (safety): However dispatches, handlers, operations on the calls and the steps of \<open>Stop\<close>
  interleave on a stack that has a handler, nothing panics, and when \<open>Stop\<close> has closed the agent
  its steps were done once and in order. A call that has not ended by then has its handler
  still running, and either it was dispatched after \<open>Stop\<close> had taken its snapshot or the drain
  gave it up because its hangup did not come back.
\<close>

theorem only_late_or_stuck_calls_left:
  assumes "sk_handler s"
  shows "\<exists>w. go_fold life_step es (life_start s) = Ret w
     \<and> (lf_stop w = Closed \<longrightarrow>
          (\<exists>dereg. sk_events (lf_stack w) =
             sk_events s @ (if sk_regTx s then [Deregistered dereg] else []) @ [ServeCancelled, AgentClosed])
          \<and> (\<forall>i<length (lf_legs w). \<not> ch_closed (c_doneCh (lg_call (lf_legs w ! i))) \<longrightarrow>
               lg_handler (lf_legs w ! i) \<and> (lf_snapshot w \<le> i \<or> lg_drain (lf_legs w ! i) = GaveUp)))"
proof -
  have start: "life_ok (life_start s)" "life_log s (life_start s)"
    using assms by (auto simp: life_ok_def life_start_def life_log_def)
  from life.run_ok [OF start(1), of es] obtain w where w: "go_fold life_step es (life_start s) = Ret w" "life_ok w" by blast
  have step: "life_log s v" if "life_ok u" "life_log s u" "life_step e u = Ret v" for u e v
    using life_step_ok [OF that(1), of e s] that(2,3) by auto
  have log: "life_log s w"
    by (rule life.run_keeps [where Q = "life_log s" and E = UNIV, OF _ start _ w(1)]) (erule (2) step | simp)+
  from log obtain dereg where "lf_stack w = s\<lparr>sk_events := sk_events s @ stop_log s dereg (lf_stop w)\<rparr>"
    by (auto simp: life_log_def)
  then have ev: "sk_events (lf_stack w) = sk_events s @ (if sk_regTx s then [Deregistered dereg] else []) @ [ServeCancelled, AgentClosed]"
    if "lf_stop w = Closed" using that by simp
  have left: "lg_handler l \<and> (lf_snapshot w \<le> i \<or> lg_drain l = GaveUp)"
    if "lf_stop w = Closed" "i < length (lf_legs w)" "l = lf_legs w ! i" "\<not> ended (lg_call l)" for i l
  proof -
    from w(2) that have "leg_ok l" "lg_drain l \<noteq> Due" by (auto simp: life_ok_def)
    moreover have "lf_snapshot w \<le> i \<or> lg_drain l \<noteq> NotSeen"
    proof (rule ccontr)
      assume "\<not> ?thesis"
      with w(2) that show False by (auto simp: life_ok_def)
    qed
    ultimately show ?thesis using that(4) by (cases "lg_drain l") (auto simp: leg_ok_def)
  qed
  show ?thesis
  proof (intro exI [of _ w] conjI impI allI)
    assume c: "lf_stop w = Closed"
    show "\<exists>dereg. sk_events (lf_stack w) =
        sk_events s @ (if sk_regTx s then [Deregistered dereg] else []) @ [ServeCancelled, AgentClosed]"
      using ev [OF c] by blast
    fix i
    assume i: "i < length (lf_legs w)" "\<not> ch_closed (c_doneCh (lg_call (lf_legs w ! i)))"
    from left [OF c i(1) refl] i(2)
    show "lg_handler (lf_legs w ! i)" "lf_snapshot w \<le> i \<or> lg_drain (lf_legs w ! i) = GaveUp" by (simp_all add: ended_def)
  qed (rule w(1))
qed

text \<open>A call that arrives during the shutdown.\<close>

definition late_arrival :: "life_event list" where
  "late_arrival = [StopBegin, Dispatch 1 sample_invite plain_reply, StopNext True, StopNext True, StopNext True]"

theorem only_late_or_stuck_calls_left_witness:
  "\<exists>w. go_fold life_step late_arrival (life_start idle_stack) = Ret w \<and> lf_stop w = Closed
     \<and> sk_events (lf_stack w) = [Registered, Deregistered True, ServeCancelled, AgentClosed]
     \<and> \<not> ch_closed (c_doneCh (lg_call (lf_legs w ! 0))) \<and> lg_handler (lf_legs w ! 0) \<and> lf_snapshot w \<le> 0"
proof -
  have h: "sk_handler idle_stack" by (simp add: idle_stack_def)
  from only_late_or_stuck_calls_left [OF h, of late_arrival] obtain w where
    w: "go_fold life_step late_arrival (life_start idle_stack) = Ret w" and
    res: "lf_stop w = Closed \<Longrightarrow> i < length (lf_legs w) \<Longrightarrow> \<not> ch_closed (c_doneCh (lg_call (lf_legs w ! i))) \<Longrightarrow>
      lg_handler (lf_legs w ! i) \<and> (lf_snapshot w \<le> i \<or> lg_drain (lf_legs w ! i) = GaveUp)" for i by blast
  have "case go_fold life_step late_arrival (life_start idle_stack) of
      Ret w \<Rightarrow> lf_stop w = Closed \<and> length (lf_legs w) = 1 \<and> \<not> ch_closed (c_doneCh (lg_call (lf_legs w ! 0)))
        \<and> lg_drain (lf_legs w ! 0) = NotSeen
        \<and> sk_events (lf_stack w) = [Registered, Deregistered True, ServeCancelled, AgentClosed]
    | Panic \<Rightarrow> False" by code_simp
  then have "lf_stop w = Closed" "0 < length (lf_legs w)" "\<not> ch_closed (c_doneCh (lg_call (lf_legs w ! 0)))"
    "lg_drain (lf_legs w ! 0) = NotSeen" "sk_events (lf_stack w) = [Registered, Deregistered True, ServeCancelled, AgentClosed]"
    by (simp_all add: w)
  with w res [OF this(1-3)] show ?thesis by auto
qed

text \<open>
  \<open>Stop\<close> of \<open>Sip_Stack\<close>, which does everything in one step, is the run of this machine in
  which each live call is drained and nothing else happens: the calls end up in the same states,
  and the same events are logged, apart from the report of the drain.
\<close>

theorem Stop_is_a_quiet_run:
  assumes "lf_stop w = Serving" and "\<forall>l\<in>set (lf_legs w). lg_drain l = NotSeen" and "\<not> sk_stopped (lf_stack w)"
    and "Stop behave order dereg (life_stack w) = Some t"
  shows "\<exists>v. go_fold life_step (quiet_stop behave dereg w) w = Ret v \<and> lf_stop v = Closed
     \<and> map lg_call (lf_legs v) = sk_calls t
     \<and> (\<exists>reports new. list_all is_report reports \<and> sk_events t = sk_events (lf_stack w) @ reports @ new
          \<and> sk_events (lf_stack v) = sk_events (lf_stack w) @ new)"
proof -
  let ?s = "life_stack w" and ?new = "stop_log (lf_stack w) dereg Closed"
  let ?after = "\<lambda>l. if ended (lg_call l) then lg_call l else after_drain (behave (lg_call l)) (lg_call l)"
  from quiet_stop_run [OF assms(1,2)] obtain v where v: "go_fold life_step (quiet_stop behave dereg w) w = Ret v" "lf_stop v = Closed"
    "map lg_call (lf_legs v) = map ?after (lf_legs w)" "sk_events (lf_stack v) = sk_events (lf_stack w) @ ?new" by blast
  have "\<exists>reports. list_all is_report reports \<and> sk_calls t = map ?after (lf_legs w)
     \<and> sk_events t = sk_events (lf_stack w) @ reports @ ?new"
  proof (cases "liveCalls ?s = []")
    case True
    then have "map ?after (lf_legs w) = map lg_call (lf_legs w)"
      by (auto simp: liveCalls_def life_stack_def ended_def filter_empty_conv)
    then have "sk_calls t = map ?after (lf_legs w) \<and> sk_events t = sk_events (lf_stack w) @ [] @ ?new"
      using assms(3,4) True by (auto simp: Stop_def life_stack_def Let_def)
    then show ?thesis by (intro exI [of _ "[]"]) simp
  next
    case False
    with assms(3,4) obtain rs where rs: "t = ?s\<lparr>sk_stopped := True,
        sk_calls := map (\<lambda>c. if ch_closed (c_doneCh c) then c else after_drain (behave c) c) (sk_calls ?s),
        sk_events := sk_events ?s @ [Drained rs] @ map (\<lambda>r. WarnUnclean (de_CallID r)) (filter unclean rs)
          @ (if sk_regTx ?s then [Deregistered dereg] else []) @ [ServeCancelled, AgentClosed]\<rparr>"
      by (auto simp: Stop_def life_stack_def Let_def split: option.splits)
    let ?reports = "Drained rs # map (\<lambda>r. WarnUnclean (de_CallID r)) (filter unclean rs)"
    have "list_all is_report ?reports" by (simp add: list_all_iff is_report_def)
    moreover have "sk_calls t = map ?after (lf_legs w)" by (simp add: rs life_stack_def ended_def)
    moreover have "sk_events t = sk_events (lf_stack w) @ ?reports @ ?new" by (simp add: rs life_stack_def)
    ultimately show ?thesis by blast
  qed
  with v show ?thesis by (intro exI [of _ v]) auto
qed

text \<open>A stack with one call that was dispatched and is still up.\<close>

definition one_leg :: life where
  "one_leg = (life_start idle_stack)\<lparr>lf_legs := [\<lparr>lg_call = newInboundCall 1 sample_invite ''t'', lg_handler = True, lg_drain = NotSeen\<rparr>]\<rparr>"

theorem Stop_is_a_quiet_run_witness:
  "\<exists>t v. Stop (\<lambda>c. late_leg) [0] True (life_stack one_leg) = Some t
     \<and> go_fold life_step (quiet_stop (\<lambda>c. late_leg) True one_leg) one_leg = Ret v
     \<and> map lg_call (lf_legs v) = sk_calls t \<and> map c_state (sk_calls t) = [StateEnded]"
proof -
  have w: "lf_stop one_leg = Serving" "\<forall>l\<in>set (lf_legs one_leg). lg_drain l = NotSeen" "\<not> sk_stopped (lf_stack one_leg)"
    by (simp_all add: one_leg_def life_start_def idle_stack_def)
  have "case Stop (\<lambda>c. late_leg) [0] True (life_stack one_leg) of
      Some t \<Rightarrow> map c_state (sk_calls t) = [StateEnded] | None \<Rightarrow> False" by code_simp
  then obtain t where t: "Stop (\<lambda>c. late_leg) [0] True (life_stack one_leg) = Some t" "map c_state (sk_calls t) = [StateEnded]"
    by (auto split: option.splits)
  from Stop_is_a_quiet_run [OF w t(1)] obtain v where
    "go_fold life_step (quiet_stop (\<lambda>c. late_leg) True one_leg) one_leg = Ret v" "map lg_call (lf_legs v) = sk_calls t" by blast
  with t show ?thesis by (intro exI conjI)
qed

end
