(* ===== verification/Go_Bytes.thy ===== *)
theory Go_Bytes
  imports Go_Strings
begin

text \<open>
  Bytes and the fixed-width integers encoded in them, as \<open>encoding/binary\<close> reads and writes
  them, with the round trips; shared by the audio files and the DNS messages.
\<close>

definition byte_of :: "nat \<Rightarrow> char" where
  "byte_of n = char_of (n mod 256)"

lemma code_byte_of [simp]: "code (byte_of n) = n mod 256"
  by (simp add: byte_of_def code_def)

section \<open>Little-endian\<close>

fun le_bytes :: "nat \<Rightarrow> nat \<Rightarrow> string" where
  "le_bytes 0 n = []"
| "le_bytes (Suc k) n = byte_of n # le_bytes k (n div 256)"

fun le_val :: "string \<Rightarrow> nat" where
  "le_val [] = 0"
| "le_val (c # s) = code c + 256 * le_val s"

lemma length_le_bytes [simp]: "length (le_bytes k n) = k"
  by (induction k arbitrary: n) auto

lemma le_val_bytes: "le_val (le_bytes k n) = n mod 256 ^ k"
proof (induction k arbitrary: n)
  case 0
  then show ?case by simp
next
  case (Suc k)
  then show ?case by (simp add: mod_mult2_eq)
qed

lemma le_val_bytes_id [simp]: "n < 256 ^ k \<Longrightarrow> le_val (le_bytes k n) = n"
  by (simp add: le_val_bytes)

lemma byte_of_code [simp]: "byte_of (code c) = c"
  using code_lt_256 [of c] by (simp add: byte_of_def code_def)

lemma le_bytes_val: "le_bytes (length s) (le_val s) = s"
proof (induction s)
  case (Cons c s)
  have "byte_of (code c + 256 * le_val s) = byte_of (code c)" by (simp add: byte_of_def)
  moreover have "(code c + 256 * le_val s) div 256 = le_val s" using code_lt_256 [of c] by simp
  ultimately show ?case using Cons by simp
qed simp

lemma le_val_bound: "le_val s < 256 ^ length s"
proof (induction s)
  case (Cons c s)
  then show ?case using code_lt_256 [of c] by simp
qed simp

section \<open>Big-endian\<close>

definition be_bytes :: "nat \<Rightarrow> nat \<Rightarrow> string" where
  "be_bytes k n = rev (le_bytes k n)"

definition be_val :: "string \<Rightarrow> nat" where
  "be_val s = le_val (rev s)"

lemma length_be_bytes [simp]: "length (be_bytes k n) = k"
  by (simp add: be_bytes_def)

lemma be_val_bytes [simp]: "n < 256 ^ k \<Longrightarrow> be_val (be_bytes k n) = n"
  by (simp add: be_bytes_def be_val_def)

lemma be_bytes_val: "length s = k \<Longrightarrow> be_bytes k (be_val s) = s"
  using le_bytes_val [of "rev s"] by (auto simp: be_bytes_def be_val_def)

lemma be_val_bound: "be_val s < 256 ^ length s"
  using le_val_bound [of "rev s"] by (simp add: be_val_def)

section \<open>Slices of concatenations\<close>

lemma slice_middle:
  "length a = i \<Longrightarrow> length b = n \<Longrightarrow> take n (drop i (a @ b @ c)) = b"
  by auto

lemma slice_start: "length b = n \<Longrightarrow> take n (b @ c) = b"
  by auto

end
