(* ===== verification/Go_Net.thy ===== *)
theory Go_Net
  imports Go_Bytes Json
begin

text \<open>
  IP addresses as Go's \<open>net.ParseIP\<close> reads them from text. An address that has a four-byte form is
  \<open>IPv4\<close>, also when it is written as an IPv6 one, any other is \<open>IPv6\<close> with its sixteen bytes. The
  lemmas show that an accepted address has that many bytes and that dotted text is read back.
\<close>

datatype ip = IPv4 string | IPv6 string

fun ip_To4 :: "ip \<Rightarrow> string option" where
  "ip_To4 (IPv4 b) = Some b"
| "ip_To4 (IPv6 b) = None"

section \<open>Dotted text\<close>

text \<open>A field of at most 255 without a leading zero; exactly four of them.\<close>

definition ipv4_field :: "string \<Rightarrow> nat option" where
  "ipv4_field p =
     (if p \<noteq> [] \<and> list_all is_digit p \<and> (length p = 1 \<or> hd p \<noteq> CHR ''0'') \<and> digits_val p \<le> 255
      then Some (nat (digits_val p)) else None)"

definition parse_ipv4 :: "string \<Rightarrow> nat list option" where
  "parse_ipv4 s =
     (let fs = map ipv4_field (split_on (CHR ''.'') s)
      in if length fs = 4 \<and> list_all (\<lambda>f. f \<noteq> None) fs then Some (map the fs) else None)"

section \<open>Colon-separated text\<close>

text \<open>
  Up to \<open>n\<close> more fields of 16 bits: the fields so far, the position of the \<open>::\<close> and what is left.
  The last two fields may be written as dotted text.
\<close>

fun v6_fields :: "nat \<Rightarrow> nat option \<Rightarrow> nat list \<Rightarrow> string \<Rightarrow> (nat list \<times> nat option \<times> string) option" where
  "v6_fields 0 ell acc s = Some (acc, ell, s)"
| "v6_fields (Suc n) ell acc s =
     (let ds = takeWhile (\<lambda>c. hex_val c \<noteq> None) s;
          acc' = acc @ [foldl (\<lambda>v c. 16 * v + the (hex_val c)) 0 ds]
      in if ds = [] \<or> length ds > 4 then None
         else case drop (length ds) s of
           [] \<Rightarrow> Some (acc', ell, [])
         | c # r \<Rightarrow>
             if c = CHR ''.'' then
               (if ell = None \<and> length acc \<noteq> 6 \<or> length acc > 6 then None
                else case parse_ipv4 s of
                  Some [f0, f1, f2, f3] \<Rightarrow> Some (acc @ [256 * f0 + f1, 256 * f2 + f3], ell, [])
                | _ \<Rightarrow> None)
             else if c \<noteq> CHR '':'' then None
             else case r of
               [] \<Rightarrow> None
             | d # r' \<Rightarrow>
                 if d \<noteq> CHR '':'' then v6_fields n ell acc' r
                 else if ell \<noteq> None then None
                 else if r' = [] then Some (acc', Some (length acc'), [])
                 else v6_fields n (Some (length acc')) acc' r')"

definition parse_ipv6 :: "string \<Rightarrow> nat list option" where
  "parse_ipv6 s =
     (let dots = has_prefix s ''::''; rest = (if dots then drop 2 s else s); ell = (if dots then Some 0 else None)
      in if dots \<and> rest = [] then Some (replicate 8 0)
         else case v6_fields 8 ell [] rest of
           None \<Rightarrow> None
         | Some (fs, e, left) \<Rightarrow>
             if left \<noteq> [] then None
             else case e of
               None \<Rightarrow> if length fs = 8 then Some fs else None
             | Some k \<Rightarrow>
                 if length fs < 8 then Some (take k fs @ replicate (8 - length fs) 0 @ drop k fs) else None)"

definition of_fields :: "nat list \<Rightarrow> ip" where
  "of_fields fs =
     (let bytes = concat (map (be_bytes 2) fs)
      in if take 6 fs = [0, 0, 0, 0, 0, 65535] then IPv4 (drop 12 bytes) else IPv6 bytes)"

text \<open>The first of the three separators says which syntax is meant; a zone is refused.\<close>

definition ParseIP :: "string \<Rightarrow> ip option" where
  "ParseIP s =
     (case dropWhile (\<lambda>c. c \<noteq> CHR ''.'' \<and> c \<noteq> CHR '':'' \<and> c \<noteq> CHR 0x25) s of
        [] \<Rightarrow> None
      | c # r \<Rightarrow>
          if c = CHR ''.'' then map_option (\<lambda>fs. IPv4 (map byte_of fs)) (parse_ipv4 s)
          else if c = CHR '':'' then map_option of_fields (parse_ipv6 s)
          else None)"

lemma ParseIP_samples:
  "ParseIP ''192.168.0.1'' = Some (IPv4 (map byte_of [192, 168, 0, 1]))"
  "ParseIP ''1.2.3'' = None" "ParseIP ''1.2.3.04'' = None" "ParseIP ''1.2.3.256'' = None"
  "ParseIP ''1:2:3:4:5:6:7::8'' = None" "ParseIP ''1::2::3'' = None"
  by code_simp+

section \<open>Lengths\<close>

definition ip_wf :: "ip \<Rightarrow> bool" where
  "ip_wf p = (case p of IPv4 b \<Rightarrow> length b = 4 | IPv6 b \<Rightarrow> length b = 16)"

lemma length_parse_ipv4: "parse_ipv4 s = Some fs \<Longrightarrow> length fs = 4"
  by (auto simp: parse_ipv4_def Let_def split: if_splits)

lemma v6_fields_length:
  "v6_fields n ell acc s = Some (fs, e, left) \<Longrightarrow> length acc + n = 8 \<Longrightarrow> length acc \<le> length fs \<and> length fs \<le> 8"
proof (induction n arbitrary: ell acc s)
  case (Suc n)
  have IH: "v6_fields n ell' (acc @ [x]) s' = Some (fs, e, left) \<Longrightarrow> length acc \<le> length fs \<and> length fs \<le> 8" for ell' x s'
    using Suc.IH [of ell' "acc @ [x]" s'] Suc.prems(2) by simp
  from Suc.prems show ?case
    by (auto simp: Let_def split: if_splits list.splits option.splits dest: IH)
qed simp

lemma length_parse_ipv6: "parse_ipv6 s = Some fs \<Longrightarrow> length fs = 8"
  by (auto simp: parse_ipv6_def Let_def split: if_splits option.splits dest!: v6_fields_length)

lemma length_be_fields: "length (concat (map (be_bytes 2) fs)) = 2 * length fs"
  by (induction fs) auto

lemma ParseIP_wf: "ParseIP s = Some p \<Longrightarrow> ip_wf p"
  by (auto simp: ParseIP_def ip_wf_def of_fields_def Let_def length_be_fields
      split: list.splits if_splits dest: length_parse_ipv4 length_parse_ipv6)

section \<open>Printing\<close>

text \<open>\<open>net.IP.String\<close> of an address with a four-byte form.\<close>

definition show_ipv4 :: "string \<Rightarrow> string" where
  "show_ipv4 b =
     (case map (\<lambda>c. show_nat (code c)) b of
        [w, x, y, z] \<Rightarrow> w @ ''.'' @ x @ ''.'' @ y @ ''.'' @ z
      | _ \<Rightarrow> [])"

lemma show_nat_no_leading_zero: "10 \<le> n \<Longrightarrow> hd (show_nat n) \<noteq> CHR ''0''"
proof (induction n rule: show_nat.induct)
  case (1 n)
  show ?case
  proof (cases "n div 10 < 10")
    case True
    have "n div 10 \<noteq> 0" using 1(2) by simp
    then have "char_of (48 + n div 10) \<noteq> CHR ''0''" using True code_eq_iff [of "char_of (48 + n div 10)" "CHR ''0''"]
      by (auto simp: code_def)
    then show ?thesis using 1(2) True by (simp add: show_nat.simps [of n] show_nat.simps [of "n div 10"])
  next
    case False
    then show ?thesis using 1 by (simp add: show_nat.simps [of n])
  qed
qed

lemma ipv4_field_show: "n \<le> 255 \<Longrightarrow> ipv4_field (show_nat n) = Some n"
proof (cases "n < 10")
  case True
  then have "length (show_nat n) = 1" by (simp add: show_nat.simps [of n])
  then show ?thesis using True show_nat_digits digits_val_show_nat by (simp add: ipv4_field_def)
next
  case False
  assume "n \<le> 255"
  then show ?thesis using False show_nat_no_leading_zero [of n] show_nat_digits digits_val_show_nat
    by (simp add: ipv4_field_def)
qed

lemma show_nat_no_dot: "CHR ''.'' \<notin> set (show_nat n)"
proof
  assume "CHR ''.'' \<in> set (show_nat n)"
  then have "is_digit (CHR ''.'')" using show_nat_digits by (metis list_all_iff)
  then show False by (simp add: is_digit_def code_def)
qed

lemma show_nat_no_sep: "c \<in> set (show_nat n) \<Longrightarrow> c \<noteq> CHR ''.'' \<and> c \<noteq> CHR '':'' \<and> c \<noteq> CHR 0x25"
  using show_nat_digits [of n] by (auto simp: list_all_iff is_digit_def code_def)

lemma ParseIP_show_ipv4:
  assumes "length b = 4"
  shows "ParseIP (show_ipv4 b) = Some (IPv4 b)"
proof -
  from assms obtain w x y z where b: "b = [w, x, y, z]"
    by (auto simp: eval_nat_numeral length_Suc_conv)
  let ?w = "show_nat (code w)" and ?x = "show_nat (code x)" and ?y = "show_nat (code y)" and ?z = "show_nat (code z)"
  let ?r = "?x @ CHR ''.'' # ?y @ CHR ''.'' # ?z"
  have s: "show_ipv4 b = ?w @ CHR ''.'' # ?r" by (simp add: show_ipv4_def b)
  have "split_on (CHR ''.'') (show_ipv4 b) = [?w, ?x, ?y, ?z]"
    unfolding s by (simp only: split_on_append split_on_nosep show_nat_no_dot not_False_eq_True)
  moreover have "code c \<le> 255" for c using code_lt_256 [of c] by simp
  ultimately have "parse_ipv4 (show_ipv4 b) = Some (map code b)"
    by (simp add: parse_ipv4_def Let_def ipv4_field_show b)
  moreover have "dropWhile (\<lambda>c. c \<noteq> CHR ''.'' \<and> c \<noteq> CHR '':'' \<and> c \<noteq> CHR 0x25) (show_ipv4 b) = CHR ''.'' # ?r"
    unfolding s by (subst dropWhile_append2) (use show_nat_no_sep in auto)
  moreover have "map byte_of (map code b) = b" by (simp add: b)
  ultimately show ?thesis by (simp add: ParseIP_def)
qed

end
