(* ===== verification/Sip_Tls.thy ===== *)
theory Sip_Tls
  imports Sip_Stack Go_Net
begin

text \<open>
  \<open>internal/sip/tls.go\<close>: the self-signed certificate of the TLS listener. Key generation and the
  signing of a template are parameters, the template and the resulting configuration are the
  code's. The lemmas show whom the certificate names and when it is valid, and that \<open>Start\<close> with a
  TLS port asks for it and ends with its error.
\<close>

section \<open>The certificate\<close>

record certificate =
  ct_SerialNumber :: int
  ct_CommonName :: string
  ct_NotBefore :: int
  ct_NotAfter :: int
  ct_KeyUsage :: nat
  ct_ExtKeyUsage :: "nat list"
  ct_BasicConstraintsValid :: bool
  ct_IPAddresses :: "ip list"
  ct_DNSNames :: "string list"

text \<open>The constants of \<open>crypto/x509\<close> and \<open>crypto/tls\<close> that are used; times are in nanoseconds.\<close>

definition KeyUsageDigitalSignature :: nat where "KeyUsageDigitalSignature = 1"
definition KeyUsageKeyEncipherment :: nat where "KeyUsageKeyEncipherment = 4"
definition ExtKeyUsageServerAuth :: nat where "ExtKeyUsageServerAuth = 1"
definition VersionTLS12 :: nat where "VersionTLS12 = 0x0303"
definition hour_ns :: int where "hour_ns = 3600000000000"

definition cert_template :: "int \<Rightarrow> string \<Rightarrow> certificate" where
  "cert_template now host =
     (let base = \<lparr>ct_SerialNumber = 1, ct_CommonName = nonEmpty host ''smoke-tester'',
            ct_NotBefore = now - hour_ns, ct_NotAfter = now + 24 * hour_ns,
            ct_KeyUsage = or KeyUsageDigitalSignature KeyUsageKeyEncipherment,
            ct_ExtKeyUsage = [ExtKeyUsageServerAuth], ct_BasicConstraintsValid = True,
            ct_IPAddresses = [], ct_DNSNames = []\<rparr>
      in case ParseIP host of
           Some p \<Rightarrow> base\<lparr>ct_IPAddresses := [p]\<rparr>
         | None \<Rightarrow> if host \<noteq> [] then base\<lparr>ct_DNSNames := [host]\<rparr> else base)"

text \<open>One certificate chain of one DER block, with its private key.\<close>

record ('key, 'der) tls_config =
  tc_Certificate :: "'der list"
  tc_PrivateKey :: 'key
  tc_MinVersion :: nat

definition selfSignedTLSConfig ::
  "string + 'key \<Rightarrow> (certificate \<Rightarrow> certificate \<Rightarrow> 'key \<Rightarrow> string + 'der) \<Rightarrow> int \<Rightarrow> string
     \<Rightarrow> string + ('key, 'der) tls_config" where
  "selfSignedTLSConfig gen_key create now host =
     (case gen_key of
        Inl err \<Rightarrow> Inl (''selfSignedTLSConfig: generate key: '' @ err)
      | Inr key \<Rightarrow>
          (case create (cert_template now host) (cert_template now host) key of
             Inl err \<Rightarrow> Inl (''selfSignedTLSConfig: create cert: '' @ err)
           | Inr der \<Rightarrow> Inr \<lparr>tc_Certificate = [der], tc_PrivateKey = key, tc_MinVersion = VersionTLS12\<rparr>))"

section \<open>Whom it names\<close>

text \<open>
  What a peer that does verify compares: an address literal with the addresses, anything else
  with the names, letter case ignored. A certificate is valid between its two times.
\<close>

definition cert_names :: "certificate \<Rightarrow> string \<Rightarrow> bool" where
  "cert_names c host =
     (case ParseIP host of
        Some p \<Rightarrow> p \<in> set (ct_IPAddresses c)
      | None \<Rightarrow> list_ex (equal_fold host) (ct_DNSNames c))"

definition cert_valid_at :: "certificate \<Rightarrow> int \<Rightarrow> bool" where
  "cert_valid_at c t \<longleftrightarrow> ct_NotBefore c \<le> t \<and> t \<le> ct_NotAfter c"

lemma cert_names_iff:
  "cert_names (cert_template now host) h \<longleftrightarrow>
     host \<noteq> [] \<and> (case ParseIP h of Some p \<Rightarrow> ParseIP host = Some p | None \<Rightarrow> ParseIP host = None \<and> equal_fold h host)"
proof -
  have "ParseIP [] = None" by code_simp
  then show ?thesis by (auto simp: cert_names_def cert_template_def Let_def split: option.splits)
qed

lemma cert_valid_iff: "cert_valid_at (cert_template now host) t \<longleftrightarrow> now - hour_ns \<le> t \<and> t \<le> now + 24 * hour_ns"
  by (auto simp: cert_valid_at_def cert_template_def Let_def split: option.splits)

text \<open>
  For \<open>Start\<close> only the error counts. It comes before anything is registered, and without a TLS
  port no certificate is made.
\<close>

definition tls_error ::
  "string + 'key \<Rightarrow> (certificate \<Rightarrow> certificate \<Rightarrow> 'key \<Rightarrow> string + 'der) \<Rightarrow> int \<Rightarrow> string \<Rightarrow> string option" where
  "tls_error gen_key create now host =
     (case selfSignedTLSConfig gen_key create now host of Inl err \<Rightarrow> Some err | Inr _ \<Rightarrow> None)"

lemma Start_tls:
  assumes "cf_TLSBindPort cfg \<noteq> 0"
  shows "(\<exists>err. tls_error gen_key create now (cf_TLSBindHost cfg) = Some err
        \<and> Start None (tls_error gen_key create now) answers handler cfg = Inl err)
     \<or> (\<exists>key der. gen_key = Inr key
        \<and> create (cert_template now (cf_TLSBindHost cfg)) (cert_template now (cf_TLSBindHost cfg)) key = Inr der
        \<and> (\<forall>s. Start None (tls_error gen_key create now) answers handler cfg = Inr s \<longrightarrow>
             (''tls'', nonEmpty (cf_TLSBindHost cfg) ''0.0.0.0'', cf_TLSBindPort cfg) \<in> set (sk_transports s)))"
proof (cases "tls_error gen_key create now (cf_TLSBindHost cfg)")
  case None
  then obtain key der where "gen_key = Inr key"
    "create (cert_template now (cf_TLSBindHost cfg)) (cert_template now (cf_TLSBindHost cfg)) key = Inr der"
    by (auto simp: tls_error_def selfSignedTLSConfig_def split: sum.splits)
  then show ?thesis using assms None
    by (auto simp: Start_def Let_def transports_def split: if_splits option.splits)
next
  case (Some err)
  then show ?thesis using assms by (auto simp: Start_def Let_def)
qed

lemma Start_no_tls:
  "cf_TLSBindPort cfg = 0 \<Longrightarrow> Start ua_err tls_err answers handler cfg = Start ua_err tls_err' answers handler cfg"
  by (simp add: Start_def Let_def cong: if_cong)

end
