(* ===== verification/Sip_Resolver.thy ===== *)
theory Sip_Resolver
  imports Go_Net Prelude
begin

text \<open>
  \<open>internal/sip/resolver.go\<close>: the in-process DNS server that answers for the synthetic SIP realms.
  A datagram is its bytes; the system resolver is a parameter. The lemmas show that no datagram
  can make the handler index out of range, that every answer repeats the identifier and the
  question it answers, and what is answered for a configured host.
\<close>

section \<open>Addresses and hosts\<close>

definition host_key :: "string \<Rightarrow> string" where
  "host_key h = to_lower (trim_suffix h ''.'')"

text \<open>
  \<open>parse_ip\<close> is \<open>net.ParseIP\<close>. An address that has no four-byte form is stored as nil, which is
  the inner \<open>None\<close>.
\<close>

fun NewStaticResolver ::
  "(string \<Rightarrow> ip option) \<Rightarrow> (string \<times> string) list \<Rightarrow> string + (string \<rightharpoonup> string option)" where
  "NewStaticResolver parse_ip [] = Inr Map.empty"
| "NewStaticResolver parse_ip ((h, a) # hs) =
     (case parse_ip a of
        None \<Rightarrow> Inl (''StaticResolver: '' @ go_quote a @ '' is not a valid IP'')
      | Some p \<Rightarrow>
          (case NewStaticResolver parse_ip hs of
             Inl err \<Rightarrow> Inl err
           | Inr m \<Rightarrow> Inr (m(host_key h \<mapsto> (case m (host_key h) of Some v \<Rightarrow> v | None \<Rightarrow> ip_To4 p)))))"

section \<open>Messages\<close>

text \<open>
  The labels of the question name from offset \<open>off\<close>: the text so far, with a dot after each
  label, and the offset behind the name, or \<open>None\<close> where a label runs past the end.
\<close>

function parse_labels :: "string \<Rightarrow> nat \<Rightarrow> string \<Rightarrow> (string \<times> nat) option go" where
  "parse_labels req off sb =
     (if off < length req then
        let l = code (req ! off) in
        if l = 0 then Ret (Some (sb, off + 1))
        else if off + 1 + l > length req then Ret None
        else go_bind (go_slice req (int (off + 1)) (int (off + 1 + l)))
               (\<lambda>label. parse_labels req (off + 1 + l) (sb @ label @ ''.''))
      else Ret (Some (sb, off)))"
  by pat_completeness auto

termination
  by (relation "measure (\<lambda>(req, off, sb). length req - off)") auto

declare parse_labels.simps [simp del]

definition parseQuestion :: "string \<Rightarrow> nat \<Rightarrow> (string \<times> nat \<times> nat) go" where
  "parseQuestion req off =
     go_bind (parse_labels req off [])
       (\<lambda>res. case res of
          None \<Rightarrow> Ret ([], 0, 0)
        | Some (sb, off') \<Rightarrow>
            if off' + 4 > length req then Ret ([], 0, 0)
            else go_bind (go_slice req (int off') (int (off' + 2)))
                   (\<lambda>t. Ret (sb, be_val t, off' + 4)))"

definition buildResponse :: "nat \<Rightarrow> string \<Rightarrow> string" where
  "buildResponse i qsection =
     be_bytes 2 i @ [byte_of 0x81, byte_of 0x80] @ be_bytes 2 1 @ be_bytes 2 0 @ be_bytes 2 0 @ be_bytes 2 0 @ qsection"

definition rr_head :: "nat \<Rightarrow> nat \<Rightarrow> string" where
  "rr_head rtype rdlength =
     be_bytes 2 0xC00C @ be_bytes 2 rtype @ be_bytes 2 1 @ be_bytes 4 60 @ be_bytes 2 rdlength"

definition appendARecord :: "string \<Rightarrow> string \<Rightarrow> string" where
  "appendARecord resp ip4 = resp @ rr_head 1 4 @ ip4"

definition appendAAAARecord :: "string \<Rightarrow> string \<Rightarrow> string" where
  "appendAAAARecord resp ip16 = resp @ rr_head 28 16 @ ip16"

text \<open>\<open>PutUint16(resp[6:8], n)\<close> and \<open>resp[3] |= 3\<close>.\<close>

definition put_ancount :: "nat \<Rightarrow> string \<Rightarrow> string" where
  "put_ancount n resp = take 6 resp @ be_bytes 2 n @ drop 8 resp"

definition set_nxdomain :: "string \<Rightarrow> string" where
  "set_nxdomain resp = resp[3 := byte_of (or (code (resp ! 3)) 3)]"

section \<open>The handler\<close>

fun add_answers :: "nat \<Rightarrow> ip list \<Rightarrow> string \<Rightarrow> nat \<Rightarrow> string \<times> nat" where
  "add_answers qtype [] resp matched = (resp, matched)"
| "add_answers qtype (p # ps) resp matched =
     (case p of
        IPv4 b \<Rightarrow> if qtype = 1 then add_answers qtype ps (appendARecord resp b) (matched + 1)
                  else add_answers qtype ps resp matched
      | IPv6 b \<Rightarrow> if qtype = 28 then add_answers qtype ps (appendAAAARecord resp b) (matched + 1)
                  else add_answers qtype ps resp matched)"

definition forward :: "(string \<Rightarrow> ip list option) \<Rightarrow> nat \<Rightarrow> string \<Rightarrow> string \<Rightarrow> string" where
  "forward lookup_ip qtype low resp =
     (case lookup_ip low of
        None \<Rightarrow> set_nxdomain resp
      | Some ips \<Rightarrow> (let (out, matched) = add_answers qtype ips resp 0 in put_ancount matched out))"

definition resolver_handle ::
  "(string \<rightharpoonup> string option) \<Rightarrow> (string \<Rightarrow> ip list option) \<Rightarrow> string \<Rightarrow> string option go" where
  "resolver_handle hosts lookup_ip req =
     (if length req < 12 then Ret None
      else go_bind (go_slice req 0 2) (\<lambda>i. go_bind (go_slice req 4 6) (\<lambda>qd.
        if be_val qd = 0 then Ret None
        else go_bind (parseQuestion req 12) (\<lambda>(name, qtype, qend).
          if name = [] then Ret None
          else go_bind (go_slice req 12 (int qend)) (\<lambda>q.
            let low = host_key name; resp = buildResponse (be_val i) q in
            if qtype = 1 then
              (case hosts low of
                 Some (Some ip4) \<Rightarrow> Ret (Some (put_ancount 1 (appendARecord resp ip4)))
               | _ \<Rightarrow> Ret (Some (forward lookup_ip qtype low resp)))
            else if qtype = 28 \<and> hosts low \<noteq> None then Ret (Some resp)
            else Ret (Some (forward lookup_ip qtype low resp)))))))"

section \<open>Lemmas\<close>

lemma nat_1_plus_int [simp]: "nat (1 + int n) = Suc n"
  by simp

lemma go_slice_label:
  "Suc (off + l) \<le> length req \<Longrightarrow>
     go_slice req (int (off + 1)) (int (off + 1 + l)) = Ret (take l (drop (off + 1) req))"
  by (auto simp: go_slice_def nat_add_distrib)

text \<open>
  The question section of a message, by the format of DNS messages alone: labels, each a length
  byte and that many bytes, up to a zero byte, then two bytes of type and two of class.
\<close>

function after_name :: "string \<Rightarrow> string option" where
  "after_name [] = Some []"
| "after_name (b # bs) =
     (if code b = 0 then Some bs
      else if length bs < code b then None
      else after_name (drop (code b) bs))"
  by pat_completeness auto

termination
  by (relation "measure length") auto

definition question_section :: "string \<Rightarrow> string option" where
  "question_section body =
     (case after_name body of
        None \<Rightarrow> None
      | Some rest \<Rightarrow> if length rest < 4 then None else Some (take (length body - length rest + 4) body))"

definition question_type :: "string \<Rightarrow> nat" where
  "question_type q = be_val (take 2 (drop (length q - 4) q))"

lemma after_name_suffix: "after_name body = Some rest \<Longrightarrow> length rest \<le> length body"
  by (induction body rule: after_name.induct) (force split: if_splits)+

lemma parse_labels_after_name:
  "off \<le> length req \<Longrightarrow>
     (case after_name (drop off req) of
        None \<Rightarrow> parse_labels req off sb = Ret None
      | Some rest \<Rightarrow> \<exists>n. parse_labels req off sb = Ret (Some (sb @ n, length req - length rest))
          \<and> (n = [] \<longleftrightarrow> off = length req \<or> code (req ! off) = 0))"
proof (induction req off sb rule: parse_labels.induct)
  case (1 req off sb)
  show ?case
  proof (cases "off < length req")
    case False
    then show ?thesis using 1(2) by (subst (1 2) parse_labels.simps) simp
  next
    case True
    let ?l = "code (req ! off)"
    have d: "drop off req = req ! off # drop (off + 1) req" using True by (simp add: Cons_nth_drop_Suc)
    consider "?l = 0" | "?l \<noteq> 0" "length req < off + 1 + ?l" | "?l \<noteq> 0" "off + 1 + ?l \<le> length req" by linarith
    then show ?thesis
    proof cases
      case 3
      let ?label = "take ?l (drop (off + 1) req)"
      have s: "go_slice req (int (off + 1)) (int (off + 1 + ?l)) = Ret ?label"
        using 3 go_slice_label by simp
      have p: "parse_labels req off sb = parse_labels req (off + 1 + ?l) (sb @ ?label @ ''.'')"
        using True 3 by (subst parse_labels.simps) (simp add: Let_def s del: of_nat_add of_nat_Suc One_nat_def add_Suc_right)
      have a: "after_name (drop off req) = after_name (drop (off + 1 + ?l) req)"
        using True 3 by (simp add: d add.commute)
      from 1(1) [OF True refl, of ?label] 3 have IH: "case after_name (drop (off + 1 + ?l) req) of
          None \<Rightarrow> parse_labels req (off + 1 + ?l) (sb @ ?label @ ''.'') = Ret None
        | Some rest \<Rightarrow> \<exists>n. parse_labels req (off + 1 + ?l) (sb @ ?label @ ''.'')
              = Ret (Some ((sb @ ?label @ ''.'') @ n, length req - length rest))
            \<and> (n = [] \<longleftrightarrow> off + 1 + ?l = length req \<or> code (req ! (off + 1 + ?l)) = 0)" by simp
      show ?thesis
      proof (cases "after_name (drop (off + 1 + ?l) req)")
        case None
        with IH show ?thesis by (simp only: a p option.case)
      next
        case (Some rest)
        with IH obtain n where "parse_labels req (off + 1 + ?l) (sb @ ?label @ ''.'')
            = Ret (Some ((sb @ ?label @ ''.'') @ n, length req - length rest))" by (simp only: option.case) blast
        then have "parse_labels req off sb = Ret (Some (sb @ (?label @ ''.'' @ n), length req - length rest))"
          by (simp only: p append_assoc)
        with Some True 3 show ?thesis by (simp only: a option.case) force
      qed
    qed (use True d in \<open>auto simp: parse_labels.simps [of req off sb] Let_def\<close>)
  qed
qed

lemma parseQuestion_section:
  assumes "off \<le> length req"
  shows "case question_section (drop off req) of
      None \<Rightarrow> parseQuestion req off = Ret ([], 0, 0)
    | Some q \<Rightarrow> \<exists>name. parseQuestion req off = Ret (name, question_type q, off + length q)
        \<and> q = take (length q) (drop off req) \<and> off + length q \<le> length req \<and> 4 \<le> length q
        \<and> (name = [] \<longleftrightarrow> code (hd q) = 0)"
proof (cases "after_name (drop off req)")
  case None
  with parse_labels_after_name [OF assms, of "[]"] show ?thesis by (simp add: question_section_def parseQuestion_def)
next
  case (Some rest)
  with parse_labels_after_name [OF assms, of "[]"] have "\<exists>n. parse_labels req off [] = Ret (Some (n, length req - length rest))
      \<and> (n = [] \<longleftrightarrow> off = length req \<or> code (req ! off) = 0)" by simp
  then obtain n where n: "parse_labels req off [] = Ret (Some (n, length req - length rest))"
      "n = [] \<longleftrightarrow> off = length req \<or> code (req ! off) = 0" by (elim exE conjE) (rule that)
  have r: "length rest \<le> length req - off" using after_name_suffix [OF Some] by simp
  show ?thesis
  proof (cases "length rest < 4")
    case True
    then show ?thesis using n r Some assms by (auto simp: question_section_def parseQuestion_def)
  next
    case False
    define k where "k = length req - length rest - off"
    have e: "length req - length rest = off + k" "off + k + 4 \<le> length req" "off < length req"
      using False r assms by (auto simp: k_def)
    let ?q = "take (k + 4) (drop off req)"
    have sec: "question_section (drop off req) = Some ?q"
    proof -
      have "length (drop off req) - length rest = k" unfolding k_def length_drop by arith
      then show ?thesis using Some False by (simp only: question_section_def option.case if_False)
    qed
    have lq: "length ?q = k + 4" using e by simp
    have "drop (length ?q - 4) ?q = take 4 (drop (off + k) req)"
      by (simp only: lq) (simp add: drop_take add.commute)
    then have t: "question_type ?q = be_val (take 2 (drop (off + k) req))" by (simp add: question_type_def min_def)
    have sl: "go_slice req (int (off + k)) (int (off + k + 2)) = Ret (take 2 (drop (off + k) req))"
      using e by (auto simp: go_slice_def nat_add_distrib)
    have "parseQuestion req off = Ret (n, question_type ?q, off + length ?q)"
      unfolding parseQuestion_def n(1) e(1) using e(2) by (simp add: sl t lq del: of_nat_add)
    moreover have "hd ?q = req ! off" using e by (simp add: hd_take hd_drop_conv_nth)
    ultimately show ?thesis using n(2) e lq unfolding sec by simp
  qed
qed

text \<open>
  What the handler may send back for a query: the identifier of the query, the flags of an answer,
  possibly with the error code 3 for a name that does not exist, one question, the number of
  answers, then exactly the question section of the query and the records, all of the type asked.
\<close>

definition record_of :: "nat \<Rightarrow> string \<Rightarrow> bool" where
  "record_of qtype rr \<longleftrightarrow>
     (\<exists>a. qtype = 1 \<and> rr = rr_head 1 4 @ a \<or> qtype = 28 \<and> rr = rr_head 28 16 @ a)"

definition echoes :: "string \<Rightarrow> string \<Rightarrow> bool" where
  "echoes req resp \<longleftrightarrow>
     (\<exists>q rcode rrs. question_section (drop 12 req) = Some q \<and> code (hd q) \<noteq> 0
        \<and> resp = take 2 req @ [byte_of 0x81, byte_of (0x80 + rcode)] @ be_bytes 2 1 @ be_bytes 2 (length rrs)
            @ be_bytes 2 0 @ be_bytes 2 0 @ q @ concat rrs
        \<and> (rcode = 0 \<or> rcode = 3 \<and> rrs = [])
        \<and> (\<forall>rr\<in>set rrs. record_of (question_type q) rr))"

text \<open>A datagram that is answered: a header, a question count, and one whole question for a name.\<close>

definition answerable :: "string \<Rightarrow> bool" where
  "answerable req \<longleftrightarrow> 12 \<le> length req \<and> be_val (take 2 (drop 4 req)) \<noteq> 0
     \<and> (case question_section (drop 12 req) of None \<Rightarrow> False | Some q \<Rightarrow> code (hd q) \<noteq> 0)"

text \<open>The messages the handler builds: from header and question by adding records or the error code.\<close>

definition answer :: "nat \<Rightarrow> string \<Rightarrow> nat \<Rightarrow> string list \<Rightarrow> string" where
  "answer i q n rrs =
     be_bytes 2 i @ [byte_of 0x81, byte_of 0x80] @ be_bytes 2 1 @ be_bytes 2 n @ be_bytes 2 0 @ be_bytes 2 0 @ q @ concat rrs"

lemma buildResponse_answer: "buildResponse i q = answer i q 0 []"
  by (simp add: buildResponse_def answer_def)

lemma append_answer:
  "appendARecord (answer i q n rrs) b = answer i q n (rrs @ [rr_head 1 4 @ b])"
  "appendAAAARecord (answer i q n rrs) b = answer i q n (rrs @ [rr_head 28 16 @ b])"
  by (simp_all add: answer_def appendARecord_def appendAAAARecord_def)

lemma put_ancount_answer: "put_ancount m (answer i q n rrs) = answer i q m rrs"
  by (simp add: put_ancount_def answer_def)

lemma set_nxdomain_answer:
  "set_nxdomain (answer i q 0 []) =
     be_bytes 2 i @ [byte_of 0x81, byte_of (0x80 + 3)] @ be_bytes 2 1 @ be_bytes 2 0 @ be_bytes 2 0 @ be_bytes 2 0 @ q"
  by (simp add: set_nxdomain_def answer_def nth_append list_update_append)

lemma record_of_heads: "record_of 1 (rr_head 1 4 @ b)" "record_of 28 (rr_head 28 16 @ b)"
  by (auto simp: record_of_def)

lemma add_answers_answer:
  "length rrs = m \<Longrightarrow> \<forall>rr\<in>set rrs. record_of qtype rr \<Longrightarrow>
     \<exists>rrs'. add_answers qtype ps (answer i q 0 rrs) m = (answer i q 0 rrs', length rrs') \<and> (\<forall>rr\<in>set rrs'. record_of qtype rr)"
proof (induction ps arbitrary: rrs m)
  case (Cons p ps)
  have step: "\<exists>rrs'. add_answers qtype ps (answer i q 0 (rrs @ [rr])) (m + 1) = (answer i q 0 rrs', length rrs')
      \<and> (\<forall>r\<in>set rrs'. record_of qtype r)" if "record_of qtype rr" for rr
    using Cons.prems that by (intro Cons.IH) auto
  show ?case
  proof (cases p)
    case (IPv4 b)
    then show ?thesis using step [of "rr_head 1 4 @ b"] Cons.IH [OF Cons.prems] record_of_heads(1) [of b]
      by (cases "qtype = 1") (simp_all add: append_answer)
  next
    case (IPv6 b)
    then show ?thesis using step [of "rr_head 28 16 @ b"] Cons.IH [OF Cons.prems] record_of_heads(2) [of b]
      by (cases "qtype = 28") (simp_all add: append_answer)
  qed
qed auto

lemma answer_echoes:
  assumes "2 \<le> length req" "question_section (drop 12 req) = Some q" "code (hd q) \<noteq> 0"
    "\<forall>rr\<in>set rrs. record_of (question_type q) rr"
  shows "echoes req (answer (be_val (take 2 req)) q (length rrs) rrs)"
  unfolding echoes_def answer_def using assms by (intro exI [of _ q] exI [of _ 0] exI [of _ rrs]) (simp add: be_bytes_val)

lemma forward_echoes:
  assumes "2 \<le> length req" "question_section (drop 12 req) = Some q" "code (hd q) \<noteq> 0"
  shows "echoes req (forward lk (question_type q) low (answer (be_val (take 2 req)) q 0 []))"
proof (cases "lk low")
  case None
  then show ?thesis unfolding echoes_def using assms
    by (intro exI [of _ q] exI [of _ 3] exI [of _ "[]"]) (simp add: forward_def set_nxdomain_answer be_bytes_val)
next
  case (Some ips)
  from add_answers_answer [of "[]" 0 "question_type q" ips "be_val (take 2 req)" q] obtain rrs where
    "add_answers (question_type q) ips (answer (be_val (take 2 req)) q 0 []) 0 = (answer (be_val (take 2 req)) q 0 rrs, length rrs)"
    "\<forall>rr\<in>set rrs. record_of (question_type q) rr" by auto
  with answer_echoes [OF assms this(2)] Some show ?thesis by (simp add: forward_def put_ancount_answer)
qed

lemma handle_echo:
  assumes "12 \<le> length req"
  shows "\<exists>res. resolver_handle hosts lk req = Ret res \<and>
     (case res of None \<Rightarrow> \<not> answerable req | Some resp \<Rightarrow> answerable req \<and> echoes req resp)"
proof -
  have s: "go_slice req 0 2 = Ret (take 2 req)" "go_slice req 4 6 = Ret (take 2 (drop 4 req))"
    using assms by (simp_all add: go_slice_def)
  note q = parseQuestion_section [OF assms]
  show ?thesis
  proof (cases "answerable req")
    case False
    then show ?thesis using assms s q by (auto simp: resolver_handle_def answerable_def split: option.splits)
  next
    case True
    then obtain qs where qs: "question_section (drop 12 req) = Some qs" "code (hd qs) \<noteq> 0"
      and qd: "be_val (take 2 (drop 4 req)) \<noteq> 0" by (auto simp: answerable_def split: option.splits)
    from q qs obtain name where p: "parseQuestion req 12 = Ret (name, question_type qs, 12 + length qs)" "name \<noteq> []"
      and t: "qs = take (length qs) (drop 12 req)" "12 + length qs \<le> length req" by auto
    let ?i = "be_val (take 2 req)" and ?low = "host_key name" and ?qt = "question_type qs"
    have sl: "go_slice req 12 (int (12 + length qs)) = Ret qs"
      using t by (simp add: go_slice_def nat_add_distrib)
    have l: "2 \<le> length req" using assms by simp
    have "echoes req (forward lk ?qt ?low (answer ?i qs 0 []))" using forward_echoes [OF l qs] .
    moreover have "echoes req (answer ?i qs 0 [])" using answer_echoes [OF l qs, of "[]"] by simp
    moreover have "?qt = 1 \<Longrightarrow> echoes req (answer ?i qs 1 [rr_head 1 4 @ b])" for b
      using answer_echoes [OF l qs, of "[rr_head 1 4 @ b]"] by (simp add: record_of_def)
    ultimately show ?thesis using assms s qd p sl True
      by (auto simp: resolver_handle_def Let_def buildResponse_answer append_answer put_ancount_answer
          simp del: of_nat_add split: option.splits)
  qed
qed

section \<open>Well-formed queries\<close>

text \<open>A query as a client writes it: header, labels, closing zero byte, type and class, and more.\<close>

definition encode_labels :: "string list \<Rightarrow> string" where
  "encode_labels ls = concat (map (\<lambda>l. byte_of (length l) # l) ls) @ [byte_of 0]"

definition dotted :: "string list \<Rightarrow> string" where
  "dotted ls = concat (map (\<lambda>l. l @ ''.'') ls)"

lemma encode_labels_simps [simp]:
  "encode_labels [] = [byte_of 0]"
  "encode_labels (l # ls) = byte_of (length l) # l @ encode_labels ls"
  by (simp_all add: encode_labels_def)

lemma dotted_simps [simp]: "dotted [] = []" "dotted (l # ls) = l @ ''.'' @ dotted ls"
  by (simp_all add: dotted_def)

lemma parse_labels_encode:
  "\<forall>l \<in> set ls. l \<noteq> [] \<and> length l < 256 \<Longrightarrow>
   parse_labels (pre @ encode_labels ls @ post) (length pre) sb
     = Ret (Some (sb @ dotted ls, length pre + length (encode_labels ls)))"
proof (induction ls arbitrary: pre sb)
  case Nil
  then show ?case by (subst parse_labels.simps) (simp add: nth_append)
next
  case (Cons l ls)
  let ?pre = "pre @ byte_of (length l) # l"
  have "parse_labels (?pre @ encode_labels ls @ post) (length ?pre) (sb @ l @ ''.'')
      = Ret (Some ((sb @ l @ ''.'') @ dotted ls, length ?pre + length (encode_labels ls)))"
    using Cons.prems by (intro Cons.IH) simp
  moreover have "go_slice (pre @ byte_of (length l) # l @ encode_labels ls @ post)
      (int (length pre + 1)) (int (length pre + 1 + length l)) = Ret l"
    by (subst go_slice_label) simp_all
  ultimately show ?case using Cons.prems
    by (subst parse_labels.simps) (simp add: nth_append Let_def)
qed

text \<open>
  \<open>parseQuestion\<close> reads back what a client encodes: the dotted name with its
  trailing dot, the type, and the offset one past the class, whatever precedes and follows.
\<close>

lemma parseQuestion_encode:
  assumes "\<forall>l \<in> set ls. l \<noteq> [] \<and> length l < 256" "qtype < 65536" "length cls = 2"
  shows "parseQuestion (pre @ encode_labels ls @ be_bytes 2 qtype @ cls @ post) (length pre)
     = Ret (dotted ls, qtype, length pre + length (encode_labels ls) + 4)"
proof -
  have "go_slice (pre @ encode_labels ls @ be_bytes 2 qtype @ cls @ post)
      (int (length pre + length (encode_labels ls))) (int (length pre + length (encode_labels ls) + 2))
      = Ret (be_bytes 2 qtype)"
    by (simp add: go_slice_def nat_add_distrib)
  then show ?thesis using assms parse_labels_encode [OF assms(1)] by (simp add: parseQuestion_def)
qed

lemma parseQuestion_encode_witness:
  "parseQuestion (''abcd'' @ encode_labels [''smoke'', ''test''] @ be_bytes 2 28 @ be_bytes 2 1 @ []) (length ''abcd'')
     = Ret (dotted [''smoke'', ''test''], 28, length ''abcd'' + length (encode_labels [''smoke'', ''test'']) + 4)"
  by (rule parseQuestion_encode) simp_all

text \<open>
  C16 (safety): No datagram, however malformed, makes the handler index or slice out of range. It
  is silent exactly for the datagrams that lack a header, a question count, or a whole question
  for a name; every other one is answered, and the reply is the identifier, the flags of an answer
  with the code 0 or 3, the counts, exactly the question section of the query from its first label
  to its class, and as many records as it counts, each of the type that was asked for.
\<close>

theorem resolver_handle_safe:
  "\<exists>res. resolver_handle hosts lookup_ip req = Ret res \<and>
     (case res of None \<Rightarrow> \<not> answerable req | Some resp \<Rightarrow> answerable req \<and> echoes req resp)"
proof (cases "12 \<le> length req")
  case True
  from handle_echo [OF this] show ?thesis .
next
  case False
  then show ?thesis by (simp add: resolver_handle_def answerable_def)
qed

text \<open>
  A type A query for a host the resolver was given is answered from the table
  alone, whatever the letter case of the name: one answer, the configured address, no lookup.
\<close>

lemma answers_configured:
  assumes "length i = 2" "length flags = 2" "length counts = 6" "length cls = 2"
    and "ls \<noteq> []" "\<forall>l \<in> set ls. l \<noteq> [] \<and> length l < 256"
    and "hosts (host_key (dotted ls)) = Some (Some ip4)"
  shows "resolver_handle hosts lookup_ip
           (i @ flags @ be_bytes 2 1 @ counts @ encode_labels ls @ be_bytes 2 1 @ cls @ post)
       = Ret (Some (i @ [byte_of 0x81, byte_of 0x80] @ be_bytes 2 1 @ be_bytes 2 1 @ be_bytes 2 0 @ be_bytes 2 0
           @ encode_labels ls @ be_bytes 2 1 @ cls @ rr_head 1 4 @ ip4))"
proof -
  let ?hd = "i @ flags @ be_bytes 2 1 @ counts" and ?q = "encode_labels ls @ be_bytes 2 1 @ cls"
  let ?req = "?hd @ ?q @ post"
  have n: "dotted ls \<noteq> []" using assms(5) by (cases ls) auto
  have pq: "parseQuestion ?req 12 = Ret (dotted ls, 1, 12 + length (encode_labels ls) + 4)"
    using parseQuestion_encode [of ls 1 cls ?hd post] assms by simp
  have s: "go_slice ?req 0 2 = Ret i" "go_slice ?req 4 6 = Ret (be_bytes 2 1)"
    "go_slice ?req 12 (int (12 + length (encode_labels ls) + 4)) = Ret ?q"
    using assms by (simp_all add: go_slice_def nat_add_distrib)
  have b: "be_val (be_bytes 2 1) = 1" by simp
  have "resolver_handle hosts lookup_ip ?req
      = Ret (Some (put_ancount 1 (appendARecord (buildResponse (be_val i) ?q) ip4)))"
    using assms n pq s b by (simp add: resolver_handle_def Let_def)
  then show ?thesis using assms be_bytes_val [OF assms(1)]
    by (simp add: put_ancount_def buildResponse_def appendARecord_def)
qed

lemma answers_configured_sample:
  "resolver_handle [''smoke.test'' \<mapsto> Some ''abcd''] (\<lambda>_. None)
      (''xy'' @ ''ff'' @ be_bytes 2 1 @ ''cccccc'' @ encode_labels [''Smoke'', ''test''] @ be_bytes 2 1 @ ''cl'' @ [])
   = Ret (Some (''xy'' @ [byte_of 0x81, byte_of 0x80] @ be_bytes 2 1 @ be_bytes 2 1 @ be_bytes 2 0 @ be_bytes 2 0
        @ encode_labels [''Smoke'', ''test''] @ be_bytes 2 1 @ ''cl'' @ rr_head 1 4 @ ''abcd''))"
  by (rule answers_configured) (simp_all, code_simp)

end
