(* ===== verification/Sip_Resolver_Serve.thy ===== *)
theory Sip_Resolver_Serve
  imports Sip_Resolver Go_Chan "HOL-Library.Multiset"
begin

text \<open>
  The life cycle of the DNS server in \<open>internal/sip/resolver.go\<close>: the goroutine that reads
  datagrams into one shared buffer, the goroutines it starts to answer them, and \<open>Close\<close>. Events
  are chosen by the scheduler and the network in any order; one that is not enabled changes
  nothing, which is a goroutine that blocks. The lemmas account for every datagram: none is
  answered twice or mixed up with another although all pass through the same buffer, and once
  \<open>Close\<close> has returned the reading goroutine ends.
\<close>

section \<open>State\<close>

text \<open>
  A datagram has its bytes and the address of its peer. The reader is at its \<open>select\<close>, waits in
  \<open>ReadFromUDP\<close> up to its deadline, has \<open>n\<close> bytes in the buffer, or has returned.
\<close>

type_synonym datagram = "string \<times> string"

datatype serve_at = Selecting | Reading int | Copying nat string | Returned

text \<open>
  \<open>rv_mu\<close> is the mutex, held by a call of \<open>Close\<close> between its two actions. \<open>rv_inbox\<close> is what
  the socket has received, \<open>rv_handlers\<close> the copies whose goroutine has not run, \<open>rv_done\<close> those
  that have returned, with what each put on the wire.
\<close>

record static_resolver =
  rv_Hosts :: "string \<rightharpoonup> string option"
  rv_addr :: string
  rv_mu :: bool
  rv_stop :: "unit chan"
  rv_stopped :: bool
  rv_open :: bool
  rv_inbox :: "datagram list"
  rv_serve :: serve_at
  rv_buf :: string
  rv_handlers :: "datagram list"
  rv_done :: "(datagram \<times> datagram option) list"

definition resolver_buf_size :: nat where
  "resolver_buf_size = 1500"

text \<open>\<open>listen\<close> is the answer of \<open>net.ListenUDP\<close>: an error or the local address.\<close>

definition resolver_start :: "(string \<rightharpoonup> string option) \<Rightarrow> string + string \<Rightarrow> string + static_resolver" where
  "resolver_start hosts listen =
     (case listen of
        Inl err \<Rightarrow> Inl (''StaticResolver listen: '' @ err)
      | Inr addr \<Rightarrow> Inr \<lparr>rv_Hosts = hosts, rv_addr = addr, rv_mu = False, rv_stop = make_chan 0,
          rv_stopped = False, rv_open = True, rv_inbox = [], rv_serve = Selecting,
          rv_buf = replicate resolver_buf_size (byte_of 0), rv_handlers = [], rv_done = []\<rparr>)"

definition NewStaticResolver_started ::
  "(string \<Rightarrow> ip option) \<Rightarrow> (string \<times> string) list \<Rightarrow> string + string \<Rightarrow> string + static_resolver" where
  "NewStaticResolver_started parse_ip hosts listen =
     (case NewStaticResolver parse_ip hosts of
        Inl err \<Rightarrow> Inl err
      | Inr parsed \<Rightarrow> resolver_start parsed listen)"

text \<open>The dialer of \<open>Resolver\<close> ignores what it is asked for and reaches this server by UDP.\<close>

definition resolver_dial :: "static_resolver \<Rightarrow> string \<Rightarrow> string \<Rightarrow> string \<times> string" where
  "resolver_dial r network address = (''udp'', rv_addr r)"

section \<open>The reading goroutine\<close>

datatype net_err = ErrClosed | ErrOther

definition isClosedErr :: "net_err \<Rightarrow> bool" where
  "isClosedErr err \<longleftrightarrow> err = ErrClosed"

text \<open>The deadline of a read, in milliseconds.\<close>

definition timeNowPlus :: "int \<Rightarrow> int" where
  "timeNowPlus now = now + 500"

definition serve_select :: "int \<Rightarrow> static_resolver \<Rightarrow> static_resolver" where
  "serve_select now r = r\<lparr>rv_serve := if ch_closed (rv_stop r) then Returned else Reading (timeNowPlus now)\<rparr>"

text \<open>
  What \<open>ReadFromUDP\<close> gives at \<open>now\<close>, \<open>None\<close> while it waits: on a closed socket and after the
  deadline an error, another one (\<open>fails\<close>) at any time, else the next datagram, cut to the buffer.
\<close>

definition read_udp :: "int \<Rightarrow> bool \<Rightarrow> int \<Rightarrow> static_resolver \<Rightarrow> (net_err + datagram) option" where
  "read_udp now fails deadline r =
     (if \<not> rv_open r then Some (Inl ErrClosed)
      else if deadline \<le> now \<or> fails then Some (Inl ErrOther)
      else case rv_inbox r of
        [] \<Rightarrow> None
      | (d, src) # _ \<Rightarrow> Some (Inr (take resolver_buf_size d, src)))"

definition serve_read :: "int \<Rightarrow> bool \<Rightarrow> int \<Rightarrow> static_resolver \<Rightarrow> static_resolver" where
  "serve_read now fails deadline r =
     (case read_udp now fails deadline r of
        None \<Rightarrow> r
      | Some (Inl err) \<Rightarrow> r\<lparr>rv_serve := if isClosedErr err then Returned else Selecting\<rparr>
      | Some (Inr (d, src)) \<Rightarrow>
          r\<lparr>rv_inbox := tl (rv_inbox r), rv_buf := d @ drop (length d) (rv_buf r),
            rv_serve := Copying (length d) src\<rparr>)"

text \<open>\<open>req := append([]byte(nil), buf[:n]...)\<close> and \<open>go r.handle(req, src)\<close>.\<close>

definition serve_spawn :: "nat \<Rightarrow> string \<Rightarrow> static_resolver \<Rightarrow> static_resolver go" where
  "serve_spawn n src r =
     go_bind (go_slice (rv_buf r) 0 (int n))
       (\<lambda>req. Ret (r\<lparr>rv_handlers := rv_handlers r @ [(req, src)], rv_serve := Selecting\<rparr>))"

definition resolver_serve :: "int \<Rightarrow> bool \<Rightarrow> static_resolver \<Rightarrow> static_resolver go" where
  "resolver_serve now fails r =
     (case rv_serve r of
        Selecting \<Rightarrow> Ret (serve_select now r)
      | Reading deadline \<Rightarrow> Ret (serve_read now fails deadline r)
      | Copying n src \<Rightarrow> serve_spawn n src r
      | Returned \<Rightarrow> Ret r)"

section \<open>The other goroutines\<close>

text \<open>A handler runs; a write on the closed socket is an error that it ignores.\<close>

definition run_handler :: "nat \<Rightarrow> (string \<Rightarrow> ip list option) \<Rightarrow> static_resolver \<Rightarrow> static_resolver go" where
  "run_handler i lookup_ip r =
     (if i < length (rv_handlers r) then
        (let (req, src) = rv_handlers r ! i
         in go_bind (resolver_handle (rv_Hosts r) lookup_ip req)
              (\<lambda>res. let out = (case res of None \<Rightarrow> None | Some resp \<Rightarrow> if rv_open r then Some (resp, src) else None)
                     in Ret (r\<lparr>rv_handlers := take i (rv_handlers r) @ drop (Suc i) (rv_handlers r),
                               rv_done := rv_done r @ [((req, src), out)]\<rparr>)))
      else Ret r)"

text \<open>\<open>Close\<close> up to its first return or the closed channel, and the closing of the socket.\<close>

definition Close_begin :: "static_resolver \<Rightarrow> static_resolver go" where
  "Close_begin r =
     (if rv_mu r \<or> rv_stopped r then Ret r
      else go_bind (close_chan (rv_stop r)) (\<lambda>c. Ret (r\<lparr>rv_stopped := True, rv_stop := c, rv_mu := True\<rparr>)))"

definition Close_end :: "static_resolver \<Rightarrow> static_resolver" where
  "Close_end r = (if rv_mu r then r\<lparr>rv_open := False, rv_mu := False\<rparr> else r)"

datatype resolver_event =
    Arrive string string
  | Serve int bool
  | Handle nat "string \<Rightarrow> ip list option"
  | CloseBegin
  | CloseEnd

fun resolver_step :: "resolver_event \<Rightarrow> static_resolver \<Rightarrow> static_resolver go" where
  "resolver_step (Arrive d src) r = Ret (if rv_open r then r\<lparr>rv_inbox := rv_inbox r @ [(d, src)]\<rparr> else r)"
| "resolver_step (Serve now fails) r = resolver_serve now fails r"
| "resolver_step (Handle i lookup_ip) r = run_handler i lookup_ip r"
| "resolver_step CloseBegin r = Close_begin r"
| "resolver_step CloseEnd r = Ret (Close_end r)"

section \<open>The invariant\<close>

text \<open>The socket is closed only by a \<open>Close\<close> that has closed the stop channel, and that once.\<close>

definition resolver_ok :: "static_resolver \<Rightarrow> bool" where
  "resolver_ok r \<longleftrightarrow> (ch_closed (rv_stop r) \<longleftrightarrow> rv_stopped r) \<and> (rv_open r \<longleftrightarrow> rv_mu r \<or> \<not> rv_stopped r)
     \<and> (rv_mu r \<longrightarrow> rv_stopped r) \<and> length (rv_buf r) = resolver_buf_size
     \<and> (case rv_serve r of Copying n src \<Rightarrow> n \<le> resolver_buf_size | _ \<Rightarrow> True)"

lemma resolver_start_ok: "resolver_start hosts listen = Inr r \<Longrightarrow> resolver_ok r"
  by (auto simp: resolver_start_def resolver_ok_def split: sum.splits)

lemma handler_returns: "\<exists>res. resolver_handle hosts lk req = Ret res"
proof (cases "12 \<le> length req")
  case True
  then show ?thesis using handle_echo by blast
next
  case False
  then show ?thesis by (simp add: resolver_handle_def)
qed

lemma run_handler_cases:
  "run_handler i lk r = Ret r \<and> length (rv_handlers r) \<le> i
   \<or> (\<exists>req src res. i < length (rv_handlers r) \<and> rv_handlers r ! i = (req, src)
       \<and> resolver_handle (rv_Hosts r) lk req = Ret res
       \<and> run_handler i lk r = Ret (r\<lparr>rv_handlers := take i (rv_handlers r) @ drop (Suc i) (rv_handlers r),
           rv_done := rv_done r @ [((req, src), case res of None \<Rightarrow> None
             | Some resp \<Rightarrow> if rv_open r then Some (resp, src) else None)]\<rparr>))"
proof (cases "i < length (rv_handlers r)")
  case True
  obtain req src where h: "rv_handlers r ! i = (req, src)" by fastforce
  obtain res where "resolver_handle (rv_Hosts r) lk req = Ret res" using handler_returns by blast
  then show ?thesis using True h by (simp add: run_handler_def)
next
  case False
  then show ?thesis by (simp add: run_handler_def)
qed

lemma read_udp_cases:
  "read_udp now fails deadline r = None
   \<or> (\<exists>err. read_udp now fails deadline r = Some (Inl err) \<and> (isClosedErr err \<longleftrightarrow> \<not> rv_open r))
   \<or> (\<exists>d src rest. rv_inbox r = (d, src) # rest \<and> rv_open r
        \<and> read_udp now fails deadline r = Some (Inr (take resolver_buf_size d, src)))"
  by (auto simp: read_udp_def isClosedErr_def split: list.splits prod.splits)

lemma serve_read_ok: "resolver_ok r \<Longrightarrow> rv_serve r = Reading d \<Longrightarrow> resolver_ok (serve_read now fails d r)"
  using read_udp_cases [of now fails d r]
  by (elim disjE exE conjE) (auto simp: serve_read_def resolver_ok_def split: serve_at.splits)

interpretation resolver: guarded_machine resolver_step resolver_ok
proof
  fix r e
  assume ok: "resolver_ok r"
  show "\<exists>t. resolver_step e r = Ret t \<and> resolver_ok t"
  proof (cases e)
    case (Handle i lk)
    then show ?thesis using run_handler_cases [of i lk r] ok
      by (auto simp: resolver_ok_def split: serve_at.splits)
  next
    case (Serve now fails)
    then show ?thesis using ok serve_read_ok [OF ok]
      by (auto simp: resolver_serve_def serve_select_def serve_spawn_def resolver_ok_def
          split: serve_at.splits)
  qed (use ok in \<open>auto simp: resolver_ok_def Close_begin_def Close_end_def close_chan_def split: serve_at.splits\<close>)
qed

section \<open>Every datagram once\<close>

text \<open>
  A datagram as a handler gets it, what a run has delivered, and where the datagrams of a state
  are: in the socket, in the buffer, copied for a handler, or answered.
\<close>

definition clip :: "datagram \<Rightarrow> datagram" where
  "clip p = (take resolver_buf_size (fst p), snd p)"

fun arrived :: "resolver_event list \<Rightarrow> datagram list" where
  "arrived [] = []"
| "arrived (Arrive d src # es) = clip (d, src) # arrived es"
| "arrived (_ # es) = arrived es"

definition in_buffer :: "static_resolver \<Rightarrow> datagram multiset" where
  "in_buffer r = (case rv_serve r of Copying n src \<Rightarrow> {#(take n (rv_buf r), src)#} | _ \<Rightarrow> {#})"

definition in_flight :: "static_resolver \<Rightarrow> datagram multiset" where
  "in_flight r = mset (map clip (rv_inbox r)) + in_buffer r + mset (rv_handlers r)"

definition answered :: "static_resolver \<Rightarrow> datagram multiset" where
  "answered r = mset (map fst (rv_done r))"

lemma in_buffer_update [simp]:
  "in_buffer (r\<lparr>rv_handlers := h, rv_done := d\<rparr>) = in_buffer r" "in_buffer (r\<lparr>rv_inbox := q\<rparr>) = in_buffer r"
  "in_buffer (r\<lparr>rv_stopped := b, rv_stop := c, rv_mu := b'\<rparr>) = in_buffer r"
  "in_buffer (r\<lparr>rv_open := b, rv_mu := b'\<rparr>) = in_buffer r"
  by (simp_all add: in_buffer_def split: serve_at.splits)

lemma mset_remove_nth: "i < length xs \<Longrightarrow> add_mset (xs ! i) (mset (take i xs) + mset (drop (Suc i) xs)) = mset xs"
  by (metis id_take_nth_drop mset.simps(2) mset_append union_mset_add_mset_right)

lemma serve_read_accounts:
  assumes "resolver_ok r" "rv_serve r = Reading d"
  shows "in_flight (serve_read now fails d r) = in_flight r \<and> answered (serve_read now fails d r) = answered r"
proof -
  have buf: "take (min (length x) resolver_buf_size) x = take resolver_buf_size x" for x :: string
    by (simp add: min_def)
  show ?thesis using read_udp_cases [of now fails d r] assms
    by (elim disjE exE conjE)
      (auto simp: serve_read_def in_flight_def in_buffer_def answered_def clip_def buf)
qed

lemma step_accounts:
  assumes "resolver_ok r" "resolver_step e r = Ret t"
  shows "in_flight t + answered t
    = in_flight r + answered r + (if rv_open r then mset (arrived [e]) else {#})"
proof (cases e)
  case (Arrive d src)
  then show ?thesis using assms
    by (auto simp: in_flight_def in_buffer_def answered_def split: serve_at.splits)
next
  case (Serve now fails)
  note d = resolver_serve_def in_flight_def in_buffer_def answered_def
  show ?thesis
  proof (cases "rv_serve r")
    case (Reading d)
    then show ?thesis using Serve assms serve_read_accounts [OF assms(1), of d now fails]
      by (simp add: resolver_serve_def)
  qed (use Serve assms in \<open>auto simp: d serve_select_def serve_spawn_def\<close>)
next
  case (Handle i lk)
  then show ?thesis using assms(2) run_handler_cases [of i lk r] mset_remove_nth [of i "rv_handlers r"]
    by (auto simp: in_flight_def answered_def)
next
  case CloseBegin
  then show ?thesis using assms
    by (auto simp: Close_begin_def close_chan_def in_flight_def answered_def split: if_splits)
next
  case CloseEnd
  then show ?thesis using assms by (auto simp: Close_end_def in_flight_def answered_def)
qed

lemma step_open: "resolver_step e r = Ret t \<Longrightarrow> rv_open t \<Longrightarrow> rv_open r"
proof (cases e)
  case (Handle i lk)
  assume "resolver_step e r = Ret t" "rv_open t"
  then show ?thesis using run_handler_cases [of i lk r] Handle by auto
next
  case (Serve now fails)
  assume "resolver_step e r = Ret t" "rv_open t"
  then show ?thesis using Serve
    by (auto simp: resolver_serve_def serve_select_def serve_read_def serve_spawn_def
        split: serve_at.splits option.splits sum.splits if_splits)
qed (auto simp: Close_begin_def close_chan_def Close_end_def split: if_splits)

lemma run_accounts:
  "resolver_ok r \<Longrightarrow> go_fold resolver_step es r = Ret t \<Longrightarrow>
     in_flight t + answered t \<subseteq># in_flight r + answered r + mset (arrived es)
     \<and> (rv_open t \<longrightarrow> rv_open r \<and> in_flight t + answered t = in_flight r + answered r + mset (arrived es))"
proof (induction es arbitrary: r)
  case (Cons e es)
  from resolver.step_ok [OF Cons.prems(1)] obtain u where u: "resolver_step e r = Ret u" "resolver_ok u" by blast
  have a: "mset (arrived (e # es)) = mset (arrived [e]) + mset (arrived es)" by (cases e) auto
  note s = step_accounts [OF Cons.prems(1) u(1)]
  from Cons.prems(2) u(1) have "go_fold resolver_step es u = Ret t" by simp
  note IH = Cons.IH [OF u(2) this]
  have "in_flight u + answered u \<subseteq># in_flight r + answered r + mset (arrived [e])" by (simp add: s)
  then have "in_flight u + answered u + mset (arrived es) \<subseteq># in_flight r + answered r + mset (arrived (e # es))"
    by (simp only: a add.assoc [symmetric] mset_subset_eq_mono_add_right_cancel)
  from subset_mset.order_trans [OF conjunct1 [OF IH] this]
  have "in_flight t + answered t \<subseteq># in_flight r + answered r + mset (arrived (e # es))" .
  moreover have "rv_open r \<and> in_flight t + answered t = in_flight r + answered r + mset (arrived (e # es))"
    if "rv_open t"
  proof -
    from mp [OF conjunct2 [OF IH] that]
    have "rv_open u" and t: "in_flight t + answered t = in_flight u + answered u + mset (arrived es)" by simp_all
    with step_open [OF u(1)] have "rv_open r" by blast
    with s t a show ?thesis by (simp add: add.assoc)
  qed
  ultimately show ?case by blast
qed simp

text \<open>What is put on the wire is the answer to the datagram it stands for, sent where that came from.\<close>

fun reply_ok :: "(string \<rightharpoonup> string option) \<Rightarrow> datagram \<times> datagram option \<Rightarrow> bool" where
  "reply_ok hosts ((req, src), None) = True"
| "reply_ok hosts ((req, src), Some (resp, dst)) =
     (dst = src \<and> (\<exists>lk. resolver_handle hosts lk req = Ret (Some resp)))"

definition replies_ok :: "(string \<rightharpoonup> string option) \<Rightarrow> static_resolver \<Rightarrow> bool" where
  "replies_ok hosts r \<longleftrightarrow> rv_Hosts r = hosts \<and> list_all (reply_ok hosts) (rv_done r)"

lemma step_replies:
  assumes "replies_ok hosts r" "resolver_step e r = Ret t"
  shows "replies_ok hosts t"
proof (cases e)
  case (Handle i lk)
  from run_handler_cases [of i lk r] assms(2) Handle consider "t = r"
    | req src res where "resolver_handle (rv_Hosts r) lk req = Ret res"
      "rv_Hosts t = rv_Hosts r" "rv_done t = rv_done r @ [((req, src), case res of None \<Rightarrow> None
         | Some resp \<Rightarrow> if rv_open r then Some (resp, src) else None)]" by fastforce
  then show ?thesis
  proof cases
    case 2
    then show ?thesis using assms(1) by (cases res) (auto simp: replies_ok_def)
  qed (use assms in simp)
next
  case (Serve now fails)
  then show ?thesis using assms
    by (auto simp: resolver_serve_def serve_select_def serve_read_def serve_spawn_def replies_ok_def
        split: serve_at.splits option.splits sum.splits)
qed (use assms in \<open>auto simp: replies_ok_def Close_begin_def close_chan_def Close_end_def split: if_splits\<close>)

lemma started:
  assumes "resolver_start hosts listen = Inr r"
  shows "resolver_ok r" "replies_ok hosts r" "in_flight r + answered r = {#}"
  using assms resolver_start_ok
  by (auto simp: resolver_start_def replies_ok_def in_flight_def in_buffer_def answered_def split: sum.splits)

section \<open>The end\<close>

fun serve_turns :: "resolver_event list \<Rightarrow> nat" where
  "serve_turns [] = 0"
| "serve_turns (Serve now fails # es) = Suc (serve_turns es)"
| "serve_turns (_ # es) = serve_turns es"

fun turns_left :: "serve_at \<Rightarrow> nat" where
  "turns_left Returned = 0"
| "turns_left (Copying n src) = 2"
| "turns_left _ = 1"

definition closed :: "static_resolver \<Rightarrow> bool" where
  "closed r \<longleftrightarrow> resolver_ok r \<and> \<not> rv_open r"

lemma closed_step:
  assumes "closed r"
  shows "\<exists>t. resolver_step e r = Ret t \<and> closed t \<and> turns_left (rv_serve t) \<le> turns_left (rv_serve r) - serve_turns [e]"
proof -
  from assms resolver.step_ok [of r e] obtain t where t: "resolver_step e r = Ret t" "resolver_ok t"
    by (auto simp: closed_def)
  moreover have "\<not> rv_open t" using step_open [OF t(1)] assms by (auto simp: closed_def)
  moreover have "turns_left (rv_serve t) \<le> turns_left (rv_serve r) - serve_turns [e]"
  proof (cases e)
    case (Handle i lk)
    then show ?thesis using t(1) run_handler_cases [of i lk r] by auto
  next
    case (Serve now fails)
    then show ?thesis using t(1) assms
      by (auto simp: closed_def resolver_ok_def resolver_serve_def serve_select_def serve_read_def serve_spawn_def
          read_udp_def isClosedErr_def split: serve_at.splits)
  qed (use t(1) assms in \<open>auto simp: closed_def Close_begin_def close_chan_def Close_end_def split: if_splits\<close>)
  ultimately show ?thesis by (auto simp: closed_def)
qed

lemma closed_run:
  "closed r \<Longrightarrow> \<exists>t. go_fold resolver_step es r = Ret t \<and> closed t
     \<and> turns_left (rv_serve t) \<le> turns_left (rv_serve r) - serve_turns es"
proof (induction es arbitrary: r)
  case (Cons e es)
  from closed_step [OF Cons.prems, of e] obtain u where u: "resolver_step e r = Ret u" "closed u"
    "turns_left (rv_serve u) \<le> turns_left (rv_serve r) - serve_turns [e]" by blast
  from Cons.IH [OF u(2)] u(1,3) show ?case by (cases e) fastforce+
qed simp

lemma turns_left_le: "turns_left s \<le> 2" and turns_left_0: "turns_left s = 0 \<longleftrightarrow> s = Returned"
  by (cases s; simp)+

lemma run_replies:
  assumes "resolver_start hosts listen = Inr r" "go_fold resolver_step es r = Ret t"
  shows "replies_ok hosts t"
proof -
  note s = started [OF assms(1)]
  show ?thesis
    using resolver.run_keeps [where Q = "replies_ok hosts" and E = UNIV, OF _ s(1) s(2) _ assms(2)] step_replies by blast
qed

text \<open>An idle server answers the next datagram in three turns of the reader and one of the handler.\<close>

definition one_query :: "int \<Rightarrow> (string \<Rightarrow> ip list option) \<Rightarrow> string \<Rightarrow> string \<Rightarrow> resolver_event list" where
  "one_query now lookup_ip d src = [Arrive d src, Serve now False, Serve now False, Serve now False, Handle 0 lookup_ip]"

definition idle :: "static_resolver \<Rightarrow> bool" where
  "idle r \<longleftrightarrow> rv_open r \<and> \<not> ch_closed (rv_stop r) \<and> rv_serve r = Selecting \<and> rv_inbox r = [] \<and> rv_handlers r = []"

lemma one_query_answered:
  assumes "idle r" "length d \<le> resolver_buf_size" "resolver_handle (rv_Hosts r) lk d = Ret res"
  shows "go_fold resolver_step (one_query now lk d src) r
    = Ret (r\<lparr>rv_buf := d @ drop (length d) (rv_buf r),
        rv_done := rv_done r @ [((d, src), map_option (\<lambda>resp. (resp, src)) res)]\<rparr>)"
  using assms by (cases res)
    (simp_all add: one_query_def idle_def resolver_serve_def serve_select_def serve_read_def read_udp_def
      timeNowPlus_def serve_spawn_def go_slice_def run_handler_def)

text \<open>
  C20 (invariant): However the reads, the handlers, the network and calls of \<open>Close\<close> interleave, the
  server never panics; every datagram it has answered was received, none is answered twice or
  with bytes of another, and each reply is the handler's, sent where the query came from. While
  the socket is open, every datagram received is answered, in the hands of a handler, or waiting.
\<close>

theorem resolver_answers_each_once:
  assumes "resolver_start hosts listen = Inr r"
  shows "\<exists>t. go_fold resolver_step es r = Ret t \<and> replies_ok hosts t
     \<and> answered t \<subseteq># mset (arrived es)
     \<and> (rv_open t \<longrightarrow> in_flight t + answered t = mset (arrived es))"
proof -
  note s = started [OF assms]
  from resolver.run_ok [OF s(1)] obtain t where t: "go_fold resolver_step es r = Ret t" by blast
  have "replies_ok hosts t" by (rule run_replies [OF assms t])
  moreover note a = run_accounts [OF s(1) t]
  have "answered t \<subseteq># mset (arrived es)"
    by (rule subset_mset.order_trans [OF _ conjunct1 [OF a, unfolded s(3) add_0]]) simp
  moreover have "rv_open t \<longrightarrow> in_flight t + answered t = mset (arrived es)"
    using conjunct2 [OF a] by (simp add: s(3))
  ultimately show ?thesis using t by blast
qed

definition sample_server :: static_resolver where
  "sample_server = (case resolver_start [''smoke.test'' \<mapsto> Some ''abcd''] (Inr ''127.0.0.1:53'') of Inr r \<Rightarrow> r)"

lemma sample_server: "resolver_start [''smoke.test'' \<mapsto> Some ''abcd''] (Inr ''127.0.0.1:53'') = Inr sample_server"
  by (simp add: sample_server_def resolver_start_def)

lemma sample_server_answers:
  "go_fold resolver_step (one_query 0 lk ''q'' ''A'') sample_server
     = Ret (sample_server\<lparr>rv_buf := CHR ''q'' # drop 1 (rv_buf sample_server), rv_done := [((''q'', ''A''), None)]\<rparr>)"
proof -
  have "idle sample_server" "rv_done sample_server = []"
    by (simp_all add: sample_server_def resolver_start_def idle_def)
  moreover have "resolver_handle (rv_Hosts sample_server) lk ''q'' = Ret None" by (simp add: resolver_handle_def)
  moreover have "length ''q'' \<le> resolver_buf_size" by (simp add: resolver_buf_size_def)
  ultimately show ?thesis using one_query_answered [of sample_server "''q''" lk None 0 "''A''"] by simp
qed

theorem resolver_answers_each_once_witness:
  "\<exists>t. go_fold resolver_step (one_query 0 (\<lambda>_. None) ''q'' ''A'') sample_server = Ret t \<and> rv_open t
     \<and> rv_done t = [((''q'', ''A''), None)] \<and> in_flight t + {#(''q'', ''A'')#} = {#(''q'', ''A'')#}"
proof -
  let ?es = "one_query 0 (\<lambda>_. None) ''q'' ''A''"
  note a = sample_server_answers [of "\<lambda>_. None"]
  have o: "rv_open sample_server" by (simp add: sample_server_def resolver_start_def)
  have c: "arrived ?es = [(''q'', ''A'')]" by (simp add: one_query_def clip_def resolver_buf_size_def)
  from resolver_answers_each_once [OF sample_server, of ?es] a o show ?thesis
    unfolding c by (auto simp: answered_def)
qed

lemma step_stopped: "resolver_step e r = Ret t \<Longrightarrow> rv_stopped r \<Longrightarrow> rv_stopped t"
proof (cases e)
  case (Handle i lk)
  assume "resolver_step e r = Ret t" "rv_stopped r"
  then show ?thesis using run_handler_cases [of i lk r] Handle by auto
next
  case (Serve now fails)
  assume "resolver_step e r = Ret t" "rv_stopped r"
  then show ?thesis using Serve
    by (auto simp: resolver_serve_def serve_select_def serve_read_def serve_spawn_def
        split: serve_at.splits option.splits sum.splits if_splits)
qed (auto simp: Close_begin_def close_chan_def Close_end_def split: if_splits)

lemma run_stopped:
  "resolver_ok r \<Longrightarrow> rv_stopped r \<Longrightarrow> go_fold resolver_step es r = Ret t \<Longrightarrow> rv_stopped t"
  by (rule resolver.run_keeps [where Q = rv_stopped and E = UNIV and s = r and es = es])
    (auto intro: step_stopped)

lemma Close_closes:
  assumes "resolver_ok r" "go_fold resolver_step (CloseBegin # ms @ [CloseEnd]) r = Ret t"
  shows "closed t"
proof -
  from assms resolver.step_ok [of r CloseBegin] obtain u where
    u: "Close_begin r = Ret u" "resolver_ok u" and m: "go_fold resolver_step (ms @ [CloseEnd]) u = Ret t" by auto
  have "rv_stopped u" using u(1) assms(1) by (auto simp: Close_begin_def close_chan_def resolver_ok_def split: if_splits)
  moreover from resolver.run_ok [OF u(2)] obtain v where v: "go_fold resolver_step ms u = Ret v" "resolver_ok v" by blast
  ultimately have "rv_stopped v" using run_stopped u(2) by blast
  moreover have "t = Close_end v" using m v(1) by (simp add: go_fold_append)
  ultimately show ?thesis using v(2) by (auto simp: closed_def Close_end_def resolver_ok_def)
qed

text \<open>
  C21 (liveness): \<open>Close\<close> may be called any number of times, also while another call of it is in
  progress: nothing panics, the socket is closed when it returns, and the reading goroutine ends
  within two more of its turns, wherever it was, whatever else arrives or runs meanwhile.
\<close>

theorem resolver_Close_ends:
  assumes "resolver_start hosts listen = Inr r"
  shows "\<exists>t. go_fold resolver_step (es @ (CloseBegin # ms @ [CloseEnd]) @ es') r = Ret t \<and> \<not> rv_open t
     \<and> (2 \<le> serve_turns es' \<longrightarrow> rv_serve t = Returned)"
proof -
  from resolver.run_ok [OF started(1) [OF assms]] obtain u where u: "go_fold resolver_step es r = Ret u" "resolver_ok u" by blast
  from resolver.run_ok [OF u(2)] obtain v where v: "go_fold resolver_step (CloseBegin # ms @ [CloseEnd]) u = Ret v" by blast
  from closed_run [OF Close_closes [OF u(2) v], of es'] obtain t where
    t: "go_fold resolver_step es' v = Ret t" "closed t" "turns_left (rv_serve t) \<le> turns_left (rv_serve v) - serve_turns es'"
    by blast
  have "rv_serve t = Returned" if "2 \<le> serve_turns es'"
    using that t(3) turns_left_le [of "rv_serve v"] turns_left_0 [of "rv_serve t"] by linarith
  moreover have "go_fold resolver_step (es @ (CloseBegin # ms @ [CloseEnd]) @ es') r = Ret t"
    by (simp only: go_fold_append [of _ es] go_fold_append [of _ "CloseBegin # ms @ [CloseEnd]"] u(1) v t(1) go_bind.simps)
  ultimately show ?thesis using t(2) unfolding closed_def by blast
qed

theorem resolver_Close_ends_witness:
  "\<exists>t. go_fold resolver_step ([Arrive ''q'' ''A'', Serve 0 False, Serve 1 False] @ (CloseBegin # [CloseBegin] @ [CloseEnd])
     @ [Serve 2 False, Arrive ''r'' ''B'', Serve 3 False, CloseBegin]) sample_server = Ret t \<and> rv_serve t = Returned"
proof -
  have "2 \<le> serve_turns [Serve 2 False, Arrive ''r'' ''B'', Serve 3 False, CloseBegin]" by simp
  with resolver_Close_ends [OF sample_server] show ?thesis by blast
qed

end
