(* ===== verification/Json_Struct.thy ===== *)
theory Json_Struct
  imports Json
begin

text \<open>
  \<open>json.Unmarshal\<close> into Go structs and slices of structs, and \<open>json.Marshal\<close> of structs with
  \<open>omitempty\<close> fields. A struct is a zero value and a table of its tags; a member goes to the
  field whose tag it equals up to letter case, unknown members are skipped, null leaves a field
  as it is, and a value of the wrong kind is an error of the whole call.
\<close>

section \<open>Decoding\<close>

type_synonym 'a fields = "(string \<times> (json \<Rightarrow> 'a \<Rightarrow> 'a option)) list"

fun field_setter :: "'a fields \<Rightarrow> string \<Rightarrow> json \<Rightarrow> 'a \<Rightarrow> 'a option" where
  "field_setter [] k v a = Some a"
| "field_setter ((tag, put) # fs) k v a = (if equal_fold k tag then put v a else field_setter fs k v a)"

fun decode_members :: "'a fields \<Rightarrow> members \<Rightarrow> 'a \<Rightarrow> 'a option" where
  "decode_members fs [] a = Some a"
| "decode_members fs ((k, v) # m) a =
     (case field_setter fs k v a of None \<Rightarrow> None | Some b \<Rightarrow> decode_members fs m b)"

definition decode_struct :: "'a fields \<Rightarrow> 'a \<Rightarrow> json \<Rightarrow> 'a option" where
  "decode_struct fs zero j =
     (case j of JObj m \<Rightarrow> decode_members fs m zero | JNull \<Rightarrow> Some zero | _ \<Rightarrow> None)"

definition str_field :: "(string \<Rightarrow> 'a \<Rightarrow> 'a) \<Rightarrow> json \<Rightarrow> 'a \<Rightarrow> 'a option" where
  "str_field put v a = (case v of JStr s \<Rightarrow> Some (put s a) | JNull \<Rightarrow> Some a | _ \<Rightarrow> None)"

definition bool_field :: "(bool \<Rightarrow> 'a \<Rightarrow> 'a) \<Rightarrow> json \<Rightarrow> 'a \<Rightarrow> 'a option" where
  "bool_field put v a = (case v of JBool b \<Rightarrow> Some (put b a) | JNull \<Rightarrow> Some a | _ \<Rightarrow> None)"

text \<open>An \<open>int\<close> takes a number without fraction or exponent, in the 64-bit range.\<close>

definition int_field :: "(int \<Rightarrow> 'a \<Rightarrow> 'a) \<Rightarrow> json \<Rightarrow> 'a \<Rightarrow> 'a option" where
  "int_field put v a =
     (case v of
        JNum m e \<Rightarrow> if e = 0 \<and> - (2 ^ 63) \<le> m \<and> m < 2 ^ 63 then Some (put m a) else None
      | JNull \<Rightarrow> Some a
      | _ \<Rightarrow> None)"

text \<open>A field of struct type, and a pointer to one.\<close>

definition struct_field :: "'b fields \<Rightarrow> ('a \<Rightarrow> 'b) \<Rightarrow> ('b \<Rightarrow> 'a \<Rightarrow> 'a) \<Rightarrow> json \<Rightarrow> 'a \<Rightarrow> 'a option" where
  "struct_field fs get put v a = map_option (\<lambda>b. put b a) (decode_struct fs (get a) v)"

definition ptr_field :: "'b fields \<Rightarrow> 'b \<Rightarrow> ('b option \<Rightarrow> 'a \<Rightarrow> 'a) \<Rightarrow> json \<Rightarrow> 'a \<Rightarrow> 'a option" where
  "ptr_field fs zero put v a =
     (case v of JNull \<Rightarrow> Some (put None a) | _ \<Rightarrow> map_option (\<lambda>b. put (Some b) a) (decode_struct fs zero v))"

fun decode_all :: "(json \<Rightarrow> 'a option) \<Rightarrow> json list \<Rightarrow> 'a list option" where
  "decode_all f [] = Some []"
| "decode_all f (j # js) =
     (case f j of None \<Rightarrow> None | Some a \<Rightarrow> map_option ((#) a) (decode_all f js))"

definition decode_list :: "(json \<Rightarrow> 'a option) \<Rightarrow> json \<Rightarrow> 'a list option" where
  "decode_list f j = (case j of JArr js \<Rightarrow> decode_all f js | JNull \<Rightarrow> Some [] | _ \<Rightarrow> None)"

definition decode_string :: "json \<Rightarrow> string option" where
  "decode_string j = (case j of JStr s \<Rightarrow> Some s | JNull \<Rightarrow> Some [] | _ \<Rightarrow> None)"

definition unmarshal_as :: "(json \<Rightarrow> 'a option) \<Rightarrow> string \<Rightarrow> 'a option" where
  "unmarshal_as f raw = (case unmarshal raw of None \<Rightarrow> None | Some j \<Rightarrow> f j)"

section \<open>Encoding\<close>

definition req :: "string \<Rightarrow> string \<Rightarrow> members" where
  "req tag s = [(tag, JStr s)]"

definition opt :: "string \<Rightarrow> string \<Rightarrow> members" where
  "opt tag s = (if s = [] then [] else [(tag, JStr s)])"

definition opt_ptr :: "string \<Rightarrow> ('a \<Rightarrow> json) \<Rightarrow> 'a option \<Rightarrow> members" where
  "opt_ptr tag enc p = (case p of None \<Rightarrow> [] | Some a \<Rightarrow> [(tag, enc a)])"

definition opt_bool :: "string \<Rightarrow> bool \<Rightarrow> members" where
  "opt_bool tag b = (if b then [(tag, JBool True)] else [])"

definition opt_int :: "string \<Rightarrow> int \<Rightarrow> members" where
  "opt_int tag n = (if n = 0 then [] else [(tag, JNum n 0)])"

text \<open>A map in key order, as \<open>json.Marshal\<close> writes it; an empty one is left out.\<close>

definition opt_map :: "string \<Rightarrow> ('a \<Rightarrow> json) \<Rightarrow> (string \<times> 'a) list \<Rightarrow> members" where
  "opt_map tag enc m = (if m = [] then [] else [(tag, JObj (map (\<lambda>(k, v). (k, enc v)) m))])"

definition json_int :: "int \<Rightarrow> json" where
  "json_int n = JNum n 0"

section \<open>Lemmas\<close>

lemma decode_all_length: "decode_all f js = Some xs \<Longrightarrow> length xs = length js"
  by (induction f js arbitrary: xs rule: decode_all.induct) (auto split: option.splits)

lemma decode_members_append:
  "decode_members fs (m @ n) a =
     (case decode_members fs m a of None \<Rightarrow> None | Some b \<Rightarrow> decode_members fs n b)"
  by (induction fs m a rule: decode_members.induct) (auto split: option.split)

lemma decode_members_unknown:
  "\<forall>kv\<in>set m. \<forall>f\<in>set fs. \<not> equal_fold (fst kv) (fst f) \<Longrightarrow> decode_members fs m a = Some a"
proof (induction fs m a rule: decode_members.induct)
  case (2 fs k v m a)
  have "field_setter fs k v a = Some a"
    using 2(2) by (induction fs) auto
  with 2 show ?case by simp
qed simp

end
