(* ===== verification/Provision_Client.thy ===== *)
theory Provision_Client
  imports Json_Struct Contract
begin

text \<open>
  \<open>internal/provision/client.go\<close>: the REST client every resource operation goes through. The
  server is a parameter: a function from the calls made so far and the next call to what comes
  back. The state is the log of calls sent, and the response validator, which all clients of a
  run share. The lemmas say what a request adds to the log and what each kind of answer becomes,
  and \<open>deletion\<close> is the contract of the idempotent delete operations.
\<close>

section \<open>The server and the state\<close>

record rest_call =
  rc_Method :: string
  rc_URL :: string
  rc_Headers :: "(string \<times> string) list"
  rc_Body :: "json option"

text \<open>No response, a response whose body cannot be read, or the status and the body.\<close>

datatype rest_answer = DoError string | ReadError string | Response int string

record 'sch rest_env =
  re_server :: "rest_call list \<Rightarrow> rest_call \<Rightarrow> rest_answer"
  re_marshal :: "json \<Rightarrow> string option"
  re_build :: "string \<Rightarrow> string \<Rightarrow> string option"
  re_schema :: "'sch schema_env"

text \<open>
  \<open>re_marshal\<close> and \<open>re_build\<close> give the error, if any, of \<open>json.Marshal\<close> on a body and of
  \<open>http.NewRequestWithContext\<close> on a method and a URL.
\<close>

record 'sch rest_state =
  rs_log :: "rest_call list"
  rs_val :: "'sch validator"

record client =
  cl_base :: string
  cl_apiKey :: string
  cl_accountSID :: string
  cl_label :: string

definition client_New :: "string \<Rightarrow> string \<Rightarrow> string \<Rightarrow> string \<Rightarrow> client" where
  "client_New baseURL apiKey accountSID label =
     \<lparr>cl_base = baseURL, cl_apiKey = apiKey, cl_accountSID = accountSID, cl_label = label\<rparr>"

section \<open>Errors\<close>

record api_error =
  ae_Method :: string
  ae_Path :: string
  ae_Status :: int
  ae_Body :: string
  ae_Msg :: string

text \<open>
  \<open>RWrap\<close> is \<open>fmt.Errorf("...: %w")\<close>, which \<open>errors.As\<close> looks through; \<open>RDecode\<close> a JSON error,
  whose own text is left out.
\<close>

datatype rest_error =
    RApi api_error
  | RContract contract_error
  | RMsg string
  | RDecode string
  | RWrap string rest_error

definition truncate_body :: "string \<Rightarrow> nat \<Rightarrow> string" where
  "truncate_body s n = (if length s \<le> n then s else take n s @ [CHR 0xE2, CHR 0x80, CHR 0xA6])"

definition api_error_text :: "api_error \<Rightarrow> string" where
  "api_error_text e =
     ae_Method e @ '' '' @ ae_Path e @ '' -> '' @ itoa (ae_Status e) @ '': ''
       @ (if ae_Msg e \<noteq> [] then ae_Msg e else truncate_body (ae_Body e) 200)"

fun AsAPIError :: "rest_error \<Rightarrow> api_error option" where
  "AsAPIError (RApi e) = Some e"
| "AsAPIError (RWrap p e) = AsAPIError e"
| "AsAPIError _ = None"

definition StatusOf :: "rest_error option \<Rightarrow> int" where
  "StatusOf err =
     (case err of None \<Rightarrow> 0 | Some e \<Rightarrow> (case AsAPIError e of None \<Rightarrow> 0 | Some a \<Rightarrow> ae_Status a))"

section \<open>A request\<close>

definition request_headers :: "client \<Rightarrow> json option \<Rightarrow> (string \<times> string) list" where
  "request_headers c body =
     [(''Authorization'', ''Bearer '' @ cl_apiKey c), (''Accept'', ''application/json'')]
     @ (if body = None then [] else [(''Content-Type'', ''application/json'')])"

definition general_error_msg :: "string \<Rightarrow> string" where
  "general_error_msg body =
     (case unmarshal_as (decode_struct [(''msg'', str_field (\<lambda>s _. s))] []) body of
        Some msg \<Rightarrow> msg | None \<Rightarrow> [])"

definition the_call :: "client \<Rightarrow> string \<Rightarrow> string \<Rightarrow> json option \<Rightarrow> rest_call" where
  "the_call c meth path body =
     \<lparr>rc_Method = meth, rc_URL = cl_base c @ path, rc_Headers = request_headers c body, rc_Body = body\<rparr>"

definition handle_answer ::
  "'sch rest_env \<Rightarrow> string \<Rightarrow> string \<Rightarrow> string \<Rightarrow> int \<Rightarrow> rest_answer \<Rightarrow> 'sch rest_state
     \<Rightarrow> (string \<times> rest_error option) \<times> 'sch rest_state" where
  "handle_answer env meth path schema expect ans st =
     (case ans of
        DoError err \<Rightarrow> (([], Some (RWrap (meth @ '' '' @ path) (RMsg err))), st)
      | ReadError err \<Rightarrow> (([], Some (RWrap (meth @ '' '' @ path @ '': read body'') (RMsg err))), st)
      | Response status body \<Rightarrow>
          if status \<noteq> expect then
            ((body, Some (RApi \<lparr>ae_Method = meth, ae_Path = path, ae_Status = status, ae_Body = body,
                                ae_Msg = general_error_msg body\<rparr>)), st)
          else if schema \<noteq> [] \<and> body \<noteq> [] then
            (let (err, v) = ValidateResponse (re_schema env) schema body (rs_val st)
             in ((body, map_option RContract err), st\<lparr>rs_val := v\<rparr>))
          else ((body, None), st))"

definition Request ::
  "'sch rest_env \<Rightarrow> client \<Rightarrow> string \<Rightarrow> string \<Rightarrow> json option \<Rightarrow> string \<Rightarrow> int \<Rightarrow> 'sch rest_state
     \<Rightarrow> (string \<times> rest_error option) \<times> 'sch rest_state" where
  "Request env c meth path body schema expect st =
     (case (case body of None \<Rightarrow> None | Some b \<Rightarrow> re_marshal env b) of
        Some err \<Rightarrow> (([], Some (RWrap ''marshal body'' (RMsg err))), st)
      | None \<Rightarrow>
          (case re_build env meth (cl_base c @ path) of
             Some err \<Rightarrow> (([], Some (RMsg err)), st)
           | None \<Rightarrow>
               let call = the_call c meth path body in
               handle_answer env meth path schema expect (re_server env (rs_log st) call)
                 (st\<lparr>rs_log := rs_log st @ [call]\<rparr>)))"

section \<open>The shapes the resource operations share\<close>

text \<open>
  Every \<open>Create\<close> posts a body and decodes the new id; every \<open>Get\<close> and \<open>List\<close> decodes what it
  read; every \<open>Update\<close> looks at the status only; every \<open>Delete\<close> takes some statuses for success.
\<close>

definition read_op ::
  "'sch rest_env \<Rightarrow> client \<Rightarrow> string \<Rightarrow> string \<Rightarrow> json option \<Rightarrow> string \<Rightarrow> int \<Rightarrow> (json \<Rightarrow> 'a option) \<Rightarrow> string
     \<Rightarrow> 'sch rest_state \<Rightarrow> (rest_error + 'a) \<times> 'sch rest_state" where
  "read_op env c meth path body schema expect decode what st =
     (case Request env c meth path body schema expect st of
        ((_, Some err), st') \<Rightarrow> (Inl err, st')
      | ((raw, None), st') \<Rightarrow>
          ((case unmarshal_as decode raw of None \<Rightarrow> Inl (RDecode what) | Some a \<Rightarrow> Inr a), st'))"

definition decode_sid :: "json \<Rightarrow> string option" where
  "decode_sid = decode_struct [(''sid'', str_field (\<lambda>s _. s))] []"

definition create_op ::
  "'sch rest_env \<Rightarrow> client \<Rightarrow> string \<Rightarrow> json \<Rightarrow> string \<Rightarrow> string \<Rightarrow> 'sch rest_state
     \<Rightarrow> (rest_error + string) \<times> 'sch rest_state" where
  "create_op env c path body schema what = read_op env c ''POST'' path (Some body) schema 201 decode_sid what"

definition write_op ::
  "'sch rest_env \<Rightarrow> client \<Rightarrow> string \<Rightarrow> string \<Rightarrow> json option \<Rightarrow> int \<Rightarrow> 'sch rest_state
     \<Rightarrow> rest_error option \<times> 'sch rest_state" where
  "write_op env c meth path body expect st =
     (case Request env c meth path body [] expect st of ((_, err), st') \<Rightarrow> (err, st'))"

definition ignoring :: "int set \<Rightarrow> rest_error option \<Rightarrow> rest_error option" where
  "ignoring gone err =
     (case err of
        None \<Rightarrow> None
      | Some e \<Rightarrow> (case AsAPIError e of
                     Some a \<Rightarrow> if ae_Status a \<in> gone then None else Some e
                   | None \<Rightarrow> Some e))"

definition delete_op ::
  "'sch rest_env \<Rightarrow> client \<Rightarrow> string \<Rightarrow> int \<Rightarrow> int set \<Rightarrow> 'sch rest_state
     \<Rightarrow> rest_error option \<times> 'sch rest_state" where
  "delete_op env c path expect gone st =
     (case write_op env c ''DELETE'' path None expect st of (err, st') \<Rightarrow> (ignoring gone err, st'))"

section \<open>What is sent\<close>

text \<open>The calls between two states all satisfy \<open>P\<close>.\<close>

definition sends :: "(rest_call \<Rightarrow> bool) \<Rightarrow> 'sch rest_state \<Rightarrow> 'sch rest_state \<Rightarrow> bool" where
  "sends P s t \<longleftrightarrow> (\<exists>cs. rs_log t = rs_log s @ cs \<and> (\<forall>call\<in>set cs. P call))"

definition sent :: "rest_call \<Rightarrow> 'sch rest_state \<Rightarrow> 'sch rest_state \<Rightarrow> bool" where
  "sent call s t \<longleftrightarrow> (\<exists>cs. rs_log t = rs_log s @ cs \<and> call \<in> set cs)"

lemma sends_refl [simp, intro]: "sends P s s"
  by (simp add: sends_def)

lemma sends_trans [trans]: "sends P s t \<Longrightarrow> sends P t u \<Longrightarrow> sends P s u"
  by (auto simp: sends_def)

lemma sends_mono: "sends P s t \<Longrightarrow> (\<And>call. P call \<Longrightarrow> Q call) \<Longrightarrow> sends Q s t"
  by (auto simp: sends_def)

lemma sent_left: "sent call s t \<Longrightarrow> sends P t u \<Longrightarrow> sent call s u"
  by (auto simp: sent_def sends_def)

lemma sent_right: "sends P s t \<Longrightarrow> sent call t u \<Longrightarrow> sent call s u"
  by (auto simp: sent_def sends_def)

lemma handle_answer_log [simp]: "rs_log (snd (handle_answer env meth path schema expect ans st)) = rs_log st"
  by (auto simp: handle_answer_def split: rest_answer.split prod.split)

lemma Request_sends:
  "P (the_call c meth path body) \<Longrightarrow> sends P st (snd (Request env c meth path body schema expect st))"
  by (auto simp: Request_def sends_def Let_def split: option.split)

text \<open>The request can be built: the body marshals and the URL parses.\<close>

definition buildable :: "'sch rest_env \<Rightarrow> client \<Rightarrow> string \<Rightarrow> string \<Rightarrow> json option \<Rightarrow> bool" where
  "buildable env c meth path body \<longleftrightarrow>
     re_build env meth (cl_base c @ path) = None \<and> (\<forall>b. body = Some b \<longrightarrow> re_marshal env b = None)"

lemma Request_buildable:
  "buildable env c meth path body \<Longrightarrow>
     Request env c meth path body schema expect st =
       handle_answer env meth path schema expect (re_server env (rs_log st) (the_call c meth path body))
         (st\<lparr>rs_log := rs_log st @ [the_call c meth path body]\<rparr>)"
  by (auto simp: Request_def buildable_def Let_def split: option.split)

lemma Request_sent:
  "buildable env c meth path body \<Longrightarrow>
     sent (the_call c meth path body) st (snd (Request env c meth path body schema expect st))"
  by (simp add: Request_buildable sent_def)

lemma read_op_sends:
  "P (the_call c meth path body) \<Longrightarrow> sends P st (snd (read_op env c meth path body schema expect dec what st))"
  using Request_sends [of P c meth path body st env schema expect]
  by (auto simp: read_op_def split: prod.split option.split)

lemma write_op_sends: "P (the_call c meth path body) \<Longrightarrow> sends P st (snd (write_op env c meth path body expect st))"
  using Request_sends [of P c meth path body st env "[]" expect] by (auto simp: write_op_def split: prod.split)

lemma write_op_sent:
  "buildable env c meth path body \<Longrightarrow> sent (the_call c meth path body) st (snd (write_op env c meth path body expect st))"
  using Request_sent [of env c meth path body st "[]" expect] by (auto simp: write_op_def split: prod.split)

lemma delete_op_sends: "P (the_call c ''DELETE'' path None) \<Longrightarrow> sends P st (snd (delete_op env c path expect gone st))"
  using write_op_sends [of P c "''DELETE''" path None st env expect] by (auto simp: delete_op_def split: prod.split)

lemma delete_op_sent:
  "buildable env c ''DELETE'' path None \<Longrightarrow> sent (the_call c ''DELETE'' path None) st (snd (delete_op env c path expect gone st))"
  using write_op_sent [of env c "''DELETE''" path None st expect] by (auto simp: delete_op_def split: prod.split)

section \<open>Idempotent deletion\<close>

text \<open>What the answer to a call with an empty schema means to an operation that looks at the status.\<close>

definition answered :: "'sch rest_env \<Rightarrow> client \<Rightarrow> string \<Rightarrow> string \<Rightarrow> json option \<Rightarrow> 'sch rest_state \<Rightarrow> rest_answer" where
  "answered env c meth path body st = re_server env (rs_log st) (the_call c meth path body)"

lemma write_op_result:
  assumes "buildable env c meth path body"
  shows "fst (write_op env c meth path body expect st) = None
           \<longleftrightarrow> (\<exists>raw. answered env c meth path body st = Response expect raw)"
    and "answered env c meth path body st = Response status raw \<Longrightarrow> status \<noteq> expect \<Longrightarrow>
         \<exists>e. fst (write_op env c meth path body expect st) = Some (RApi e) \<and> ae_Status e = status"
  using assms by (auto simp: write_op_def Request_buildable answered_def handle_answer_def split: rest_answer.split)

lemma delete_op_result:
  assumes "buildable env c ''DELETE'' path None"
  shows "fst (delete_op env c path expect gone st) = None
           \<longleftrightarrow> (\<exists>status raw. answered env c ''DELETE'' path None st = Response status raw \<and> (status = expect \<or> status \<in> gone))"
  using assms
  by (auto simp: delete_op_def write_op_def Request_buildable answered_def handle_answer_def ignoring_def
      split: rest_answer.split)

text \<open>
  The contract of a delete operation of a resource: one DELETE on the resource's path, and
  success exactly for the expected status and for those that mean that it is gone already.
  A deletion repeated after a success therefore succeeds on any server that answers a deletion
  of something gone with one of those.
\<close>

locale deletion =
  fixes del :: "'sch rest_env \<Rightarrow> client \<Rightarrow> string \<Rightarrow> 'sch rest_state \<Rightarrow> rest_error option \<times> 'sch rest_state"
    and path :: "client \<Rightarrow> string \<Rightarrow> string"
    and fine :: "int set"
    and applies :: "client \<Rightarrow> bool"
  assumes one_call: "applies c \<Longrightarrow> buildable env c ''DELETE'' (path c sid) None \<Longrightarrow>
      rs_log (snd (del env c sid st)) = rs_log st @ [the_call c ''DELETE'' (path c sid) None]"
    and succeeds: "applies c \<Longrightarrow> buildable env c ''DELETE'' (path c sid) None \<Longrightarrow>
      fst (del env c sid st) = None
        \<longleftrightarrow> (\<exists>status raw. answered env c ''DELETE'' (path c sid) None st = Response status raw \<and> status \<in> fine)"
begin

lemma repeatable:
  assumes "applies c" and "buildable env c ''DELETE'' (path c sid) None"
    and "fst (del env c sid st) = None"
    and "\<exists>status raw. status \<in> fine \<and>
           re_server env (rs_log st @ [the_call c ''DELETE'' (path c sid) None]) (the_call c ''DELETE'' (path c sid) None)
             = Response status raw"
  shows "fst (del env c sid (snd (del env c sid st))) = None"
  using assms succeeds [OF assms(1,2), of "snd (del env c sid st)"] one_call [OF assms(1,2), of st]
  by (auto simp: answered_def)

lemma reports:
  assumes "applies c" and "buildable env c ''DELETE'' (path c sid) None"
    and "answered env c ''DELETE'' (path c sid) None st = Response status raw" and "status \<notin> fine"
  shows "fst (del env c sid st) \<noteq> None"
  using assms succeeds [OF assms(1,2), of st] by auto

end

lemma snd_write_op: "snd (write_op env c meth path body expect st) = snd (Request env c meth path body [] expect st)"
  by (simp add: write_op_def split: prod.split)

lemma snd_delete_op: "snd (delete_op env c path expect gone st) = snd (write_op env c ''DELETE'' path None expect st)"
  by (simp add: delete_op_def split: prod.split)

lemma delete_op_one_call:
  "buildable env c ''DELETE'' path None \<Longrightarrow>
     rs_log (snd (delete_op env c path expect gone st)) = rs_log st @ [the_call c ''DELETE'' path None]"
  by (simp add: snd_delete_op snd_write_op Request_buildable)

end
