(* ===== verification/Provision_Tags.thy ===== *)
theory Provision_Tags
  imports Go_Strings
begin

text \<open>
  \<open>internal/provision/tags.go\<close>: the names of what a run creates on the shared platform. The
  sweeper recognises leftovers by them, so what counts is that every name carries the harness
  prefix and the run's own one. Random bytes and the environment are parameters.
\<close>

definition NamePrefix :: string where "NamePrefix = ''it-''"

definition run_id_char :: "char \<Rightarrow> bool" where
  "run_id_char c \<longleftrightarrow> is_lower c \<or> is_upper c \<or> is_digit c \<or> c = CHR ''_'' \<or> c = CHR ''-''"

definition sanitise :: "string \<Rightarrow> string" where
  "sanitise s = (let b = filter run_id_char s in if b = [] then ''run'' else b)"

definition hex_encode :: "string \<Rightarrow> string" where
  "hex_encode bs = concat (map (\<lambda>b. [hex_digit (code b div 16), hex_digit (code b mod 16)]) bs)"

text \<open>
  \<open>sync.Once\<close>: the first call fixes the id, from \<open>RUN_ID\<close> if that is set, else from four random
  bytes; later calls return it whatever the environment says by then.
\<close>

definition RunID :: "string \<Rightarrow> string \<Rightarrow> string option \<Rightarrow> string \<times> string option" where
  "RunID getenv rand st =
     (case st of
        Some r \<Rightarrow> (r, st)
      | None \<Rightarrow> (let r = (if getenv \<noteq> [] then sanitise getenv else hex_encode rand) in (r, Some r)))"

definition resource_name :: "string \<Rightarrow> string \<Rightarrow> string" where
  "resource_name runID suffix = NamePrefix @ runID @ ''-'' @ suffix"

definition uniqueUsername :: "string \<Rightarrow> string \<Rightarrow> string \<Rightarrow> string" where
  "uniqueUsername runID rand role = NamePrefix @ runID @ ''-'' @ role @ ''-'' @ hex_encode rand"

definition randomPassword :: "string \<Rightarrow> string" where
  "randomPassword rand = hex_encode rand"

definition IsHarnessResource :: "string \<Rightarrow> bool" where
  "IsHarnessResource name \<longleftrightarrow> has_prefix name NamePrefix"

text \<open>What the sweeper takes for a name of the given run.\<close>

definition run_prefix :: "string \<Rightarrow> string" where
  "run_prefix runID = NamePrefix @ runID @ ''-''"

lemma resource_name_harness [simp]: "IsHarnessResource (resource_name r s)"
  by (simp add: IsHarnessResource_def resource_name_def)

lemma resource_name_run [simp]: "has_prefix (resource_name r s) (run_prefix r)"
  by (simp add: resource_name_def run_prefix_def has_prefix_def)

lemma uniqueUsername_run [simp]: "has_prefix (uniqueUsername r rand role) (run_prefix r)"
  by (simp add: uniqueUsername_def run_prefix_def has_prefix_def)

lemma sanitise_ne [simp]: "sanitise s \<noteq> []"
  by (simp add: sanitise_def Let_def)

lemma sanitise_chars: "c \<in> set (sanitise s) \<Longrightarrow> run_id_char c"
  by (auto simp: sanitise_def Let_def run_id_char_def is_lower_def code_def split: if_splits)

lemma sanitise_idem [simp]: "sanitise (sanitise s) = sanitise s"
proof -
  have "filter run_id_char (sanitise s) = sanitise s" using sanitise_chars by (simp add: filter_id_conv)
  then show ?thesis by (simp add: sanitise_def [of "sanitise s"] Let_def)
qed

lemma length_hex_encode [simp]: "length (hex_encode bs) = 2 * length bs"
  by (induction bs) (auto simp: hex_encode_def)

text \<open>The id never changes once it has been asked for.\<close>

lemma RunID_stable: "RunID e1 r1 st = (i, st') \<Longrightarrow> RunID e2 r2 st' = (i, st')"
  by (auto simp: RunID_def Let_def split: option.splits)

end
