(* ===== verification/Provision_Accounts.thy ===== *)
theory Provision_Accounts
  imports Provision_Client Provision_Tags
begin

text \<open>
  The resources a test suite lives on: accounts (\<open>internal/provision/accounts.go\<close>), API keys
  (\<open>api_keys.go\<close>), SIP clients (\<open>sip_clients.go\<close>) and calls (\<open>calls.go\<close>). Each operation is one
  request, or for the deletion of an account two; the deletions provide the contract
  \<open>deletion\<close>.
\<close>

section \<open>Webhooks\<close>

record webhook =
  wh_URL :: string
  wh_Method :: string
  wh_Username :: string
  wh_Password :: string

definition no_webhook :: webhook where
  "no_webhook = \<lparr>wh_URL = [], wh_Method = [], wh_Username = [], wh_Password = []\<rparr>"

definition webhook_fields :: "webhook fields" where
  "webhook_fields =
     [(''url'', str_field (\<lambda>s w. w\<lparr>wh_URL := s\<rparr>)), (''method'', str_field (\<lambda>s w. w\<lparr>wh_Method := s\<rparr>)),
      (''username'', str_field (\<lambda>s w. w\<lparr>wh_Username := s\<rparr>)), (''password'', str_field (\<lambda>s w. w\<lparr>wh_Password := s\<rparr>))]"

definition webhook_json :: "webhook \<Rightarrow> json" where
  "webhook_json w =
     JObj (req ''url'' (wh_URL w) @ opt ''method'' (wh_Method w) @ opt ''username'' (wh_Username w)
           @ opt ''password'' (wh_Password w))"

section \<open>Accounts\<close>

record account_create =
  ac_Name :: string
  ac_ServiceProviderSID :: string
  ac_SIPRealm :: string
  ac_RegistrationHook :: "webhook option"
  ac_QueueEventHook :: "webhook option"

definition account_create_json :: "account_create \<Rightarrow> json" where
  "account_create_json a =
     JObj (req ''name'' (ac_Name a) @ req ''service_provider_sid'' (ac_ServiceProviderSID a)
           @ opt ''sip_realm'' (ac_SIPRealm a) @ opt_ptr ''registration_hook'' webhook_json (ac_RegistrationHook a)
           @ opt_ptr ''queue_event_hook'' webhook_json (ac_QueueEventHook a))"

record account =
  ac_AccountSID :: string
  ac_Name' :: string
  ac_SPSID :: string
  ac_Realm :: string
  ac_RegHook :: "webhook option"
  ac_QueueHook :: "webhook option"
  ac_DeviceApp :: string
  ac_WebhookSecret :: string
  ac_CreatedAt :: string

definition no_account :: account where
  "no_account = \<lparr>ac_AccountSID = [], ac_Name' = [], ac_SPSID = [], ac_Realm = [], ac_RegHook = None,
     ac_QueueHook = None, ac_DeviceApp = [], ac_WebhookSecret = [], ac_CreatedAt = []\<rparr>"

definition account_fields :: "account fields" where
  "account_fields =
     [(''account_sid'', str_field (\<lambda>s a. a\<lparr>ac_AccountSID := s\<rparr>)),
      (''name'', str_field (\<lambda>s a. a\<lparr>ac_Name' := s\<rparr>)),
      (''service_provider_sid'', str_field (\<lambda>s a. a\<lparr>ac_SPSID := s\<rparr>)),
      (''sip_realm'', str_field (\<lambda>s a. a\<lparr>ac_Realm := s\<rparr>)),
      (''registration_hook'', ptr_field webhook_fields no_webhook (\<lambda>h a. a\<lparr>ac_RegHook := h\<rparr>)),
      (''queue_event_hook'', ptr_field webhook_fields no_webhook (\<lambda>h a. a\<lparr>ac_QueueHook := h\<rparr>)),
      (''device_calling_application_sid'', str_field (\<lambda>s a. a\<lparr>ac_DeviceApp := s\<rparr>)),
      (''webhook_secret'', str_field (\<lambda>s a. a\<lparr>ac_WebhookSecret := s\<rparr>)),
      (''created_at'', str_field (\<lambda>s a. a\<lparr>ac_CreatedAt := s\<rparr>))]"

definition decode_account :: "json \<Rightarrow> account option" where
  "decode_account = decode_struct account_fields no_account"

definition CreateAccount where
  "CreateAccount env c a =
     create_op env c ''/Accounts'' (account_create_json a) ''rest/accounts/createAccount.response.201.json''
       ''decode SuccessfulAdd''"

definition GetAccount where
  "GetAccount env c sid =
     read_op env c ''GET'' (''/Accounts/'' @ sid) None ''rest/accounts/getAccount.response.200.json'' 200
       decode_account ''decode Account''"

definition ListAccounts where
  "ListAccounts env c =
     read_op env c ''GET'' ''/Accounts'' None ''rest/accounts/listAccounts.response.200.json'' 200
       (decode_list decode_account) ''decode accounts''"

record account_update =
  au_Name :: string
  au_SIPRealm :: string
  au_RegistrationHook :: "webhook option"
  au_QueueEventHook :: "webhook option"

definition account_update_json :: "account_update \<Rightarrow> json" where
  "account_update_json a =
     JObj (opt ''name'' (au_Name a) @ opt ''sip_realm'' (au_SIPRealm a)
           @ opt_ptr ''registration_hook'' webhook_json (au_RegistrationHook a)
           @ opt_ptr ''queue_event_hook'' webhook_json (au_QueueEventHook a))"

definition UpdateAccount where
  "UpdateAccount env c sid a = write_op env c ''PUT'' (''/Accounts/'' @ sid) (Some (account_update_json a)) 204"

definition accountVisible where
  "accountVisible env c sid st =
     (case write_op env c ''GET'' (''/Accounts/'' @ sid) None 200 st of (err, st') \<Rightarrow> (err = None, st'))"

definition DeleteAccount ::
  "'sch rest_env \<Rightarrow> client \<Rightarrow> string \<Rightarrow> 'sch rest_state \<Rightarrow> rest_error option \<times> 'sch rest_state" where
  "DeleteAccount env c sid st =
     (case write_op env c ''DELETE'' (''/Accounts/'' @ sid) None 204 st of
        (None, st1) \<Rightarrow> (None, st1)
      | (Some err, st1) \<Rightarrow>
          (case AsAPIError err of
             None \<Rightarrow> (Some err, st1)
           | Some a \<Rightarrow>
               if ae_Status a = 404 then (None, st1)
               else if ae_Status a = 403 then
                 (let (visible, st2) = accountVisible env c sid st1
                  in (if visible then Some err else None, st2))
               else (Some err, st1)))"

definition SetSipRealm ::
  "'sch rest_env \<Rightarrow> client \<Rightarrow> string \<Rightarrow> string \<Rightarrow> 'sch rest_state \<Rightarrow> rest_error option \<times> 'sch rest_state" where
  "SetSipRealm env c accountSID sipRealm st =
     (case write_op env c ''POST'' (''/Accounts/'' @ accountSID @ ''/SipRealms/'' @ sipRealm) None 204 st of
        (err, st') \<Rightarrow> (ignoring {500} err, st'))"

section \<open>API keys\<close>

record api_key_create =
  ak_AccountSID :: string
  ak_ServiceProviderSID :: string
  ak_ExpirySecs :: "int option"

definition api_key_create_json :: "api_key_create \<Rightarrow> json" where
  "api_key_create_json k =
     JObj (opt ''account_sid'' (ak_AccountSID k) @ opt ''service_provider_sid'' (ak_ServiceProviderSID k)
           @ opt_ptr ''expiry_secs'' json_int (ak_ExpirySecs k))"

definition decode_api_key :: "json \<Rightarrow> (string \<times> string) option" where
  "decode_api_key =
     decode_struct [(''sid'', str_field (\<lambda>s p. (s, snd p))), (''token'', str_field (\<lambda>s p. (fst p, s)))] ([], [])"

definition CreateApiKey where
  "CreateApiKey env c k =
     read_op env c ''POST'' ''/ApiKeys'' (Some (api_key_create_json k)) ''rest/api_keys/createApikey.response.201.json''
       201 decode_api_key ''decode SuccessfulApiKeyAdd''"

definition DeleteApiKey where
  "DeleteApiKey env c sid = delete_op env c (''/ApiKeys/'' @ sid) 200 {404, 204}"

section \<open>SIP clients\<close>

record sip_client =
  sc_ClientSID :: string
  sc_AccountSID :: string
  sc_Username :: string
  sc_IsActive :: int

definition no_sip_client :: sip_client where
  "no_sip_client = \<lparr>sc_ClientSID = [], sc_AccountSID = [], sc_Username = [], sc_IsActive = 0\<rparr>"

text \<open>\<open>IntField.UnmarshalJSON\<close> (\<open>paginated.go\<close>): a number, a numeric string, or null for 0.\<close>

definition int_field_json :: "(int \<Rightarrow> 'a \<Rightarrow> 'a) \<Rightarrow> json \<Rightarrow> 'a \<Rightarrow> 'a option" where
  "int_field_json put v a =
     (case v of
        JNull \<Rightarrow> Some (put 0 a)
      | JStr s \<Rightarrow> (case atoi s of None \<Rightarrow> None | Some n \<Rightarrow> Some (put n a))
      | _ \<Rightarrow> int_field put v a)"

definition sip_client_fields :: "sip_client fields" where
  "sip_client_fields =
     [(''client_sid'', str_field (\<lambda>s a. a\<lparr>sc_ClientSID := s\<rparr>)),
      (''account_sid'', str_field (\<lambda>s a. a\<lparr>sc_AccountSID := s\<rparr>)),
      (''username'', str_field (\<lambda>s a. a\<lparr>sc_Username := s\<rparr>)),
      (''is_active'', int_field_json (\<lambda>n a. a\<lparr>sc_IsActive := n\<rparr>))]"

record sip_client_create =
  sn_AccountSID :: string
  sn_Username :: string
  sn_Password :: string
  sn_IsActive :: string
  sn_AppCalling :: string
  sn_QueueCalling :: string
  sn_UserCalling :: string

definition sip_client_create_json :: "sip_client_create \<Rightarrow> json" where
  "sip_client_create_json s =
     JObj (req ''account_sid'' (sn_AccountSID s) @ req ''username'' (sn_Username s) @ req ''password'' (sn_Password s)
           @ opt ''is_active'' (sn_IsActive s) @ opt ''allow_direct_app_calling'' (sn_AppCalling s)
           @ opt ''allow_direct_queue_calling'' (sn_QueueCalling s) @ opt ''allow_direct_user_calling'' (sn_UserCalling s))"

definition CreateSIPClient where
  "CreateSIPClient env c s =
     create_op env c ''/Clients'' (sip_client_create_json s) ''rest/clients/createClient.response.201.json''
       ''decode SuccessfulAdd''"

definition ListSIPClients ::
  "'sch rest_env \<Rightarrow> client \<Rightarrow> 'sch rest_state \<Rightarrow> (rest_error + sip_client list) \<times> 'sch rest_state" where
  "ListSIPClients env c =
     read_op env c ''GET'' ''/Clients'' None [] 200 (decode_list (decode_struct sip_client_fields no_sip_client))
       ''decode clients''"

definition ListSIPClientsForAccount ::
  "'sch rest_env \<Rightarrow> client \<Rightarrow> string \<Rightarrow> 'sch rest_state \<Rightarrow> (rest_error + sip_client list) \<times> 'sch rest_state" where
  "ListSIPClientsForAccount env c accountSID st =
     (case ListSIPClients env c st of
        (Inl err, st') \<Rightarrow> (Inl err, st')
      | (Inr xs, st') \<Rightarrow> (Inr (filter (\<lambda>cl. sc_AccountSID cl = accountSID) xs), st'))"

definition DeleteSIPClient where
  "DeleteSIPClient env c sid = delete_op env c (''/Clients/'' @ sid) 204 {404}"

section \<open>Calls\<close>

record call_summary =
  ls_CallSID :: string
  ls_CallStatus :: string
  ls_Direction :: string
  ls_From :: string
  ls_To :: string

definition no_call_summary :: call_summary where
  "no_call_summary = \<lparr>ls_CallSID = [], ls_CallStatus = [], ls_Direction = [], ls_From = [], ls_To = []\<rparr>"

definition call_summary_fields :: "call_summary fields" where
  "call_summary_fields =
     [(''call_sid'', str_field (\<lambda>s a. a\<lparr>ls_CallSID := s\<rparr>)), (''call_status'', str_field (\<lambda>s a. a\<lparr>ls_CallStatus := s\<rparr>)),
      (''direction'', str_field (\<lambda>s a. a\<lparr>ls_Direction := s\<rparr>)), (''from'', str_field (\<lambda>s a. a\<lparr>ls_From := s\<rparr>)),
      (''to'', str_field (\<lambda>s a. a\<lparr>ls_To := s\<rparr>))]"

definition liveCallStatuses :: "string list" where
  "liveCallStatuses = [''trying'', ''ringing'', ''early-media'', ''in-progress'', ''queued'']"

definition IsLive :: "call_summary \<Rightarrow> bool" where
  "IsLive s \<longleftrightarrow> ls_CallStatus s = [] \<or> ls_CallStatus s \<in> set liveCallStatuses"

definition calls_path :: "client \<Rightarrow> string" where
  "calls_path c = ''/Accounts/'' @ cl_accountSID c @ ''/Calls''"

definition need_account :: "string \<Rightarrow> rest_error" where
  "need_account op = RMsg (op @ '' requires an account-scoped client'')"

record call_target =
  ct_Type :: string
  ct_Name :: string
  ct_Number :: string
  ct_Trunk :: string
  ct_SipURI :: string
  ct_AuthUser :: string
  ct_AuthPass :: string
  ct_Headers :: "(string \<times> string) list"

definition call_target_json :: "call_target \<Rightarrow> json" where
  "call_target_json t =
     JObj (req ''type'' (ct_Type t) @ opt ''name'' (ct_Name t) @ opt ''number'' (ct_Number t) @ opt ''trunk'' (ct_Trunk t)
           @ opt ''sipUri'' (ct_SipURI t) @ opt ''auth_user'' (ct_AuthUser t) @ opt ''auth_password'' (ct_AuthPass t)
           @ opt_map ''headers'' JStr (ct_Headers t))"

record call_create =
  cc_ApplicationSID :: string
  cc_CallHook :: "webhook option"
  cc_CallStatusHook :: "webhook option"
  cc_AppJSON :: string
  cc_From :: string
  cc_FromHost :: string
  cc_To :: call_target
  cc_Timeout :: int
  cc_TimeLimit :: int
  cc_Tag :: members
  cc_Headers :: "(string \<times> string) list"
  cc_AnswerOnBridge :: bool
  cc_SynthVendor :: string
  cc_SynthLabel :: string
  cc_SynthLanguage :: string
  cc_SynthVoice :: string
  cc_RecogVendor :: string
  cc_RecogLabel :: string
  cc_RecogLanguage :: string

definition call_create_json :: "call_create \<Rightarrow> json" where
  "call_create_json b =
     JObj (opt ''application_sid'' (cc_ApplicationSID b) @ opt_ptr ''call_hook'' webhook_json (cc_CallHook b)
           @ opt_ptr ''call_status_hook'' webhook_json (cc_CallStatusHook b) @ opt ''app_json'' (cc_AppJSON b)
           @ req ''from'' (cc_From b) @ opt ''fromHost'' (cc_FromHost b) @ [(''to'', call_target_json (cc_To b))]
           @ opt_int ''timeout'' (cc_Timeout b) @ opt_int ''timeLimit'' (cc_TimeLimit b)
           @ opt_map ''tag'' (\<lambda>j. j) (cc_Tag b) @ opt_map ''headers'' JStr (cc_Headers b)
           @ opt_bool ''answerOnBridge'' (cc_AnswerOnBridge b)
           @ opt ''speech_synthesis_vendor'' (cc_SynthVendor b) @ opt ''speech_synthesis_label'' (cc_SynthLabel b)
           @ opt ''speech_synthesis_language'' (cc_SynthLanguage b) @ opt ''speech_synthesis_voice'' (cc_SynthVoice b)
           @ opt ''speech_recognizer_vendor'' (cc_RecogVendor b) @ opt ''speech_recognizer_label'' (cc_RecogLabel b)
           @ opt ''speech_recognizer_language'' (cc_RecogLanguage b))"

definition CreateCall where
  "CreateCall env c body st =
     (if cl_accountSID c = [] then (Inl (need_account ''CreateCall''), st)
      else create_op env c (calls_path c) (call_create_json body) ''rest/calls/createCall.response.201.json''
             ''decode createCall'' st)"

definition UpdateCall where
  "UpdateCall env c callSID body st =
     (if cl_accountSID c = [] then (Some (need_account ''UpdateCall''), st)
      else write_op env c ''POST'' (calls_path c @ ''/'' @ callSID) (Some body) 202 st)"

definition DeleteCall where
  "DeleteCall env c callSID st =
     (if cl_accountSID c = [] then (Some (need_account ''DeleteCall''), st)
      else delete_op env c (calls_path c @ ''/'' @ callSID) 204 {404} st)"

definition ListLiveCalls ::
  "'sch rest_env \<Rightarrow> client \<Rightarrow> 'sch rest_state \<Rightarrow> (rest_error + call_summary list) \<times> 'sch rest_state" where
  "ListLiveCalls env c st =
     (if cl_accountSID c = [] then (Inl (need_account ''ListLiveCalls''), st)
      else read_op env c ''GET'' (calls_path c) None ''rest/calls/listCalls.response.200.json'' 200
             (decode_list (decode_struct call_summary_fields no_call_summary)) ''decode listCalls'' st)"

definition HangupCall where
  "HangupCall env c callSID st =
     (case UpdateCall env c callSID (JObj [(''call_status'', JStr ''completed'')]) st of
        (err, st') \<Rightarrow> (ignoring {404} err, st'))"

section \<open>Deletions\<close>

lemma deletion_of:
  assumes "\<And>env c sid st. applies c \<Longrightarrow> del env c sid st = delete_op env c (path c sid) expect gone st"
  shows "deletion del path (insert expect gone) applies"
  using assms by unfold_locales (auto simp: delete_op_one_call delete_op_result)

interpretation key_del: deletion DeleteApiKey "\<lambda>c sid. ''/ApiKeys/'' @ sid" "{200, 404, 204}" "\<lambda>c. True"
  by (rule deletion_of) (simp add: DeleteApiKey_def)

interpretation client_del: deletion DeleteSIPClient "\<lambda>c sid. ''/Clients/'' @ sid" "{204, 404}" "\<lambda>c. True"
  by (rule deletion_of) (simp add: DeleteSIPClient_def)

interpretation call_del: deletion DeleteCall "\<lambda>c sid. calls_path c @ ''/'' @ sid" "{204, 404}"
    "\<lambda>c. cl_accountSID c \<noteq> []"
  by (rule deletion_of) (simp add: DeleteCall_def)

section \<open>What the operations send\<close>

text \<open>Reading never sends anything but one GET; hanging up and deleting a call stay on its path.\<close>

abbreviation is_get :: "rest_call \<Rightarrow> bool" where
  "is_get call \<equiv> rc_Method call = ''GET''"

lemma the_call_simps [simp]:
  "rc_Method (the_call c m p b) = m" "rc_URL (the_call c m p b) = cl_base c @ p" "rc_Body (the_call c m p b) = b"
  by (simp_all add: the_call_def)

lemma reads_send_get:
  "sends is_get st (snd (ListAccounts env c st))"
  "sends is_get st (snd (GetAccount env c sid st))"
  "sends is_get st (snd (ListSIPClients env c st))"
  "sends is_get st (snd (ListLiveCalls env c st))"
  "sends is_get st (snd (accountVisible env c sid st))"
proof -
  show "sends is_get st (snd (ListAccounts env c st))" unfolding ListAccounts_def by (rule read_op_sends) simp
  show "sends is_get st (snd (GetAccount env c sid st))" unfolding GetAccount_def by (rule read_op_sends) simp
  show "sends is_get st (snd (ListSIPClients env c st))" unfolding ListSIPClients_def by (rule read_op_sends) simp
  show "sends is_get st (snd (ListLiveCalls env c st))"
    unfolding ListLiveCalls_def by (auto intro: read_op_sends)
  show "sends is_get st (snd (accountVisible env c sid st))"
    using write_op_sends [of is_get c "''GET''" "''/Accounts/'' @ sid" None st env 200]
    by (auto simp: accountVisible_def split: prod.splits)
qed

lemma ListSIPClientsForAccount_sends: "sends is_get st (snd (ListSIPClientsForAccount env c sid st))"
  using reads_send_get(3) [of st env c]
  by (auto simp: ListSIPClientsForAccount_def split: prod.split sum.split)

lemma ListSIPClientsForAccount_own:
  "ListSIPClientsForAccount env c sid st = (Inr xs, st') \<Longrightarrow> cl \<in> set xs \<Longrightarrow> sc_AccountSID cl = sid"
  by (auto simp: ListSIPClientsForAccount_def split: prod.splits sum.splits)

lemma DeleteAccount_sends:
  "sends (\<lambda>call. call = the_call c ''DELETE'' (''/Accounts/'' @ sid) None \<or> is_get call) st (snd (DeleteAccount env c sid st))"
proof -
  let ?P = "\<lambda>call. call = the_call c ''DELETE'' (''/Accounts/'' @ sid) None \<or> is_get call"
  obtain err st1 where w: "write_op env c ''DELETE'' (''/Accounts/'' @ sid) None 204 st = (err, st1)" by fastforce
  with write_op_sends [of ?P c "''DELETE''" "''/Accounts/'' @ sid" None st env 204] have s1: "sends ?P st st1" by simp
  have "sends ?P st1 (snd (accountVisible env c sid st1))"
    by (rule sends_mono [OF reads_send_get(5)]) simp
  with s1 have "sends ?P st (snd (accountVisible env c sid st1))" by (rule sends_trans)
  with s1 w show ?thesis
    by (auto simp: DeleteAccount_def split: option.split prod.split)
qed

lemma DeleteAccount_sent:
  assumes "buildable env c ''DELETE'' (''/Accounts/'' @ sid) None"
  shows "sent (the_call c ''DELETE'' (''/Accounts/'' @ sid) None) st (snd (DeleteAccount env c sid st))"
proof -
  obtain err st1 where w: "write_op env c ''DELETE'' (''/Accounts/'' @ sid) None 204 st = (err, st1)" by fastforce
  with write_op_sent [OF assms, of st 204]
  have s: "sent (the_call c ''DELETE'' (''/Accounts/'' @ sid) None) st st1" by simp
  moreover obtain v st2 where v: "accountVisible env c sid st1 = (v, st2)" by fastforce
  with reads_send_get(5) [of st1 env c sid] have "sends is_get st1 st2" by simp
  ultimately show ?thesis using w v sent_left
    by (auto simp: DeleteAccount_def split: option.split)
qed

end
