(* ===== verification/Go_Time.thy ===== *)
theory Go_Time
  imports Go_Strings
begin

text \<open>
  \<open>time.Parse\<close> for the two layouts the program reads, RFC 3339 and the plain date and time of
  MySQL, with what the library tolerates: a one-digit hour, a fraction of a second the layout
  does not mention, offsets up to 24:60, and any number of blanks for the blank of the layout.
  A time is the nanoseconds since 1970 in UTC.
\<close>

section \<open>Digits\<close>

definition dig :: "char \<Rightarrow> int" where
  "dig = digit_val"

definition getnum :: "bool \<Rightarrow> string \<Rightarrow> (int \<times> string) option" where
  "getnum fixed s =
     (case s of
        [] \<Rightarrow> None
      | a # r \<Rightarrow>
          if \<not> is_digit a then None
          else case r of
            b # r' \<Rightarrow> if is_digit b then Some (10 * dig a + dig b, r') else if fixed then None else Some (dig a, r)
          | [] \<Rightarrow> if fixed then None else Some (dig a, r))"

definition get_range :: "bool \<Rightarrow> int \<Rightarrow> int \<Rightarrow> string \<Rightarrow> (int \<times> string) option" where
  "get_range fixed lo hi s =
     (case getnum fixed s of
        Some (n, r) \<Rightarrow> if lo \<le> n \<and> n \<le> hi then Some (n, r) else None
      | None \<Rightarrow> None)"

definition get_year :: "string \<Rightarrow> (int \<times> string) option" where
  "get_year s =
     (if 4 \<le> length s \<and> list_all is_digit (take 4 s) then Some (digits_val (take 4 s), drop 4 s) else None)"

definition skip_char :: "char \<Rightarrow> string \<Rightarrow> string option" where
  "skip_char c s = (case s of a # r \<Rightarrow> if a = c then Some r else None | [] \<Rightarrow> None)"

definition skip_blanks :: "string \<Rightarrow> string option" where
  "skip_blanks s =
     (if s \<noteq> [] \<and> hd s \<noteq> CHR '' '' then None else Some (dropWhile (\<lambda>c. c = CHR '' '') s))"

text \<open>A fraction after the seconds: digits beyond the ninth are dropped.\<close>

definition get_fraction :: "string \<Rightarrow> int \<times> string" where
  "get_fraction s =
     (case s of
        c # d # r \<Rightarrow>
          if (c = CHR ''.'' \<or> c = CHR '','') \<and> is_digit d then
            (let ds = takeWhile is_digit (d # r); used = take 9 ds
             in (digits_val used * 10 ^ (9 - length used), dropWhile is_digit (d # r)))
          else (0, s)
      | _ \<Rightarrow> (0, s))"

section \<open>Dates\<close>

definition leap :: "int \<Rightarrow> bool" where
  "leap y \<longleftrightarrow> y mod 4 = 0 \<and> (y mod 100 \<noteq> 0 \<or> y mod 400 = 0)"

definition month_days :: "int \<Rightarrow> int list" where
  "month_days y = [31, if leap y then 29 else 28, 31, 30, 31, 30, 31, 31, 30, 31, 30, 31]"

definition days_in :: "int \<Rightarrow> int \<Rightarrow> int" where
  "days_in y m = month_days y ! nat (m - 1)"

text \<open>The days from the first of January 1970 to a date; 719162 days are before that year.\<close>

definition day_number :: "int \<Rightarrow> int \<Rightarrow> int \<Rightarrow> int" where
  "day_number y m d =
     (let p = y - 1 in
      365 * p + p div 4 - p div 100 + p div 400 + sum_list (take (nat (m - 1)) (month_days y)) + (d - 1) - 719162)"

definition get_date :: "string \<Rightarrow> (int \<times> string) option" where
  "get_date s =
     (case get_year s of None \<Rightarrow> None | Some (y, s1) \<Rightarrow>
      case skip_char (CHR ''-'') s1 of None \<Rightarrow> None | Some s2 \<Rightarrow>
      case get_range True 1 12 s2 of None \<Rightarrow> None | Some (m, s3) \<Rightarrow>
      case skip_char (CHR ''-'') s3 of None \<Rightarrow> None | Some s4 \<Rightarrow>
      case get_range True 1 (days_in y m) s4 of None \<Rightarrow> None | Some (d, s5) \<Rightarrow>
        Some (day_number y m d, s5))"

text \<open>The time of day in nanoseconds.\<close>

definition get_clock :: "string \<Rightarrow> (int \<times> string) option" where
  "get_clock s =
     (case get_range False 0 23 s of None \<Rightarrow> None | Some (h, s1) \<Rightarrow>
      case skip_char (CHR '':'') s1 of None \<Rightarrow> None | Some s2 \<Rightarrow>
      case get_range True 0 59 s2 of None \<Rightarrow> None | Some (mi, s3) \<Rightarrow>
      case skip_char (CHR '':'') s3 of None \<Rightarrow> None | Some s4 \<Rightarrow>
      case get_range True 0 59 s4 of None \<Rightarrow> None | Some (sec, s5) \<Rightarrow>
        (let (ns, s6) = get_fraction s5 in Some (((h * 60 + mi) * 60 + sec) * 1000000000 + ns, s6)))"

text \<open>The offset east of UTC in seconds.\<close>

definition get_zone :: "string \<Rightarrow> (int \<times> string) option" where
  "get_zone s =
     (case s of
        [] \<Rightarrow> None
      | c # r \<Rightarrow>
          if c = CHR ''Z'' then Some (0, r)
          else if length s < 6 \<or> s ! 3 \<noteq> CHR '':'' then None
          else case (get_range True 0 24 (take 2 r), get_range True 0 60 (take 2 (drop 3 r))) of
            (Some (hh, _), Some (mm, _)) \<Rightarrow>
              if c = CHR ''+'' then Some ((hh * 60 + mm) * 60, drop 6 s)
              else if c = CHR ''-'' then Some (- ((hh * 60 + mm) * 60), drop 6 s)
              else None
          | _ \<Rightarrow> None)"

definition parse_rfc3339 :: "string \<Rightarrow> int option" where
  "parse_rfc3339 s =
     (case get_date s of None \<Rightarrow> None | Some (d, s1) \<Rightarrow>
      case skip_char (CHR ''T'') s1 of None \<Rightarrow> None | Some s2 \<Rightarrow>
      case get_clock s2 of None \<Rightarrow> None | Some (t, s3) \<Rightarrow>
      case get_zone s3 of None \<Rightarrow> None | Some (z, s4) \<Rightarrow>
        if s4 = [] then Some ((d * 86400 - z) * 1000000000 + t) else None)"

definition parse_datetime :: "string \<Rightarrow> int option" where
  "parse_datetime s =
     (case get_date s of None \<Rightarrow> None | Some (d, s1) \<Rightarrow>
      case skip_blanks s1 of None \<Rightarrow> None | Some s2 \<Rightarrow>
      case get_clock s2 of None \<Rightarrow> None | Some (t, s3) \<Rightarrow>
        if s3 = [] then Some (d * 86400 * 1000000000 + t) else None)"

section \<open>Sample values\<close>

lemma parse_rfc3339_epoch: "parse_rfc3339 ''1970-01-01T00:00:00.000Z'' = Some 0"
  by code_simp

lemma parse_rfc3339_sample: "parse_rfc3339 ''2026-08-11T14:00:00.5+02:00'' = Some 1786449600500000000"
  by code_simp

lemma parse_datetime_sample: "parse_datetime ''2000-02-29 23:59:59'' = Some 951868799000000000"
  by code_simp

lemma parse_rfc3339_bad_day: "parse_rfc3339 ''2026-02-29T00:00:00Z'' = None"
  by code_simp

end
