(* ===== verification/Provision_Suite.thy ===== *)
theory Provision_Suite
  imports Provision_Accounts Go_Time
begin

text \<open>
  The two operations that destroy things on a shared platform, and the one that creates them:
  the sweep of leftover accounts (\<open>internal/provision/sweeper_accounts.go\<close>) and the set-up and
  teardown of a suite's own account (\<open>suite.go\<close>). The lemmas show which resources can be the
  target of a DELETE, that a failed set-up leaves nothing it created without a DELETE, and that
  a teardown always asks for the account to be deleted.
\<close>

section \<open>The sweep\<close>

definition parseAPITime :: "string \<Rightarrow> int option" where
  "parseAPITime s = (case parse_rfc3339 s of Some t \<Rightarrow> Some t | None \<Rightarrow> parse_datetime s)"

definition shouldSweep :: "account \<Rightarrow> string \<Rightarrow> int \<Rightarrow> int \<Rightarrow> bool" where
  "shouldSweep a currentPrefix minAge now =
     (if \<not> has_prefix (ac_Name' a) NamePrefix then False
      else if has_prefix (ac_Name' a) currentPrefix then False
      else if minAge > 0 then
        (case parseAPITime (ac_CreatedAt a) of
           None \<Rightarrow> False
         | Some created \<Rightarrow> \<not> now - created < minAge)
      else True)"

fun delete_clients_of ::
  "'sch rest_env \<Rightarrow> client \<Rightarrow> string \<Rightarrow> sip_client list \<Rightarrow> 'sch rest_state \<Rightarrow> 'sch rest_state" where
  "delete_clients_of env c accountSID [] st = st"
| "delete_clients_of env c accountSID (cl # cls) st =
     (if sc_AccountSID cl \<noteq> accountSID then delete_clients_of env c accountSID cls st
      else delete_clients_of env c accountSID cls (snd (DeleteSIPClient env c (sc_ClientSID cl) st)))"

fun sweep_accounts ::
  "'sch rest_env \<Rightarrow> client \<Rightarrow> sip_client list \<Rightarrow> string \<Rightarrow> int \<Rightarrow> int \<Rightarrow> account list \<Rightarrow> nat \<Rightarrow> 'sch rest_state
     \<Rightarrow> nat \<times> 'sch rest_state" where
  "sweep_accounts env c clients prefix minAge now [] swept st = (swept, st)"
| "sweep_accounts env c clients prefix minAge now (a # as) swept st =
     (if \<not> shouldSweep a prefix minAge now then sweep_accounts env c clients prefix minAge now as swept st
      else
        let (err, st1) = DeleteAccount env c (ac_AccountSID a) (delete_clients_of env c (ac_AccountSID a) clients st)
        in sweep_accounts env c clients prefix minAge now as (if err = None then swept + 1 else swept) st1)"

definition Sweep ::
  "'sch rest_env \<Rightarrow> client \<Rightarrow> int \<Rightarrow> int \<Rightarrow> string \<Rightarrow> 'sch rest_state \<Rightarrow> (nat \<times> rest_error option) \<times> 'sch rest_state" where
  "Sweep env c minAge now protectRunID st =
     (case ListAccounts env c st of
        (Inl err, st1) \<Rightarrow> ((0, Some (RWrap ''list'' err)), st1)
      | (Inr accts, st1) \<Rightarrow>
          (let (res, st2) = ListSIPClients env c st1;
               allClients = (case res of Inl _ \<Rightarrow> [] | Inr cls \<Rightarrow> cls);
               (swept, st3) = sweep_accounts env c allClients (run_prefix protectRunID) minAge now accts 0 st2
           in ((swept, None), st3)))"

section \<open>The suite account\<close>

record suite_account =
  su_AccountSID :: string
  su_AccountName :: string
  su_APIKeySID :: string
  su_Token :: string
  su_SIPRealm :: string
  su_AccountClient :: client
  su_SPClient :: client

fun delete_each :: "'sch rest_env \<Rightarrow> client \<Rightarrow> sip_client list \<Rightarrow> 'sch rest_state \<Rightarrow> 'sch rest_state" where
  "delete_each env c [] st = st"
| "delete_each env c (cl # cls) st = delete_each env c cls (snd (DeleteSIPClient env c (sc_ClientSID cl) st))"

definition bestEffortDeleteAccount ::
  "'sch rest_env \<Rightarrow> client \<Rightarrow> string \<Rightarrow> 'sch rest_state \<Rightarrow> rest_error option \<times> 'sch rest_state" where
  "bestEffortDeleteAccount env sp sid st =
     (let (res, st1) = ListSIPClientsForAccount env sp sid st
      in DeleteAccount env sp sid (delete_each env sp (case res of Inl _ \<Rightarrow> [] | Inr cls \<Rightarrow> cls) st1))"

definition abandon where
  "abandon env sp sid err st = (Inl err, snd (bestEffortDeleteAccount env sp sid st))"

definition suite_account_create :: "string \<Rightarrow> string \<Rightarrow> account_create" where
  "suite_account_create name spSID =
     \<lparr>ac_Name = name, ac_ServiceProviderSID = spSID, ac_SIPRealm = [], ac_RegistrationHook = None, ac_QueueEventHook = None\<rparr>"

definition SetupSuiteAccount ::
  "'sch rest_env \<Rightarrow> client \<Rightarrow> string \<Rightarrow> string \<Rightarrow> string \<Rightarrow> string \<Rightarrow> string \<Rightarrow> 'sch rest_state
     \<Rightarrow> (rest_error + suite_account) \<times> 'sch rest_state" where
  "SetupSuiteAccount env sp spSID baseURL nameSuffix realmZone runID st =
     (let name = resource_name runID nameSuffix in
      case CreateAccount env sp (suite_account_create name spSID) st of
        (Inl err, st1) \<Rightarrow> (Inl (RWrap ''setup-suite: create account'' err), st1)
      | (Inr accountSID, st1) \<Rightarrow>
      case CreateApiKey env sp \<lparr>ak_AccountSID = accountSID, ak_ServiceProviderSID = [], ak_ExpirySecs = None\<rparr> st1 of
        (Inl err, st2) \<Rightarrow> abandon env sp accountSID (RWrap ''setup-suite: create api key'' err) st2
      | (Inr (keySID, token), st2) \<Rightarrow>
          let acct = client_New baseURL token accountSID (''acct-'' @ nameSuffix);
              realm = to_lower name @ ''.'' @ realmZone in
      case SetSipRealm env acct accountSID realm st2 of
        (Some err, st3) \<Rightarrow> abandon env sp accountSID (RWrap ''setup-suite: set sip_realm'' err) st3
      | (None, st3) \<Rightarrow>
      case GetAccount env sp accountSID st3 of
        (Inl err, st4) \<Rightarrow> abandon env sp accountSID (RWrap ''setup-suite: verify sip_realm'' err) st4
      | (Inr a, st4) \<Rightarrow>
          if \<not> equal_fold (ac_Realm a) realm then
            abandon env sp accountSID (RMsg (''setup-suite: sip_realm not persisted (got '' @ go_quote (ac_Realm a)
              @ '' want '' @ go_quote realm @ '')'')) st4
          else (Inr \<lparr>su_AccountSID = accountSID, su_AccountName = name, su_APIKeySID = keySID, su_Token = token,
                    su_SIPRealm = realm, su_AccountClient = acct, su_SPClient = sp\<rparr>, st4))"

definition note_error :: "string \<Rightarrow> rest_error option \<Rightarrow> rest_error list" where
  "note_error what err = (case err of None \<Rightarrow> [] | Some e \<Rightarrow> [RWrap what e])"

fun end_live_calls ::
  "'sch rest_env \<Rightarrow> client \<Rightarrow> call_summary list \<Rightarrow> rest_error list \<Rightarrow> 'sch rest_state
     \<Rightarrow> rest_error list \<times> 'sch rest_state" where
  "end_live_calls env c [] errs st = (errs, st)"
| "end_live_calls env c (lc # lcs) errs st =
     (if \<not> IsLive lc then end_live_calls env c lcs errs st
      else
        let (e1, st1) = HangupCall env c (ls_CallSID lc) st;
            (e2, st2) = DeleteCall env c (ls_CallSID lc) st1
        in end_live_calls env c lcs (errs @ note_error (''hangup live call '' @ ls_CallSID lc) e1
             @ note_error (''delete live call '' @ ls_CallSID lc) e2) st2)"

fun teardown_clients ::
  "'sch rest_env \<Rightarrow> suite_account \<Rightarrow> sip_client list \<Rightarrow> rest_error list \<Rightarrow> 'sch rest_state
     \<Rightarrow> rest_error list \<times> 'sch rest_state" where
  "teardown_clients env s [] errs st = (errs, st)"
| "teardown_clients env s (cl # cls) errs st =
     (if sc_AccountSID cl \<noteq> su_AccountSID s then teardown_clients env s cls errs st
      else let (e, st1) = DeleteSIPClient env (su_SPClient s) (sc_ClientSID cl) st
           in teardown_clients env s cls (errs @ note_error (''delete client '' @ sc_ClientSID cl) e) st1)"

definition teardown_calls ::
  "'sch rest_env \<Rightarrow> suite_account \<Rightarrow> 'sch rest_state \<Rightarrow> rest_error list \<times> 'sch rest_state" where
  "teardown_calls env s st =
     (case ListLiveCalls env (su_AccountClient s) st of
        (Inl err, st1) \<Rightarrow> ([RWrap ''list live calls'' err], st1)
      | (Inr live, st1) \<Rightarrow> end_live_calls env (su_AccountClient s) live [] st1)"

definition Teardown ::
  "'sch rest_env \<Rightarrow> suite_account \<Rightarrow> 'sch rest_state \<Rightarrow> rest_error list \<times> 'sch rest_state" where
  "Teardown env s st =
     (let (errs1, st1) = teardown_calls env s st;
          (res, st2) = ListSIPClientsForAccount env (su_SPClient s) (su_AccountSID s) st1;
          errs2 = errs1 @ (case res of Inl err \<Rightarrow> [RWrap ''list clients'' err] | Inr _ \<Rightarrow> []);
          (errs3, st3) = teardown_clients env s (case res of Inl _ \<Rightarrow> [] | Inr cls \<Rightarrow> cls) errs2 st2;
          st4 = (if su_APIKeySID s \<noteq> [] then snd (DeleteApiKey env (su_SPClient s) (su_APIKeySID s) st3) else st3);
          (e, st5) = DeleteAccount env (su_SPClient s) (su_AccountSID s) st4
      in (errs3 @ note_error ''delete account'' e, st5))"

definition SBCResolverHosts :: "suite_account \<Rightarrow> string \<Rightarrow> (string \<times> string) list" where
  "SBCResolverHosts s sbcIP = [(su_SIPRealm s, sbcIP)]"

section \<open>Deletions that are sent\<close>

text \<open>A call that is no deletion, or one of a resource in the set.\<close>

definition deletes_only :: "client \<Rightarrow> string set \<Rightarrow> rest_call \<Rightarrow> bool" where
  "deletes_only c paths call \<longleftrightarrow>
     rc_Method call = ''DELETE'' \<longrightarrow> (\<exists>p\<in>paths. call = the_call c ''DELETE'' p None)"

lemma deletes_only_get: "rc_Method call = ''GET'' \<Longrightarrow> deletes_only c paths call"
  by (simp add: deletes_only_def)

lemma deletes_only_mono: "deletes_only c A call \<Longrightarrow> A \<subseteq> B \<Longrightarrow> deletes_only c B call"
  by (auto simp: deletes_only_def)

lemma get_deletes_only: "sends is_get s t \<Longrightarrow> sends (deletes_only c A) s t"
  by (erule sends_mono) (rule deletes_only_get)

lemma DeleteSIPClient_deletes:
  "''/Clients/'' @ sid \<in> A \<Longrightarrow> sends (deletes_only c A) st (snd (DeleteSIPClient env c sid st))"
  unfolding DeleteSIPClient_def by (rule delete_op_sends) (auto simp: deletes_only_def)

lemma DeleteAccount_deletes:
  "''/Accounts/'' @ sid \<in> A \<Longrightarrow> sends (deletes_only c A) st (snd (DeleteAccount env c sid st))"
  by (rule sends_mono [OF DeleteAccount_sends]) (auto simp: deletes_only_def)

lemma delete_clients_of_deletes:
  "(\<And>cl. cl \<in> set cls \<Longrightarrow> sc_AccountSID cl = acct \<Longrightarrow> ''/Clients/'' @ sc_ClientSID cl \<in> A) \<Longrightarrow>
     sends (deletes_only c A) st (delete_clients_of env c acct cls st)"
proof (induction cls arbitrary: st)
  case (Cons cl cls)
  show ?case
  proof (cases "sc_AccountSID cl = acct")
    case True
    with Cons.prems have "''/Clients/'' @ sc_ClientSID cl \<in> A" by simp
    from DeleteSIPClient_deletes [OF this] have
      "sends (deletes_only c A) st (snd (DeleteSIPClient env c (sc_ClientSID cl) st))" .
    also have "sends (deletes_only c A) (snd (DeleteSIPClient env c (sc_ClientSID cl) st))
        (delete_clients_of env c acct cls (snd (DeleteSIPClient env c (sc_ClientSID cl) st)))"
      using Cons.prems by (intro Cons.IH) simp
    finally show ?thesis using True by simp
  next
    case False
    then show ?thesis using Cons by simp
  qed
qed simp

lemma delete_each_deletes:
  "(\<And>cl. cl \<in> set cls \<Longrightarrow> ''/Clients/'' @ sc_ClientSID cl \<in> A) \<Longrightarrow>
     sends (deletes_only c A) st (delete_each env c cls st)"
proof (induction cls arbitrary: st)
  case (Cons cl cls)
  have "sends (deletes_only c A) st (snd (DeleteSIPClient env c (sc_ClientSID cl) st))"
    using Cons.prems by (intro DeleteSIPClient_deletes) simp
  also have "sends (deletes_only c A) (snd (DeleteSIPClient env c (sc_ClientSID cl) st))
      (delete_each env c cls (snd (DeleteSIPClient env c (sc_ClientSID cl) st)))"
    using Cons.prems by (intro Cons.IH) simp
  finally show ?case by simp
qed simp

text \<open>The paths the sweep may delete, given what the two lists returned.\<close>

definition sweepable :: "account list \<Rightarrow> sip_client list \<Rightarrow> string \<Rightarrow> int \<Rightarrow> int \<Rightarrow> string set" where
  "sweepable accts clients prefix minAge now =
     {p. \<exists>a\<in>set accts. shouldSweep a prefix minAge now \<and>
        (p = ''/Accounts/'' @ ac_AccountSID a
         \<or> (\<exists>cl\<in>set clients. sc_AccountSID cl = ac_AccountSID a \<and> p = ''/Clients/'' @ sc_ClientSID cl))}"

lemma sweep_accounts_deletes:
  "set as \<subseteq> set accts \<Longrightarrow>
     sends (deletes_only c (sweepable accts cls prefix minAge now)) st
       (snd (sweep_accounts env c cls prefix minAge now as n st))"
proof (induction as arbitrary: n st)
  case (Cons a as)
  let ?S = "sends (deletes_only c (sweepable accts cls prefix minAge now))"
  show ?case
  proof (cases "shouldSweep a prefix minAge now")
    case True
    let ?st1 = "delete_clients_of env c (ac_AccountSID a) cls st"
    obtain err st2 where d: "DeleteAccount env c (ac_AccountSID a) ?st1 = (err, st2)" by fastforce
    have a: "a \<in> set accts" using Cons.prems by simp
    have "?S st ?st1" using a True by (intro delete_clients_of_deletes) (auto simp: sweepable_def)
    also have "?S ?st1 st2"
      using DeleteAccount_deletes [of "ac_AccountSID a" "sweepable accts cls prefix minAge now" c ?st1 env] a True d
      by (auto simp: sweepable_def)
    also have "?S st2 (snd (sweep_accounts env c cls prefix minAge now as (if err = None then n + 1 else n) st2))"
      using Cons.prems by (intro Cons.IH) simp
    finally show ?thesis using True d by simp
  next
    case False
    then show ?thesis using Cons by simp
  qed
qed simp

lemma sweep_accounts_count:
  "fst (sweep_accounts env c cls prefix minAge now as n st) \<le> n + length (filter (\<lambda>a. shouldSweep a prefix minAge now) as)"
proof (induction as arbitrary: n st)
  case (Cons a as)
  obtain err st2 where d: "DeleteAccount env c (ac_AccountSID a) (delete_clients_of env c (ac_AccountSID a) cls st) = (err, st2)"
    by fastforce
  from Cons [of "n + 1" st2] Cons [of n st2] Cons [of n st] show ?case by (auto simp: d)
qed simp

lemma shouldSweep_safe:
  "shouldSweep a (run_prefix r) minAge now \<Longrightarrow>
     IsHarnessResource (ac_Name' a) \<and> (\<forall>suffix. ac_Name' a \<noteq> resource_name r suffix)
     \<and> (0 < minAge \<longrightarrow> (\<exists>created. parseAPITime (ac_CreatedAt a) = Some created \<and> minAge \<le> now - created))"
  by (auto simp: shouldSweep_def IsHarnessResource_def split: if_splits option.splits)

section \<open>Setting up and tearing down\<close>

lemma bestEffort_sent:
  assumes "buildable env sp ''DELETE'' (''/Accounts/'' @ sid) None"
  shows "sent (the_call sp ''DELETE'' (''/Accounts/'' @ sid) None) st (snd (bestEffortDeleteAccount env sp sid st))"
proof -
  obtain res st1 where l: "ListSIPClientsForAccount env sp sid st = (res, st1)" by fastforce
  let ?cls = "case res of Inl _ \<Rightarrow> [] | Inr cls \<Rightarrow> cls"
  have "sends is_get st st1" using ListSIPClientsForAccount_sends [of st env sp sid] l by simp
  then have "sends (\<lambda>c. True) st st1" by (rule sends_mono) simp
  also have "sends (\<lambda>c. True) st1 (delete_each env sp ?cls st1)"
    by (rule sends_mono [OF delete_each_deletes [where A = UNIV]]) simp_all
  finally have "sends (\<lambda>c. True) st (delete_each env sp ?cls st1)" .
  from sent_right [OF this DeleteAccount_sent [OF assms]] l show ?thesis
    by (simp add: bestEffortDeleteAccount_def)
qed

text \<open>The part of the set-up after the account exists.\<close>

lemma post_sends: "m \<noteq> ''DELETE'' \<Longrightarrow> sends (\<lambda>call. rc_Method call \<noteq> ''DELETE'') st
    (snd (read_op env c m path body schema expect dec what st))"
  by (rule read_op_sends) simp

lemma write_sends: "m \<noteq> ''DELETE'' \<Longrightarrow> sends (\<lambda>call. rc_Method call \<noteq> ''DELETE'') st
    (snd (write_op env c m path body expect st))"
  by (rule write_op_sends) simp

lemma setup_steps_send:
  "sends (\<lambda>call. rc_Method call \<noteq> ''DELETE'') st (snd (CreateAccount env c a st))"
  "sends (\<lambda>call. rc_Method call \<noteq> ''DELETE'') st (snd (CreateApiKey env c k st))"
  "sends (\<lambda>call. rc_Method call \<noteq> ''DELETE'') st (snd (SetSipRealm env c sid realm st))"
  "sends (\<lambda>call. rc_Method call \<noteq> ''DELETE'') st (snd (GetAccount env c sid st))"
proof -
  let ?P = "\<lambda>call. rc_Method call \<noteq> ''DELETE''"
  show "sends ?P st (snd (CreateAccount env c a st))"
    unfolding CreateAccount_def create_op_def by (rule post_sends) simp
  show "sends ?P st (snd (CreateApiKey env c k st))" unfolding CreateApiKey_def by (rule post_sends) simp
  show "sends ?P st (snd (GetAccount env c sid st))" unfolding GetAccount_def by (rule post_sends) simp
  have "sends ?P st (snd (write_op env c ''POST'' (''/Accounts/'' @ sid @ ''/SipRealms/'' @ realm) None 204 st))"
    by (rule write_sends) simp
  then show "sends ?P st (snd (SetSipRealm env c sid realm st))" by (auto simp: SetSipRealm_def split: prod.splits)
qed

lemma abandon_sent:
  assumes "buildable env sp ''DELETE'' (''/Accounts/'' @ sid) None" and "sends P s st"
    and "abandon env sp sid err st = (r, t)"
  shows "r = Inl err \<and> sent (the_call sp ''DELETE'' (''/Accounts/'' @ sid) None) s t"
  using assms(3) sent_right [OF assms(2) bestEffort_sent [OF assms(1)]] by (auto simp: abandon_def)

lemma snd_HangupCall:
  "snd (HangupCall env c sid st) = snd (UpdateCall env c sid (JObj [(''call_status'', JStr ''completed'')]) st)"
  by (simp add: HangupCall_def split: prod.split)

text \<open>What a teardown sends for one live call: the command that hangs it up, then the deletion of its record.\<close>

definition hangup_call :: "client \<Rightarrow> string \<Rightarrow> rest_call" where
  "hangup_call c sid =
     the_call c ''POST'' (calls_path c @ ''/'' @ sid) (Some (JObj [(''call_status'', JStr ''completed'')]))"

definition delete_call :: "client \<Rightarrow> string \<Rightarrow> rest_call" where
  "delete_call c sid = the_call c ''DELETE'' (calls_path c @ ''/'' @ sid) None"

lemma HangupCall_sends: "P (hangup_call c sid) \<Longrightarrow> sends P st (snd (HangupCall env c sid st))"
  unfolding snd_HangupCall by (auto simp: UpdateCall_def hangup_call_def intro!: write_op_sends)

lemma DeleteCall_sends: "P (delete_call c sid) \<Longrightarrow> sends P st (snd (DeleteCall env c sid st))"
  by (auto simp: DeleteCall_def delete_call_def intro!: delete_op_sends)

lemma end_live_calls_sends:
  "(\<And>lc. lc \<in> set lcs \<Longrightarrow> IsLive lc \<Longrightarrow> P (hangup_call c (ls_CallSID lc)) \<and> P (delete_call c (ls_CallSID lc))) \<Longrightarrow>
     sends P st (snd (end_live_calls env c lcs errs st))"
proof (induction lcs arbitrary: errs st)
  case (Cons lc lcs)
  have IH: "sends P u (snd (end_live_calls env c lcs errs2 u))" for errs2 u
    using Cons.prems by (intro Cons.IH) simp
  show ?case
  proof (cases "IsLive lc")
    case True
    obtain e1 st1 where h: "HangupCall env c (ls_CallSID lc) st = (e1, st1)" by fastforce
    obtain e2 st2 where d: "DeleteCall env c (ls_CallSID lc) st1 = (e2, st2)" by fastforce
    have "sends P st st1" using HangupCall_sends [of P c "ls_CallSID lc" st env] Cons.prems True by (simp add: h)
    also have "sends P st1 st2" using DeleteCall_sends [of P c "ls_CallSID lc" st1 env] Cons.prems True by (simp add: d)
    finally have "sends P st st2" .
    from sends_trans [OF this IH] True show ?thesis by (simp add: h d)
  qed (use IH in simp)
qed simp

lemma teardown_clients_sends:
  "(\<And>cl. cl \<in> set cls \<Longrightarrow> sc_AccountSID cl = su_AccountSID s \<Longrightarrow>
        P (the_call (su_SPClient s) ''DELETE'' (''/Clients/'' @ sc_ClientSID cl) None)) \<Longrightarrow>
     sends P st (snd (teardown_clients env s cls errs st))"
proof (induction cls arbitrary: errs st)
  case (Cons cl cls)
  show ?case
  proof (cases "sc_AccountSID cl = su_AccountSID s")
    case True
    obtain e st1 where d: "DeleteSIPClient env (su_SPClient s) (sc_ClientSID cl) st = (e, st1)" by fastforce
    have "sends P st (snd (DeleteSIPClient env (su_SPClient s) (sc_ClientSID cl) st))"
      unfolding DeleteSIPClient_def using Cons.prems True by (intro delete_op_sends) simp
    then have "sends P st st1" by (simp add: d)
    also have "sends P st1 (snd (teardown_clients env s cls (errs @ note_error (''delete client '' @ sc_ClientSID cl) e) st1))"
      using Cons.prems by (intro Cons.IH) simp
    finally show ?thesis using True d by simp
  qed (use Cons in simp)
qed simp

text \<open>
  The calls a teardown may delete with: those of its own live calls, of the clients and the key of
  its account, and of the account.
\<close>

definition own_deletion :: "suite_account \<Rightarrow> call_summary list \<Rightarrow> sip_client list \<Rightarrow> rest_call \<Rightarrow> bool" where
  "own_deletion s live cls call \<longleftrightarrow>
     (\<exists>lc\<in>set live. IsLive lc \<and> call = delete_call (su_AccountClient s) (ls_CallSID lc))
     \<or> (\<exists>cl\<in>set cls. sc_AccountSID cl = su_AccountSID s
          \<and> call = the_call (su_SPClient s) ''DELETE'' (''/Clients/'' @ sc_ClientSID cl) None)
     \<or> (su_APIKeySID s \<noteq> [] \<and> call = the_call (su_SPClient s) ''DELETE'' (''/ApiKeys/'' @ su_APIKeySID s) None)
     \<or> call = the_call (su_SPClient s) ''DELETE'' (''/Accounts/'' @ su_AccountSID s) None"

text \<open>
  Everything a teardown may send: it reads, it hangs up a live call of its own account, or it
  deletes what is its own. Any other request, whatever its method, is excluded.
\<close>

definition own_only :: "suite_account \<Rightarrow> call_summary list \<Rightarrow> sip_client list \<Rightarrow> rest_call \<Rightarrow> bool" where
  "own_only s live cls call \<longleftrightarrow>
     is_get call
     \<or> (\<exists>lc\<in>set live. IsLive lc \<and> call = hangup_call (su_AccountClient s) (ls_CallSID lc))
     \<or> own_deletion s live cls call"

lemma teardown_calls_own:
  assumes "ListLiveCalls env (su_AccountClient s) st = (res, st1)"
  shows "sends (own_only s (case res of Inl _ \<Rightarrow> [] | Inr live \<Rightarrow> live) cls) st (snd (teardown_calls env s st))"
proof -
  let ?c = "su_AccountClient s" and ?live = "case res of Inl _ \<Rightarrow> [] | Inr live \<Rightarrow> live"
  let ?P = "own_only s ?live cls"
  have "sends is_get st st1" using reads_send_get(4) [of st env ?c] by (simp only: assms snd_conv)
  then have g: "sends ?P st st1" by (rule sends_mono) (simp add: own_only_def)
  show ?thesis
  proof (cases res)
    case (Inl e)
    with g assms show ?thesis by (simp add: teardown_calls_def)
  next
    case (Inr live)
    have "sends ?P st1 (snd (end_live_calls env ?c live [] st1))"
      using Inr by (intro end_live_calls_sends) (auto simp: own_only_def own_deletion_def)
    with sends_trans [OF g] have "sends ?P st (snd (end_live_calls env ?c live [] st1))" .
    then show ?thesis using Inr by (simp only: teardown_calls_def assms prod.case sum.case)
  qed
qed

lemma DeleteAccount_log:
  assumes "buildable env c ''DELETE'' (''/Accounts/'' @ sid) None"
  shows "\<exists>gets. rs_log (snd (DeleteAccount env c sid st)) = rs_log st @ the_call c ''DELETE'' (''/Accounts/'' @ sid) None # gets
     \<and> (\<forall>call\<in>set gets. is_get call)"
proof -
  obtain err st1 where w: "write_op env c ''DELETE'' (''/Accounts/'' @ sid) None 204 st = (err, st1)" by fastforce
  have l: "rs_log st1 = rs_log st @ [the_call c ''DELETE'' (''/Accounts/'' @ sid) None]"
    using snd_write_op [of env c "''DELETE''" "''/Accounts/'' @ sid" None 204 st] Request_buildable [OF assms] w by simp
  obtain v st2 where v: "accountVisible env c sid st1 = (v, st2)" by fastforce
  have "sends is_get st1 st2" using reads_send_get(5) [of st1 env c sid] by (simp only: v snd_conv)
  then show ?thesis using w v l by (auto simp: DeleteAccount_def sends_def split: option.split)
qed

section \<open>A sample platform\<close>

text \<open>
  For the instances below: two accounts, one of them a leftover, one client and one live call; it
  creates accounts but refuses API keys.
\<close>

definition sample_server :: "rest_call list \<Rightarrow> rest_call \<Rightarrow> rest_answer" where
  "sample_server log call =
     (let m = rc_Method call; u = rc_URL call in
      if m = ''POST'' then
        (if u = ''u/Accounts'' then Response 201 ''{\"sid\":\"A\"}'' else Response 500 [])
      else if m = ''GET'' then
        (if u = ''u/Accounts'' then
           Response 200 ''[{\"account_sid\":\"A\",\"name\":\"it-old-verbs\"},{\"account_sid\":\"B\",\"name\":\"prod\"}]''
         else if u = ''u/Clients'' then Response 200 ''[{\"client_sid\":\"C\",\"account_sid\":\"A\"}]''
         else if u = ''u/Accounts/A/Calls'' then Response 200 ''[{\"call_sid\":\"L\",\"call_status\":\"ringing\"}]''
         else Response 404 [])
      else Response 204 [])"

definition sample_env :: "unit rest_env" where
  "sample_env = \<lparr>re_server = sample_server, re_marshal = (\<lambda>b. None), re_build = (\<lambda>m u. None),
     re_schema = \<lparr>se_abs = Inr, se_stat = (\<lambda>p. StatOk False), se_compile = (\<lambda>p. Inr ()), se_validate = (\<lambda>s j. None)\<rparr>\<rparr>"

definition sample_state :: "unit rest_state" where
  "sample_state = \<lparr>rs_log = [], rs_val = \<lparr>v_root = ''r'', v_cache = Map.empty\<rparr>\<rparr>"

definition sample_sp :: client where
  "sample_sp = client_New ''u'' ''k'' [] ''sp''"

definition sample_accounts :: "account list" where
  "sample_accounts = [no_account\<lparr>ac_AccountSID := ''A'', ac_Name' := ''it-old-verbs''\<rparr>,
     no_account\<lparr>ac_AccountSID := ''B'', ac_Name' := ''prod''\<rparr>]"

definition sample_clients :: "sip_client list" where
  "sample_clients = [no_sip_client\<lparr>sc_ClientSID := ''C'', sc_AccountSID := ''A''\<rparr>]"

definition sample_suite :: suite_account where
  "sample_suite = \<lparr>su_AccountSID = ''A'', su_AccountName = ''it-me-x'', su_APIKeySID = ''K'', su_Token = ''t'',
     su_SIPRealm = ''it-me-x.smoke.test'', su_AccountClient = client_New ''u'' ''t'' ''A'' [], su_SPClient = sample_sp\<rparr>"

lemma sample_buildable: "buildable sample_env c m p b"
  by (simp add: buildable_def sample_env_def)

lemma sample_ListAccounts: "fst (ListAccounts sample_env sample_sp sample_state) = Inr sample_accounts"
  by code_simp

lemma sample_ListSIPClients:
  "fst (ListSIPClients sample_env sample_sp (snd (ListAccounts sample_env sample_sp sample_state))) = Inr sample_clients"
  by code_simp

lemma sample_CreateAccount:
  "fst (CreateAccount sample_env sample_sp (suite_account_create (resource_name ''me'' ''x'') ''S'') sample_state) = Inr ''A''"
  by code_simp

section \<open>Properties\<close>

text \<open>
  C1 (safety): whatever the platform lists, the sweep deletes only accounts that carry the
  harness prefix, belong to another run, and are old enough by a creation time that parses;
  and clients only of such accounts. It never counts more than there are of these.
\<close>

theorem Sweep_deletes_only_orphans:
  assumes "ListAccounts env c st = (Inr accts, st1)" and "ListSIPClients env c st1 = (res, st2)"
    and "Sweep env c minAge now runID st = ((swept, err), st')"
  shows "sends (deletes_only c (sweepable accts (case res of Inl _ \<Rightarrow> [] | Inr cls \<Rightarrow> cls) (run_prefix runID) minAge now)) st st'
     \<and> (\<forall>a\<in>set accts. shouldSweep a (run_prefix runID) minAge now \<longrightarrow>
          IsHarnessResource (ac_Name' a) \<and> (\<forall>suffix. ac_Name' a \<noteq> resource_name runID suffix)
          \<and> (0 < minAge \<longrightarrow> (\<exists>created. parseAPITime (ac_CreatedAt a) = Some created \<and> minAge \<le> now - created)))
     \<and> swept \<le> length (filter (\<lambda>a. shouldSweep a (run_prefix runID) minAge now) accts)"
proof (intro conjI)
  let ?cls = "case res of Inl _ \<Rightarrow> [] | Inr cls \<Rightarrow> cls"
  let ?S = "sends (deletes_only c (sweepable accts ?cls (run_prefix runID) minAge now))"
  have sw: "sweep_accounts env c ?cls (run_prefix runID) minAge now accts 0 st2 = (swept, st')"
    using assms by (auto simp: Sweep_def split: prod.splits)
  have "?S st st1" using reads_send_get(1) [of st env c] assms(1) get_deletes_only by fastforce
  also have "?S st1 st2" using reads_send_get(3) [of st1 env c] assms(2) get_deletes_only by fastforce
  also have "?S st2 st'" using sweep_accounts_deletes [of accts accts c ?cls "run_prefix runID" minAge now st2 env 0] sw by simp
  finally show "?S st st'" .
  show "swept \<le> length (filter (\<lambda>a. shouldSweep a (run_prefix runID) minAge now) accts)"
    using sweep_accounts_count [of env c ?cls "run_prefix runID" minAge now accts 0 st2] sw by simp
qed (use shouldSweep_safe in blast)

theorem Sweep_deletes_only_orphans_witness:
  "sends (deletes_only sample_sp (sweepable sample_accounts sample_clients (run_prefix ''me'') 0 0)) sample_state
      (snd (Sweep sample_env sample_sp 0 0 ''me'' sample_state))
   \<and> fst (fst (Sweep sample_env sample_sp 0 0 ''me'' sample_state)) \<le> 1"
proof -
  let ?st1 = "snd (ListAccounts sample_env sample_sp sample_state)"
  obtain swept err st' where s: "Sweep sample_env sample_sp 0 0 ''me'' sample_state = ((swept, err), st')"
    by (metis prod.exhaust)
  have "length (filter (\<lambda>a. shouldSweep a (run_prefix ''me'') 0 0) sample_accounts) = 1" by code_simp
  with Sweep_deletes_only_orphans [of sample_env sample_sp sample_state sample_accounts ?st1 "Inr sample_clients"
      "snd (ListSIPClients sample_env sample_sp ?st1)" 0 0 "''me''" swept err st']
    sample_ListAccounts sample_ListSIPClients s
  show ?thesis by (simp add: prod_eq_iff)
qed

text \<open>
  C5 (safety): once the account exists, a set-up that fails has asked for its deletion, and one
  that succeeds has deleted nothing and returns that account under this run's name, with a
  client scoped to it and the realm the platform has stored.
\<close>

theorem SetupSuiteAccount_no_leak:
  assumes "CreateAccount env sp (suite_account_create (resource_name runID suf) spSID) st = (Inr sid, st1)"
    and "buildable env sp ''DELETE'' (''/Accounts/'' @ sid) None"
    and "SetupSuiteAccount env sp spSID baseURL suf zone runID st = (r, st')"
  shows "case r of
      Inl err \<Rightarrow> sent (the_call sp ''DELETE'' (''/Accounts/'' @ sid) None) st st'
    | Inr s \<Rightarrow> sends (\<lambda>call. rc_Method call \<noteq> ''DELETE'') st st' \<and> su_AccountSID s = sid
        \<and> su_AccountName s = resource_name runID suf \<and> cl_accountSID (su_AccountClient s) = sid \<and> su_SPClient s = sp
        \<and> su_SIPRealm s = to_lower (resource_name runID suf) @ ''.'' @ zone"
proof -
  let ?P = "\<lambda>call. rc_Method call \<noteq> ''DELETE''" and ?realm = "to_lower (resource_name runID suf) @ ''.'' @ zone"
  have s1: "sends ?P st st1"
    using setup_steps_send(1) [of st env sp "suite_account_create (resource_name runID suf) spSID"] assms(1) by simp
  have ab: ?thesis if "abandon env sp sid err u = (r, st')" and "sends ?P st u" for err u
    using abandon_sent [OF assms(2) that(2,1)] by auto
  obtain k st2 where k: "CreateApiKey env sp \<lparr>ak_AccountSID = sid, ak_ServiceProviderSID = [], ak_ExpirySecs = None\<rparr> st1 = (k, st2)"
    by fastforce
  have "sends ?P st1 st2"
    using setup_steps_send(2) [of st1 env sp "\<lparr>ak_AccountSID = sid, ak_ServiceProviderSID = [], ak_ExpirySecs = None\<rparr>"]
    by (simp add: k)
  with s1 have s2: "sends ?P st st2" by (rule sends_trans)
  show ?thesis
  proof (cases k)
    case (Inl e)
    with assms(1,3) k have "abandon env sp sid (RWrap ''setup-suite: create api key'' e) st2 = (r, st')"
      by (simp add: SetupSuiteAccount_def Let_def)
    then show ?thesis using s2 by (rule ab)
  next
    case (Inr p)
    obtain key token where p: "p = (key, token)" by (cases p)
    let ?acct = "client_New baseURL token sid (''acct-'' @ suf)"
    obtain e st3 where r3: "SetSipRealm env ?acct sid ?realm st2 = (e, st3)" by fastforce
    have "sends ?P st2 st3" using setup_steps_send(3) [of st2 env ?acct sid ?realm] by (simp only: r3 snd_conv)
    with s2 have s3: "sends ?P st st3" by (rule sends_trans)
    obtain g st4 where r4: "GetAccount env sp sid st3 = (g, st4)" by fastforce
    have "sends ?P st3 st4" using setup_steps_send(4) [of st3 env sp sid] by (simp only: r4 snd_conv)
    with s3 have s4: "sends ?P st st4" by (rule sends_trans)
    show ?thesis
    proof (cases e)
      case (Some x)
      with assms(1,3) k Inr p r3 have "abandon env sp sid (RWrap ''setup-suite: set sip_realm'' x) st3 = (r, st')"
        by (simp add: SetupSuiteAccount_def Let_def)
      then show ?thesis using s3 by (rule ab)
    next
      case None
      note step = assms(1,3) k Inr p r3 r4 None
      consider (err) x where "g = Inl x"
        | (drift) a where "g = Inr a" "\<not> equal_fold (ac_Realm a) ?realm"
        | (fine) a where "g = Inr a" "equal_fold (ac_Realm a) ?realm" by (cases g) auto
      then show ?thesis
      proof cases
        case err
        with step have "abandon env sp sid (RWrap ''setup-suite: verify sip_realm'' x) st4 = (r, st')"
          by (simp add: SetupSuiteAccount_def Let_def)
        then show ?thesis using s4 by (rule ab)
      next
        case drift
        with step have "\<exists>e. abandon env sp sid e st4 = (r, st')"
          by (auto simp: SetupSuiteAccount_def Let_def)
        then show ?thesis using ab s4 by blast
      next
        case fine
        with step s4 show ?thesis by (auto simp: SetupSuiteAccount_def client_New_def Let_def)
      qed
    qed
  qed
qed

theorem SetupSuiteAccount_no_leak_witness:
  "sent (the_call sample_sp ''DELETE'' (''/Accounts/'' @ ''A'') None) sample_state
     (snd (SetupSuiteAccount sample_env sample_sp ''S'' ''u'' ''x'' ''smoke.test'' ''me'' sample_state))"
proof -
  let ?a = "suite_account_create (resource_name ''me'' ''x'') ''S''"
  have c: "CreateAccount sample_env sample_sp ?a sample_state = (Inr ''A'', snd (CreateAccount sample_env sample_sp ?a sample_state))"
    using sample_CreateAccount by (simp add: prod_eq_iff)
  obtain r st' where s: "SetupSuiteAccount sample_env sample_sp ''S'' ''u'' ''x'' ''smoke.test'' ''me'' sample_state = (r, st')"
    by fastforce
  have "\<not> isl (fst (SetupSuiteAccount sample_env sample_sp ''S'' ''u'' ''x'' ''smoke.test'' ''me'' sample_state)) \<longleftrightarrow> False"
    by code_simp
  then obtain e where "r = Inl e" using s by (cases r) simp_all
  with SetupSuiteAccount_no_leak [OF c sample_buildable s] s show ?thesis by simp
qed

text \<open>
  C28 (safety): everything a teardown sends is a read, the command that hangs up a call its own
  account client listed as live, or the deletion of such a call, of a client of its account, of
  its key or of the account: no request of any method touches anything else. And it always asks
  for the account, after everything else, whatever failed before.
\<close>

theorem Teardown_deletes_own:
  assumes "ListLiveCalls env (su_AccountClient s) st = (live, st1)"
    and "ListSIPClientsForAccount env (su_SPClient s) (su_AccountSID s) (snd (teardown_calls env s st)) = (cls, st2)"
    and "buildable env (su_SPClient s) ''DELETE'' (''/Accounts/'' @ su_AccountSID s) None"
    and "Teardown env s st = (errs, st')"
  shows "\<exists>calls gets. rs_log st' = rs_log st @ calls
             @ the_call (su_SPClient s) ''DELETE'' (''/Accounts/'' @ su_AccountSID s) None # gets
     \<and> (\<forall>call\<in>set calls. own_only s (case live of Inl _ \<Rightarrow> [] | Inr l \<Rightarrow> l) (case cls of Inl _ \<Rightarrow> [] | Inr l \<Rightarrow> l) call)
     \<and> (\<forall>call\<in>set gets. is_get call)"
proof -
  let ?live = "case live of Inl _ \<Rightarrow> [] | Inr l \<Rightarrow> l" and ?cls = "case cls of Inl _ \<Rightarrow> [] | Inr l \<Rightarrow> l"
  let ?O = "own_only s ?live ?cls" and ?sp = "su_SPClient s"
  obtain errs1 u1 where t1: "teardown_calls env s st = (errs1, u1)" by fastforce
  define errs2 where "errs2 = errs1 @ (case cls of Inl err \<Rightarrow> [RWrap ''list clients'' err] | Inr _ \<Rightarrow> [])"
  obtain errs3 u3 where t3: "teardown_clients env s ?cls errs2 st2 = (errs3, u3)" by fastforce
  define u4 where "u4 = (if su_APIKeySID s \<noteq> [] then snd (DeleteApiKey env ?sp (su_APIKeySID s) u3) else u3)"
  have "sends ?O st u1" using teardown_calls_own [OF assms(1), of ?cls] by (simp only: t1 snd_conv)
  also have "sends is_get u1 st2"
    using ListSIPClientsForAccount_sends [of u1 env ?sp "su_AccountSID s"] assms(2) t1 by simp
  then have "sends ?O u1 st2" by (rule sends_mono) (simp add: own_only_def)
  also have "sends ?O st2 (snd (teardown_clients env s ?cls errs2 st2))"
    by (rule teardown_clients_sends) (auto simp: own_only_def own_deletion_def)
  then have "sends ?O st2 u3" by (simp only: t3 snd_conv)
  also have "sends ?O u3 u4"
    unfolding u4_def DeleteApiKey_def by (auto simp: own_only_def own_deletion_def intro!: delete_op_sends)
  finally obtain calls where c: "rs_log u4 = rs_log st @ calls" "\<forall>call\<in>set calls. ?O call" by (auto simp: sends_def)
  have "st' = snd (DeleteAccount env ?sp (su_AccountSID s) u4)"
    using assms(2,4) t1 t3 by (auto simp: Teardown_def errs2_def u4_def split: prod.splits)
  with DeleteAccount_log [OF assms(3), of u4] obtain gets where
    "rs_log st' = rs_log u4 @ the_call ?sp ''DELETE'' (''/Accounts/'' @ su_AccountSID s) None # gets"
    "\<forall>call\<in>set gets. is_get call" by blast
  with c show ?thesis by auto
qed

theorem Teardown_deletes_own_witness:
  "\<exists>calls gets.
     rs_log (snd (Teardown sample_env sample_suite sample_state))
       = calls @ the_call sample_sp ''DELETE'' (''/Accounts/'' @ ''A'') None # gets
     \<and> (\<forall>call\<in>set calls. own_only sample_suite
          [\<lparr>ls_CallSID = ''L'', ls_CallStatus = ''ringing'', ls_Direction = [], ls_From = [], ls_To = []\<rparr>] sample_clients call)"
proof -
  let ?lives = "[\<lparr>ls_CallSID = ''L'', ls_CallStatus = ''ringing'', ls_Direction = [], ls_From = [], ls_To = []\<rparr>]"
  have "fst (ListLiveCalls sample_env (su_AccountClient sample_suite) sample_state) = Inr ?lives" by code_simp
  then obtain st1 where l: "ListLiveCalls sample_env (su_AccountClient sample_suite) sample_state = (Inr ?lives, st1)"
    by (metis prod.collapse)
  have "fst (ListSIPClientsForAccount sample_env (su_SPClient sample_suite) (su_AccountSID sample_suite)
      (snd (teardown_calls sample_env sample_suite sample_state))) = Inr sample_clients" by code_simp
  then obtain st2 where c: "ListSIPClientsForAccount sample_env (su_SPClient sample_suite) (su_AccountSID sample_suite)
      (snd (teardown_calls sample_env sample_suite sample_state)) = (Inr sample_clients, st2)" by (metis prod.collapse)
  obtain errs st' where t: "Teardown sample_env sample_suite sample_state = (errs, st')" by fastforce
  have "rs_log sample_state = []" "su_SPClient sample_suite = sample_sp" "su_AccountSID sample_suite = ''A''"
    by (simp_all add: sample_state_def sample_suite_def)
  with Teardown_deletes_own [OF l c sample_buildable t] t show ?thesis by auto
qed

end
