(* ===== verification/Sip_Realm.thy ===== *)
theory Sip_Realm
  imports Sip_Resolver_Serve Provision_Suite
begin

text \<open>
  From the suite account to the wire: the table that \<open>SuiteAccount.SBCResolverHosts\<close> makes of a
  realm and the SBC's address, put into a running \<open>StaticResolver\<close>, makes every query for the realm
  be answered with that address. The table holds the address as text, which \<open>NewStaticResolver\<close>
  parses again.
\<close>

section \<open>Names\<close>

lemma dotted_split_on: "dotted (split_on (CHR ''.'') s) = s @ ''.''"
proof (induction s)
  case (Cons c s)
  then show ?case by (auto split: list.splits)
qed simp

lemma lower_char_dot [simp]: "lower_char c = CHR ''.'' \<longleftrightarrow> c = CHR ''.''"
proof -
  have d: "lower_char (CHR ''.'') = CHR ''.''" by code_simp
  have "is_lower (lower_char c) \<or> lower_char c = c"
    using is_lower_lower_char by (auto simp: lower_char_def)
  moreover have "\<not> is_lower (CHR ''.'')" by code_simp
  ultimately show ?thesis using d by metis
qed

lemma trim_suffix_dot [simp]: "trim_suffix (s @ ''.'') ''.'' = s"
  by (simp add: trim_suffix_def)

lemma trim_suffix_no_dot: "s = [] \<or> last s \<noteq> CHR ''.'' \<Longrightarrow> trim_suffix s ''.'' = s"
  by (cases s rule: rev_cases) (auto simp: trim_suffix_def)

lemma split_on_last_dot: "last (s @ [CHR ''.'']) = CHR ''.''" "split_on (CHR ''.'') (s @ ''.'') = split_on (CHR ''.'') s @ [[]]"
  by simp (induction s, auto split: list.splits)

lemma last_equal_fold: "equal_fold a b \<Longrightarrow> a \<noteq> [] \<Longrightarrow> b \<noteq> [] \<and> (last a = CHR ''.'' \<longleftrightarrow> last b = CHR ''.'')"
proof -
  assume e: "equal_fold a b" and a: "a \<noteq> []"
  from e have m: "map lower_char a = map lower_char b" by (simp add: equal_fold_def to_lower_def)
  with a have b: "b \<noteq> []" by auto
  from m a b have "lower_char (last a) = lower_char (last b)" by (metis last_map)
  then show ?thesis using b by (metis lower_char_dot)
qed

text \<open>A name without an empty label is looked up in the table under its realm, in any letter case.\<close>

lemma host_key_realm:
  assumes "equal_fold q realm" "[] \<notin> set (split_on (CHR ''.'') q)"
  shows "host_key (dotted (split_on (CHR ''.'') q)) = host_key realm"
proof -
  have q: "q \<noteq> []" using assms(2) by auto
  have "last q \<noteq> CHR ''.''"
  proof
    assume "last q = CHR ''.''"
    with q obtain s where "q = s @ ''.''" by (metis append_butlast_last_id)
    with assms(2) show False by (simp add: split_on_last_dot)
  qed
  then have "trim_suffix realm ''.'' = realm" using last_equal_fold [OF assms(1) q] by (intro trim_suffix_no_dot) simp
  then show ?thesis using assms(1) by (simp add: host_key_def dotted_split_on equal_fold_def)
qed

section \<open>The answer\<close>

text \<open>A query as a resolver library writes it, and the one answer.\<close>

definition a_query :: "string \<Rightarrow> string \<Rightarrow> string \<Rightarrow> string \<Rightarrow> string \<Rightarrow> string" where
  "a_query i flags counts q rest =
     i @ flags @ be_bytes 2 1 @ counts @ encode_labels (split_on (CHR ''.'') q) @ be_bytes 2 1 @ be_bytes 2 1 @ rest"

definition a_answer :: "string \<Rightarrow> string \<Rightarrow> string \<Rightarrow> string" where
  "a_answer i q ip4 =
     i @ [byte_of 0x81, byte_of 0x80] @ be_bytes 2 1 @ be_bytes 2 1 @ be_bytes 2 0 @ be_bytes 2 0
       @ encode_labels (split_on (CHR ''.'') q) @ be_bytes 2 1 @ be_bytes 2 1 @ rr_head 1 4 @ ip4"

definition dns_name :: "string \<Rightarrow> bool" where
  "dns_name q \<longleftrightarrow> list_all (\<lambda>l. l \<noteq> [] \<and> length l < 64) (split_on (CHR ''.'') q)"

lemma realm_handle:
  assumes "length i = 2" "length flags = 2" "length counts = 6" "dns_name q" "equal_fold q realm"
    and "hosts (host_key realm) = Some (Some ip4)"
  shows "resolver_handle hosts lk (a_query i flags counts q rest) = Ret (Some (a_answer i q ip4))"
proof -
  let ?ls = "split_on (CHR ''.'') q"
  have "\<forall>l \<in> set ?ls. l \<noteq> [] \<and> length l < 256" using assms(4) by (auto simp: dns_name_def list_all_iff)
  moreover from this have "host_key (dotted ?ls) = host_key realm" using host_key_realm [OF assms(5)] by blast
  ultimately show ?thesis using assms answers_configured [of i flags counts "be_bytes 2 1" ?ls hosts ip4 lk rest]
    by (simp add: a_query_def a_answer_def)
qed

lemma realm_server:
  assumes "length b = 4"
  shows "\<exists>r. NewStaticResolver_started ParseIP (SBCResolverHosts s (show_ipv4 b)) (Inr addr) = Inr r
     \<and> resolver_start [host_key (su_SIPRealm s) \<mapsto> Some b] (Inr addr) = Inr r \<and> idle r"
  by (simp add: NewStaticResolver_started_def SBCResolverHosts_def ParseIP_show_ipv4 [OF assms] resolver_start_def idle_def)

text \<open>
  C19 (functional): The resolver built from a suite account and the SBC's IPv4 address starts, and
  whatever it goes through afterwards, a type A query for the account's realm (any letter case,
  any flags, any additional records) gets no reply but that address, back to its sender; the first
  query, if it fits the buffer, does get it.
\<close>

theorem suite_realm_resolves:
  assumes "length b = 4" "length i = 2" "length flags = 2" "length counts = 6"
    and "dns_name q" "equal_fold q (su_SIPRealm s)"
  shows "\<exists>r. NewStaticResolver_started ParseIP (SBCResolverHosts s (show_ipv4 b)) (Inr addr) = Inr r
     \<and> (\<forall>es t dst resp. go_fold resolver_step es r = Ret t
          \<and> ((a_query i flags counts q rest, src), Some (resp, dst)) \<in> set (rv_done t)
          \<longrightarrow> resp = a_answer i q b \<and> dst = src)
     \<and> (length (a_query i flags counts q rest) \<le> resolver_buf_size \<longrightarrow>
          (\<exists>t. go_fold resolver_step (one_query now lk (a_query i flags counts q rest) src) r = Ret t
             \<and> rv_done t = [((a_query i flags counts q rest, src), Some (a_answer i q b, src))]))"
proof -
  let ?hosts = "[host_key (su_SIPRealm s) \<mapsto> Some b]" and ?q = "a_query i flags counts q rest"
  from realm_server [OF assms(1)] obtain r where
    r: "NewStaticResolver_started ParseIP (SBCResolverHosts s (show_ipv4 b)) (Inr addr) = Inr r"
      "resolver_start ?hosts (Inr addr) = Inr r" "idle r" by blast
  have h: "resolver_handle ?hosts lk ?q = Ret (Some (a_answer i q b))" for lk
    by (rule realm_handle [OF assms(2-6)]) simp
  have "rv_Hosts r = ?hosts" "rv_done r = []" using r(2) by (auto simp: resolver_start_def)
  with one_query_answered [OF r(3) _ , of ?q lk "Some (a_answer i q b)" now src] h
  have once: "length ?q \<le> resolver_buf_size \<longrightarrow> (\<exists>t. go_fold resolver_step (one_query now lk ?q src) r = Ret t
      \<and> rv_done t = [((?q, src), Some (a_answer i q b, src))])" by auto
  have "resp = a_answer i q b \<and> dst = src"
    if t: "go_fold resolver_step es r = Ret t" "((?q, src), Some (resp, dst)) \<in> set (rv_done t)" for es t dst resp
  proof -
    have "list_all (reply_ok ?hosts) (rv_done t)" using run_replies [OF r(2) t(1)] by (simp add: replies_ok_def)
    then have "reply_ok ?hosts ((?q, src), Some (resp, dst))" using t(2) by (simp only: list_all_iff)
    then show ?thesis using h by auto
  qed
  then show ?thesis using r(1) once by blast
qed

definition sample_suite :: suite_account where
  "sample_suite = \<lparr>su_AccountSID = ''A'', su_AccountName = ''it-me-x'', su_APIKeySID = ''K'', su_Token = ''T'',
     su_SIPRealm = ''it-me-x.smoke.test'', su_AccountClient = sample_sp, su_SPClient = sample_sp\<rparr>"

definition sample_sbc :: string where
  "sample_sbc = map byte_of [10, 0, 0, 1]"

definition sample_realm_query :: string where
  "sample_realm_query = a_query ''xy'' ''ff'' ''cccccc'' ''IT-me-X.smoke.test'' []"

lemma sample_realm_query_length: "length sample_realm_query \<le> resolver_buf_size"
proof -
  have "split_on (CHR ''.'') ''IT-me-X.smoke.test'' = [''IT-me-X'', ''smoke'', ''test'']" by code_simp
  then show ?thesis by (simp add: sample_realm_query_def a_query_def resolver_buf_size_def)
qed

theorem suite_realm_resolves_witness:
  "\<exists>r t. NewStaticResolver_started ParseIP (SBCResolverHosts sample_suite (show_ipv4 sample_sbc)) (Inr ''127.0.0.1:53'') = Inr r
     \<and> go_fold resolver_step (one_query 0 (\<lambda>_. None) sample_realm_query ''C'') r = Ret t
     \<and> rv_done t = [((sample_realm_query, ''C''), Some (a_answer ''xy'' ''IT-me-X.smoke.test'' sample_sbc, ''C''))]"
proof -
  have l: "length sample_sbc = 4" "length ''xy'' = 2" "length ''ff'' = 2" "length ''cccccc'' = 6"
    by (simp_all add: sample_sbc_def)
  have n: "dns_name ''IT-me-X.smoke.test''" "equal_fold ''IT-me-X.smoke.test'' (su_SIPRealm sample_suite)" by code_simp+
  from suite_realm_resolves [OF l n, of "''127.0.0.1:53''" "[]" "''C''" 0 "\<lambda>_. None", folded sample_realm_query_def]
    sample_realm_query_length show ?thesis by blast
qed

text \<open>
  An SBC address without a four-byte form is accepted and started with, but never given out: the
  type A query goes to the system's resolver, the type AAAA query gets an answer without records.
\<close>

lemma ipv6_sbc_not_given_out:
  assumes "ParseIP a = Some (IPv6 b)" "hosts = [host_key (su_SIPRealm s) \<mapsto> None]"
    and "length i = 2" "length flags = 2" "length counts = 6" "dns_name q" "equal_fold q (su_SIPRealm s)"
  shows "NewStaticResolver ParseIP (SBCResolverHosts s a) = Inr hosts
     \<and> (\<exists>resp. resolver_handle hosts lk (a_query i flags counts q rest)
          = Ret (Some (forward lk 1 (host_key (su_SIPRealm s)) resp)))"
proof -
  let ?ls = "split_on (CHR ''.'') q" and ?req = "a_query i flags counts q rest"
  let ?hd = "i @ flags @ be_bytes 2 1 @ counts" and ?cls = "be_bytes 2 1"
  have "\<forall>l \<in> set ?ls. l \<noteq> [] \<and> length l < 256" using assms(6) by (auto simp: dns_name_def list_all_iff)
  moreover from this have k: "host_key (dotted ?ls) = host_key (su_SIPRealm s)" using host_key_realm [OF assms(7)] by blast
  ultimately have pq: "parseQuestion ?req 12 = Ret (dotted ?ls, 1, 12 + length (encode_labels ?ls) + 4)"
    using parseQuestion_encode [of ?ls 1 ?cls ?hd rest] assms by (simp add: a_query_def)
  have s: "go_slice ?req 0 2 = Ret i" "go_slice ?req 4 6 = Ret (be_bytes 2 1)"
    "\<exists>y. go_slice ?req 12 (int (12 + length (encode_labels ?ls) + 4)) = Ret y" "12 \<le> length ?req"
    using assms by (auto simp: a_query_def go_slice_def nat_add_distrib)
  have b: "be_val (be_bytes 2 1) = 1" by simp
  have d: "dotted ?ls \<noteq> []" by (simp add: dotted_split_on)
  have "hosts (host_key (su_SIPRealm s)) = Some None" using assms(2) by simp
  with s pq b d k show ?thesis using assms(1,2)
    by (auto simp: SBCResolverHosts_def resolver_handle_def Let_def)
qed

end
