(* ===== verification/Recording.thy ===== *)
theory Recording
  imports Go_Bytes
begin

text \<open>
  \<open>internal/recording/archive.go\<close>: the archive of call recordings as WAV files, and the WAV header
  that \<open>internal/tts\<close> writes in the same layout. The file system is a map from paths to
  contents. The lemmas show that a sanitised name is a single safe path segment and a fixed
  point, when reserved names are distinct, and the two ways in which they collide.
\<close>

section \<open>Names\<close>

definition safe_char :: "char \<Rightarrow> bool" where
  "safe_char c \<longleftrightarrow> is_upper c \<or> is_lower c \<or> is_digit c \<or> c = CHR ''.'' \<or> c = CHR ''_'' \<or> c = CHR ''-''"

text \<open>\<open>ReplaceAllString\<close> of the maximal runs of unsafe characters; the flag says a run is open.\<close>

fun replace_unsafe :: "bool \<Rightarrow> string \<Rightarrow> string" where
  "replace_unsafe in_run [] = []"
| "replace_unsafe in_run (c # s) =
     (if safe_char c then c # replace_unsafe False s
      else if in_run then replace_unsafe True s
      else CHR ''-'' # replace_unsafe True s)"

definition dash_or_dot :: "char \<Rightarrow> bool" where
  "dash_or_dot c \<longleftrightarrow> c = CHR ''-'' \<or> c = CHR ''.''"

definition sanitize :: "string \<Rightarrow> string" where
  "sanitize s =
     (let s1 = trim_space s;
          s2 = map (\<lambda>c. if c = CHR ''/'' then CHR ''-'' else c) s1;
          s3 = replace_unsafe False s2;
          s4 = trim dash_or_dot s3
      in if s4 = [] then ''leg'' else s4)"

section \<open>The archiver\<close>

record archiver =
  ar_baseDir :: string
  ar_clearedTest :: "string \<Rightarrow> bool"
  ar_usedRole :: "string \<Rightarrow> string \<Rightarrow> nat"

definition archiver_New :: "string \<Rightarrow> archiver" where
  "archiver_New baseDir = \<lparr>ar_baseDir = baseDir, ar_clearedTest = (\<lambda>t. False), ar_usedRole = (\<lambda>t r. 0)\<rparr>"

text \<open>
  Files by path. \<open>RemoveAll\<close> of a directory removes every file below it. A missing entry of the
  role counters reads as 0 in Go too.
\<close>

type_synonym files = "string \<rightharpoonup> string"

definition remove_all :: "string \<Rightarrow> files \<Rightarrow> files" where
  "remove_all dir fs = (\<lambda>p. if has_prefix p (dir @ ''/'') \<or> p = dir then None else fs p)"

definition reserve :: "string \<Rightarrow> string \<Rightarrow> string \<Rightarrow> archiver \<times> files \<Rightarrow> string \<times> archiver \<times> files" where
  "reserve test dir role st =
     (let (a, fs) = st;
          fs1 = (if ar_clearedTest a test then fs else remove_all dir fs);
          r = sanitize role;
          n = ar_usedRole a test r;
          a1 = a\<lparr>ar_clearedTest := (ar_clearedTest a)(test := True),
                 ar_usedRole := (ar_usedRole a)(test := (ar_usedRole a test)(r := n + 1))\<rparr>
      in (if n = 0 then r else r @ ''-'' @ show_nat n, a1, fs1))"

definition wav_header :: "nat \<Rightarrow> string" where
  "wav_header n = ''RIFF'' @ le_bytes 4 (36 + n) @ ''WAVE'' @ ''fmt '' @ le_bytes 4 16 @ le_bytes 2 1
     @ le_bytes 2 1 @ le_bytes 4 8000 @ le_bytes 4 16000 @ le_bytes 2 2 @ le_bytes 2 16
     @ ''data'' @ le_bytes 4 n"

definition wrapWAV :: "string \<Rightarrow> string" where
  "wrapWAV pcm = wav_header (length pcm) @ pcm"

text \<open>
  What the operating system does: reading the PCM file (absent, failing, or its bytes), and the
  errors, if any, of making the directory and of writing the file.
\<close>

datatype read_file = FileMissing | FileError string | FileBytes string

record archive_io =
  aio_read :: read_file
  aio_mkdir :: "string option"
  aio_write :: "string option"

definition Archive ::
  "string \<Rightarrow> string \<Rightarrow> string \<Rightarrow> archive_io \<Rightarrow> archiver \<times> files \<Rightarrow> (string + string) \<times> archiver \<times> files" where
  "Archive test role pcmPath io st =
     (if test = [] \<or> role = [] \<or> pcmPath = [] then (Inr [], st)
      else case aio_read io of
        FileMissing \<Rightarrow> (Inr [], st)
      | FileError err \<Rightarrow> (Inl (''recording: read pcm '' @ pcmPath @ '': '' @ err), st)
      | FileBytes pcm \<Rightarrow>
          if pcm = [] then (Inr [], st)
          else
            let dir = ar_baseDir (fst st) @ ''/'' @ sanitize test;
                (name, a, fs) = reserve test dir role st;
                out = dir @ ''/'' @ name @ ''.wav''
            in case aio_mkdir io of
                 Some err \<Rightarrow> (Inl (''recording: mkdir '' @ dir @ '': '' @ err), a, fs)
               | None \<Rightarrow>
                   (case aio_write io of
                      Some err \<Rightarrow> (Inl (''recording: write '' @ out @ '': '' @ err), a, fs)
                    | None \<Rightarrow> (Inr out, a, fs(out \<mapsto> wrapWAV pcm))))"

definition archive_Hook ::
  "string \<Rightarrow> string \<Rightarrow> string \<Rightarrow> archive_io \<Rightarrow> archiver \<times> files \<Rightarrow> string list \<times> archiver \<times> files" where
  "archive_Hook test role pcmPath io st =
     (case Archive test role pcmPath io st of
        (Inl err, st') \<Rightarrow> ([''recording: archive '' @ test @ ''/'' @ role @ '' failed: '' @ err], st')
      | (Inr out, st') \<Rightarrow> (if out \<noteq> [] then [''recording: wrote '' @ out] else [], st'))"

section \<open>Lemmas on names\<close>

lemma safe_replace_unsafe: "c \<in> set (replace_unsafe b s) \<Longrightarrow> safe_char c"
  by (induction b s rule: replace_unsafe.induct) (auto simp: safe_char_def split: if_splits)

lemma replace_unsafe_safe: "\<forall>c\<in>set s. safe_char c \<Longrightarrow> replace_unsafe b s = s"
  by (induction s arbitrary: b) auto

lemma trim_set: "set (trim P s) \<subseteq> set s"
  by (auto simp: trim_def trim_left_def trim_right_def dest!: set_dropWhileD)

lemma trim_ends:
  assumes "trim P s \<noteq> []"
  shows "\<not> P (hd (trim P s)) \<and> \<not> P (last (trim P s))"
proof -
  let ?u = "dropWhile P s" and ?d = "dropWhile P (rev (dropWhile P s))"
  have t: "trim P s = rev ?d" by (simp add: trim_def trim_left_def trim_right_def)
  then have ne: "?d \<noteq> []" using assms by simp
  then have "\<not> P (last (rev ?d))" by (simp add: last_rev hd_dropWhile)
  moreover have u: "?u \<noteq> []" using ne by (intro notI) simp
  moreover have "?u = rev ?d @ rev (takeWhile P (rev ?u))"
    by (metis rev_append rev_rev_ident takeWhile_dropWhile_id)
  then have "hd ?u = hd (rev ?d)" using ne by (metis hd_append rev_is_Nil_conv)
  ultimately show ?thesis using t hd_dropWhile [of P s] by simp
qed

lemma dropWhile_hd: "s \<noteq> [] \<Longrightarrow> \<not> P (hd s) \<Longrightarrow> dropWhile P s = s"
  by (cases s) auto

lemma trim_fixed: "s \<noteq> [] \<Longrightarrow> \<not> P (hd s) \<Longrightarrow> \<not> P (last s) \<Longrightarrow> trim P s = s"
  by (simp add: trim_def trim_left_def trim_right_def dropWhile_hd hd_rev)

definition clean_name :: "string \<Rightarrow> bool" where
  "clean_name s \<longleftrightarrow> s \<noteq> [] \<and> (\<forall>c\<in>set s. safe_char c) \<and> \<not> dash_or_dot (hd s) \<and> \<not> dash_or_dot (last s)"

lemma sanitize_clean: "clean_name (sanitize s)"
proof -
  let ?s3 = "replace_unsafe False (map (\<lambda>c. if c = CHR ''/'' then CHR ''-'' else c) (trim_space s))"
  have s: "sanitize s = (if trim dash_or_dot ?s3 = [] then ''leg'' else trim dash_or_dot ?s3)"
    by (simp add: sanitize_def Let_def)
  show ?thesis
  proof (cases "trim dash_or_dot ?s3 = []")
    case True
    then show ?thesis using s
      by (simp add: clean_name_def safe_char_def is_lower_def code_def dash_or_dot_def)
  next
    case False
    then show ?thesis using s trim_ends [OF False] trim_set [of dash_or_dot ?s3] safe_replace_unsafe
      by (auto simp: clean_name_def)
  qed
qed

lemma safe_not_space: "safe_char c \<Longrightarrow> \<not> is_space c"
  by (auto simp: safe_char_def is_space_def is_lower_def is_upper_def is_digit_def code_def)

lemma safe_not_slash: "safe_char c \<Longrightarrow> c \<noteq> CHR ''/''"
  by (auto simp: safe_char_def is_lower_def is_upper_def is_digit_def code_def)

lemma sanitize_fixed: "clean_name s \<Longrightarrow> sanitize s = s"
proof -
  assume c: "clean_name s"
  then have ne: "s \<noteq> []" and safe: "\<forall>c\<in>set s. safe_char c" by (simp_all add: clean_name_def)
  have "trim_space s = s" using ne safe safe_not_space by (intro trim_fixed) (auto simp: last_in_set)
  moreover have "map (\<lambda>c. if c = CHR ''/'' then CHR ''-'' else c) s = s"
    using safe safe_not_slash by (intro map_idI) auto
  moreover have "trim dash_or_dot s = s" using c by (intro trim_fixed) (auto simp: clean_name_def)
  ultimately show ?thesis using ne safe by (simp add: sanitize_def replace_unsafe_safe)
qed

section \<open>Reserved names\<close>

text \<open>The names reserved for a sequence of roles of one test.\<close>

fun reserve_all :: "string \<Rightarrow> string \<Rightarrow> string list \<Rightarrow> archiver \<times> files \<Rightarrow> string list" where
  "reserve_all test dir [] st = []"
| "reserve_all test dir (r # rs) st =
     (let (name, st') = reserve test dir r st in name # reserve_all test dir rs st')"

definition numbered :: "string \<times> nat \<Rightarrow> string" where
  "numbered rn = (if snd rn = 0 then fst rn else fst rn @ ''-'' @ show_nat (snd rn))"

fun occurrences :: "(string \<Rightarrow> nat) \<Rightarrow> string list \<Rightarrow> (string \<times> nat) list" where
  "occurrences f [] = []"
| "occurrences f (r # rs) = (r, f r) # occurrences (f(r := f r + 1)) rs"

lemma reserve_all_numbered:
  "reserve_all test dir rs st = map numbered (occurrences (ar_usedRole (fst st) test) (map sanitize rs))"
proof (induction rs arbitrary: st)
  case (Cons r rs)
  obtain a fs where st: "st = (a, fs)" by (cases st)
  show ?case using Cons by (simp add: st reserve_def Let_def numbered_def)
qed simp

lemma occurrences_ge: "(r, n) \<in> set (occurrences f rs) \<Longrightarrow> r \<in> set rs \<and> f r \<le> n"
proof (induction rs arbitrary: f)
  case (Cons x rs)
  then consider "(r, n) = (x, f x)" | "(r, n) \<in> set (occurrences (f(x := f x + 1)) rs)" by auto
  then show ?case
  proof cases
    case 2
    from Cons.IH [OF this] show ?thesis by (cases "r = x") auto
  qed simp
qed simp

lemma occurrences_distinct: "distinct (occurrences f rs)"
proof (induction rs arbitrary: f)
  case (Cons r rs)
  have "(r, f r) \<notin> set (occurrences (f(r := f r + 1)) rs)"
    using occurrences_ge [of r "f r" "f(r := f r + 1)" rs] by auto
  with Cons show ?case by simp
qed simp

lemma show_nat_no_dash: "CHR ''-'' \<notin> set (show_nat n)"
  using show_nat_digits [of n] by (auto simp: list_all_iff is_digit_def code_def)

lemma show_nat_inj: "show_nat m = show_nat n \<Longrightarrow> m = n"
  by (metis digits_val_show_nat of_nat_eq_iff)

lemma split_last_dash:
  assumes "a @ CHR ''-'' # x = b @ CHR ''-'' # y" and "CHR ''-'' \<notin> set x" and "CHR ''-'' \<notin> set y"
  shows "a = b \<and> x = y"
proof -
  have tw: "takeWhile (\<lambda>c. c \<noteq> CHR ''-'') (rev (u @ CHR ''-'' # v)) = rev v" if "CHR ''-'' \<notin> set v" for u v
  proof -
    have "takeWhile (\<lambda>c. c \<noteq> CHR ''-'') (rev v @ CHR ''-'' # rev u) = rev v @ takeWhile (\<lambda>c. c \<noteq> CHR ''-'') (CHR ''-'' # rev u)"
      using that by (intro takeWhile_append2) auto
    then show ?thesis by simp
  qed
  from tw [OF assms(2), of a] tw [OF assms(3), of b] assms(1) have "x = y" by simp
  with assms(1) show ?thesis by simp
qed

definition no_numbered_role :: "string list \<Rightarrow> bool" where
  "no_numbered_role rs \<longleftrightarrow> (\<forall>r\<in>set rs. \<forall>r'\<in>set rs. \<forall>k>0. sanitize r' \<noteq> sanitize r @ ''-'' @ show_nat k)"

lemma numbered_inj:
  assumes "\<forall>r\<in>R. \<forall>r'\<in>R. \<forall>k>0. r' \<noteq> r @ ''-'' @ show_nat k"
  shows "inj_on numbered (R \<times> UNIV)"
proof (rule inj_onI)
  fix p q :: "string \<times> nat"
  assume p: "p \<in> R \<times> UNIV" and q: "q \<in> R \<times> UNIV" and eq: "numbered p = numbered q"
  obtain r n r' n' where pq: "p = (r, n)" "q = (r', n')" by (cases p; cases q)
  show "p = q"
  proof (cases "n = 0 \<or> n' = 0")
    case True
    then show ?thesis using assms p q eq pq by (auto simp: numbered_def split: if_splits)
  next
    case False
    then have "r @ CHR ''-'' # show_nat n = r' @ CHR ''-'' # show_nat n'" using eq pq by (simp add: numbered_def)
    from split_last_dash [OF this show_nat_no_dash show_nat_no_dash] show_nat_inj pq show ?thesis by auto
  qed
qed

section \<open>Properties\<close>

text \<open>
  A sanitised name is one non-empty path segment of safe characters that
  neither starts nor ends with a dash or a dot, and sanitising it again changes nothing.
\<close>

theorem sanitize_safe_segment:
  "clean_name (sanitize s) \<and> CHR ''/'' \<notin> set (sanitize s) \<and> sanitize (sanitize s) = sanitize s"
  using sanitize_clean [of s] sanitize_fixed safe_not_slash by (auto simp: clean_name_def)

text \<open>
  The names reserved for the legs of one test are pairwise distinct, whatever
  roles repeat, as long as no role is, after sanitising, another role with a number appended.
\<close>

theorem reserve_distinct:
  assumes "no_numbered_role roles"
  shows "distinct (reserve_all test dir roles st)"
proof -
  let ?occ = "occurrences (ar_usedRole (fst st) test) (map sanitize roles)"
  have "inj_on numbered (sanitize ` set roles \<times> UNIV)"
    using assms by (intro numbered_inj) (auto simp: no_numbered_role_def)
  moreover have "set ?occ \<subseteq> sanitize ` set roles \<times> UNIV" using occurrences_ge by fastforce
  ultimately have "inj_on numbered (set ?occ)" by (rule inj_on_subset)
  then show ?thesis by (simp add: reserve_all_numbered distinct_map occurrences_distinct)
qed

theorem reserve_distinct_witness:
  "distinct (reserve_all ''T'' ''d'' [''caller'', ''callee'', ''caller''] (archiver_New ''d'', Map.empty))"
proof (rule reserve_distinct)
  have c: "clean_name ''caller''" "clean_name ''callee''" by code_simp+
  have "hd (rev ''caller'') \<noteq> hd (rev (r @ ''-'' @ show_nat k)) \<and> hd (rev ''callee'') \<noteq> hd (rev (r @ ''-'' @ show_nat k))" for r k
  proof -
    have "is_digit (last (show_nat k))" using show_nat_digits [of k] by (simp add: list_all_iff)
    then have "last (show_nat k) \<noteq> CHR ''r'' \<and> last (show_nat k) \<noteq> CHR ''e''" by (auto simp: is_digit_def code_def)
    then show ?thesis by (auto simp: hd_append hd_rev)
  qed
  then show "no_numbered_role [''caller'', ''callee'', ''caller'']"
    unfolding no_numbered_role_def using sanitize_fixed [OF c(1)] sanitize_fixed [OF c(2)]
    by (metis empty_iff empty_set set_ConsD)
qed

text \<open>
  A role that is another one with a number appended clobbers: of the three legs
  \<open>r\<close>, \<open>r\<close>, \<open>r-1\<close> of one test the second and the third are written to the same file.
\<close>

theorem reserve_collides:
  assumes "clean_name r" and "ar_usedRole (fst st) test = (\<lambda>r. 0)"
  shows "reserve_all test dir [r, r, r @ ''-1''] st = [r, r @ ''-1'', r @ ''-1'']"
proof -
  have "clean_name (r @ ''-1'')" using assms(1)
    by (auto simp: clean_name_def safe_char_def is_digit_def code_def dash_or_dot_def)
  moreover have "show_nat (Suc 0) = ''1''" by code_simp
  ultimately show ?thesis using assms sanitize_fixed [of r] sanitize_fixed [of "r @ ''-1''"]
    by (simp add: reserve_all_numbered numbered_def)
qed

theorem reserve_collides_witness:
  "reserve_all ''T'' ''d'' [''leg'', ''leg'', ''leg'' @ ''-1''] (archiver_New ''d'', Map.empty)
     = [''leg'', ''leg'' @ ''-1'', ''leg'' @ ''-1'']"
proof (rule reserve_collides)
  show "clean_name ''leg''" by code_simp
qed (simp add: archiver_New_def)

text \<open>
  Two tests whose names sanitise to the same directory (a subtest \<open>T/x\<close> and a test
  \<open>T-x\<close>): the first recording of the second test removes the recordings of the first.
\<close>

theorem Archive_wipes_other_test:
  assumes "sanitize t2 = sanitize t1" and "\<not> ar_clearedTest (fst st) t2" and "t2 \<noteq> []" and "role \<noteq> []"
    and "pcmPath \<noteq> []" and "aio_read io = FileBytes pcm" and "pcm \<noteq> []" and "aio_mkdir io = None" and "aio_write io = None"
    and "p = ar_baseDir (fst st) @ ''/'' @ sanitize t1 @ ''/'' @ old @ ''.wav''"
    and "old \<noteq> fst (reserve t2 (ar_baseDir (fst st) @ ''/'' @ sanitize t2) role st)"
  shows "snd (snd (Archive t2 role pcmPath io st)) p = None"
  using assms
  by (cases st) (auto simp: Archive_def reserve_def remove_all_def has_prefix_iff Let_def)

theorem Archive_wipes_other_test_witness:
  "snd (snd (Archive ''T-x'' ''b'' ''b.pcm'' \<lparr>aio_read = FileBytes ''zz'', aio_mkdir = None, aio_write = None\<rparr>
     (archiver_New ''d'', [''d/T-x/a.wav'' \<mapsto> ''old'']))) (''d'' @ ''/'' @ sanitize ''T/x'' @ ''/'' @ ''a'' @ ''.wav'') = None"
proof (rule Archive_wipes_other_test [where pcm = "''zz''"])
  show "sanitize ''T-x'' = sanitize ''T/x''" by code_simp
  have "sanitize ''b'' = ''b''" by code_simp
  then show "''a'' \<noteq> fst (reserve ''T-x'' (ar_baseDir (fst (archiver_New ''d'', [''d/T-x/a.wav'' \<mapsto> ''old'']))
      @ ''/'' @ sanitize ''T-x'') ''b'' (archiver_New ''d'', [''d/T-x/a.wav'' \<mapsto> ''old'']))"
    by (simp add: reserve_def archiver_New_def Let_def)
qed (simp_all add: archiver_New_def)

end
