(* ===== verification/Sip_Media.thy ===== *)
theory Sip_Media
  imports Complex_Main Sip_Call Go_Bytes
begin

text \<open>
  The media side of \<open>internal/sip/call.go\<close>: telephone events, WAV playback, recording and the
  statistics over received audio, early-media session descriptions. The RTP writer, the codec
  and the audio source are parameters. The lemmas give the exact packets of a digit, the bounds
  within which the durations do not wrap, what the WAV reader does with a short file, that a
  recording is archived at most once, and how far the square root is from one.
\<close>

section \<open>Early media\<close>

definition crlf :: string where "crlf = [CHR 0x0D, CHR 0x0A]"

definition to_upper :: "string \<Rightarrow> string" where
  "to_upper = map (\<lambda>c. if is_lower c then char_of (code c - 32) else c)"

definition EarlyMediaSDPWithDirection ::
  "string \<Rightarrow> string \<Rightarrow> int \<Rightarrow> int \<Rightarrow> string \<Rightarrow> string + string" where
  "EarlyMediaSDPWithDirection codec host port sessionID direction =
     (if direction \<noteq> ''sendrecv'' \<and> direction \<noteq> ''sendonly'' \<and> direction \<noteq> ''recvonly'' \<and> direction \<noteq> ''inactive''
      then Inl (''EarlyMediaSDPWithDirection: invalid direction '' @ go_quote direction
                @ '' (want sendrecv/sendonly/recvonly/inactive)'')
      else
        let up = to_upper codec in
        if up \<noteq> ''PCMU'' \<and> up \<noteq> ''PCMA''
        then Inl (''EarlyMediaSDP: unsupported codec '' @ go_quote codec @ '' (want PCMU or PCMA)'')
        else
          let pt = itoa (if up = ''PCMU'' then 0 else 8); sid = itoa sessionID in
          Inr (''v=0'' @ crlf @ ''o=SmokeTester '' @ sid @ '' '' @ sid @ '' IN IP4 '' @ host @ crlf
               @ ''s=SmokeTester Early Media'' @ crlf @ ''c=IN IP4 '' @ host @ crlf @ ''t=0 0'' @ crlf
               @ ''m=audio '' @ itoa port @ '' RTP/AVP '' @ pt @ '' 101'' @ crlf
               @ ''a=rtpmap:'' @ pt @ '' '' @ up @ ''/8000'' @ crlf
               @ ''a=rtpmap:101 telephone-event/8000'' @ crlf @ ''a=fmtp:101 0-16'' @ crlf
               @ ''a=ptime:20'' @ crlf @ ''a='' @ direction @ crlf))"

definition EarlyMediaSDP :: "string \<Rightarrow> string \<Rightarrow> int \<Rightarrow> int \<Rightarrow> string + string" where
  "EarlyMediaSDP codec host port sessionID = EarlyMediaSDPWithDirection codec host port sessionID ''sendrecv''"

section \<open>Telephone events\<close>

definition dtmfEventCode :: "char \<Rightarrow> 8 word option" where
  "dtmfEventCode r =
     (let n = code r in
      if 48 \<le> n \<and> n \<le> 57 then Some (of_nat (n - 48))
      else if r = CHR ''*'' then Some 10
      else if r = CHR ''#'' then Some 11
      else if 65 \<le> n \<and> n \<le> 68 then Some (of_nat (n - 65) + 12)
      else if 97 \<le> n \<and> n \<le> 100 then Some (of_nat (n - 97) + 12)
      else None)"

record dtmf_packet =
  dp_Event :: "8 word"
  dp_End :: bool
  dp_Volume :: nat
  dp_Duration :: "16 word"
  dp_TsIncrement :: "32 word"
  dp_Marker :: bool
  dp_PayloadType :: nat

text \<open>
  The writer takes the packets written so far and the next one, and returns its error, if any.
  A packet whose write fails is not counted as written.
\<close>

type_synonym rtp_writer = "dtmf_packet list \<Rightarrow> dtmf_packet \<Rightarrow> string option"

fun write_all :: "rtp_writer \<Rightarrow> dtmf_packet list \<Rightarrow> dtmf_packet list \<Rightarrow> string option \<times> dtmf_packet list" where
  "write_all wr sent [] = (None, sent)"
| "write_all wr sent (p # ps) =
     (case wr sent p of Some err \<Rightarrow> (Some err, sent) | None \<Rightarrow> write_all wr (sent @ [p]) ps)"

definition interim_packet :: "8 word \<Rightarrow> nat \<Rightarrow> dtmf_packet" where
  "interim_packet ev i = \<lparr>dp_Event = ev, dp_End = False, dp_Volume = 10,
     dp_Duration = of_nat (i + 1) * 160, dp_TsIncrement = 0, dp_Marker = (i = 0), dp_PayloadType = 101\<rparr>"

definition totalDuration :: "nat \<Rightarrow> 16 word" where
  "totalDuration nPackets = of_nat nPackets * 160"

definition end_packet :: "8 word \<Rightarrow> nat \<Rightarrow> dtmf_packet" where
  "end_packet ev nPackets = \<lparr>dp_Event = ev, dp_End = True, dp_Volume = 10,
     dp_Duration = totalDuration nPackets,
     dp_TsIncrement = ucast (totalDuration nPackets) + 320, dp_Marker = False, dp_PayloadType = 101\<rparr>"

fun send_digits ::
  "rtp_writer \<Rightarrow> string \<Rightarrow> nat \<Rightarrow> dtmf_packet list \<Rightarrow> string \<Rightarrow> call_error option \<times> dtmf_packet list" where
  "send_digits wr digits nPackets sent [] = (None, sent)"
| "send_digits wr digits nPackets sent (r # rs) =
     (case dtmfEventCode r of
        None \<Rightarrow> (Some (Plain (''SendDTMF: unsupported digit '' @ quote_rune r)), sent)
      | Some ev \<Rightarrow>
          (case write_all wr sent (map (interim_packet ev) [0..<nPackets]) of
             (Some err, sent1) \<Rightarrow> (Some (Wrapped (''SendDTMF('' @ go_quote digits @ '') write'') err), sent1)
           | (None, sent1) \<Rightarrow>
               (case write_all wr sent1 [end_packet ev nPackets] of
                  (Some err, sent2) \<Rightarrow> (Some (Wrapped (''SendDTMF('' @ go_quote digits @ '') end'') err), sent2)
                | (None, sent2) \<Rightarrow> send_digits wr digits nPackets sent2 rs)))"

text \<open>\<open>perTone\<close> is in nanoseconds; \<open>writer\<close> is \<open>None\<close> where the dialog has no RTP writer.\<close>

definition n_packets :: "int \<Rightarrow> nat" where
  "n_packets perTone = (let n = nat (perTone div 20000000) in if n < 2 then 2 else n)"

definition SendDTMFWithDuration ::
  "rtp_writer option \<Rightarrow> string \<Rightarrow> int \<Rightarrow> call \<Rightarrow> call_error option \<times> dtmf_packet list" where
  "SendDTMFWithDuration writer digits perTone c =
     (if c_state c \<noteq> StateAnswered then (Some (InvalidState ''SendDTMF'' (c_state c) [StateAnswered]), [])
      else if perTone < 40000000 then (Some (Plain (''SendDTMF: perTone '' @ duration_string perTone @ '' too short (min 40ms)'')), [])
      else case writer of
        None \<Rightarrow> (Some (Plain ''SendDTMF: no RTP packet writer''), [])
      | Some wr \<Rightarrow> send_digits wr digits (n_packets perTone) [] digits)"

definition SendDTMF :: "rtp_writer option \<Rightarrow> string \<Rightarrow> call \<Rightarrow> call_error option \<times> dtmf_packet list" where
  "SendDTMF writer digits c = SendDTMFWithDuration writer digits 250000000 c"

section \<open>WAV files\<close>

text \<open>
  The file is read into a slice whose backing array is longer than it (\<open>os.ReadFile\<close> leaves
  spare capacity, which is zero); a slice expression is checked against the capacity, so
  \<open>backing\<close> is the file followed by the spare zeros, and \<open>n\<close> the length of the file.
\<close>

record wav_scan =
  wv_haveFmt :: bool
  wv_channels :: nat
  wv_rate :: nat
  wv_bits :: nat
  wv_data :: "string option"

definition wav_fmt :: "string \<Rightarrow> nat \<Rightarrow> wav_scan \<Rightarrow> string + wav_scan" where
  "wav_fmt body sz v =
     (if sz < 16 then Inl (''fmt chunk too small ('' @ show_nat sz @ '' bytes)'')
      else if le_val (take 2 body) \<noteq> 1 then Inl (''WAV format '' @ show_nat (le_val (take 2 body)) @ '' not PCM'')
      else Inr (v\<lparr>wv_channels := le_val (take 2 (drop 2 body)), wv_rate := le_val (take 4 (drop 4 body)),
                  wv_bits := le_val (take 2 (drop 14 body)), wv_haveFmt := True\<rparr>))"

function wav_chunks :: "string \<Rightarrow> nat \<Rightarrow> nat \<Rightarrow> wav_scan \<Rightarrow> (string + wav_scan) go" where
  "wav_chunks backing n i v =
     (if i + 8 \<le> n then
        let cid = take 4 (drop i backing); sz = le_val (take 4 (drop (i + 4) backing)) in
        go_bind (go_slice backing (int (i + 8)) (int (i + 8 + sz)))
          (\<lambda>body.
             let next = i + 8 + sz + (if sz mod 2 = 1 then 1 else 0) in
             if cid = ''fmt '' then
               (case wav_fmt body sz v of Inl err \<Rightarrow> Ret (Inl err) | Inr v' \<Rightarrow> wav_chunks backing n next v')
             else if cid = ''data'' then wav_chunks backing n next (v\<lparr>wv_data := Some body\<rparr>)
             else wav_chunks backing n next v)
      else Ret (Inr v))"
  by pat_completeness auto

termination
  by (relation "measure (\<lambda>(backing, n, i, v). n - i)") auto

declare wav_chunks.simps [simp del]

definition readTelephonyWAV :: "string \<Rightarrow> nat \<Rightarrow> (string + string) go" where
  "readTelephonyWAV blob spare =
     (if length blob < 44 \<or> take 4 blob \<noteq> ''RIFF'' \<or> take 4 (drop 8 blob) \<noteq> ''WAVE''
      then Ret (Inl ''not a RIFF/WAVE file'')
      else go_bind (wav_chunks (blob @ replicate spare (byte_of 0)) (length blob) 12
                     \<lparr>wv_haveFmt = False, wv_channels = 0, wv_rate = 0, wv_bits = 0, wv_data = None\<rparr>)
        (\<lambda>res. case res of
            Inl err \<Rightarrow> Ret (Inl err)
          | Inr v \<Rightarrow>
              if \<not> wv_haveFmt v then Ret (Inl ''fmt chunk not found'')
              else (case wv_data v of
                 None \<Rightarrow> Ret (Inl ''data chunk not found'')
               | Some d \<Rightarrow>
                   if wv_channels v \<noteq> 1 \<or> wv_rate v \<noteq> 8000 \<or> wv_bits v \<noteq> 16
                   then Ret (Inl (''WAV must be mono 8000 Hz 16-bit; got '' @ show_nat (wv_channels v) @ '' ch / ''
                                  @ show_nat (wv_rate v) @ '' Hz / '' @ show_nat (wv_bits v) @ ''-bit''))
                   else Ret (Inr d))))"

text \<open>
  Playback: the frames of 320 bytes, a shorter rest is dropped. \<open>encode\<close> is the third-party
  u-law encoder, \<open>wr\<close> the writer over the frames written so far.
\<close>

fun frames_320 :: "string \<Rightarrow> string list" where
  "frames_320 s = (if length s < 320 then [] else take 320 s # frames_320 (drop 320 s))"

declare frames_320.simps [simp del]

fun play ::
  "(string \<Rightarrow> string + string) \<Rightarrow> (string list \<Rightarrow> string \<Rightarrow> string option) \<Rightarrow> string list \<Rightarrow> string list
     \<Rightarrow> call_error option \<times> string list" where
  "play encode wr sent [] = (None, sent)"
| "play encode wr sent (f # fs) =
     (case encode f of
        Inl err \<Rightarrow> (Some (Wrapped ''SendWAV encode'' err), sent)
      | Inr u \<Rightarrow> (case wr sent u of
                    Some err \<Rightarrow> (Some (Wrapped ''SendWAV write'' err), sent)
                  | None \<Rightarrow> play encode wr (sent @ [u]) fs))"

record wav_io =
  wio_file :: "string + string"
  wio_spare :: nat
  wio_writer_err :: "string option"
  wio_encode :: "string \<Rightarrow> string + string"
  wio_write :: "string list \<Rightarrow> string \<Rightarrow> string option"

definition SendWAV :: "string \<Rightarrow> wav_io \<Rightarrow> call \<Rightarrow> ((call_error option \<times> string list) \<times> call) go" where
  "SendWAV path io c =
     (if c_state c \<noteq> StateAnswered then
        Ret ((Some (InvalidState ''SendWAV'' (c_state c) [StateAnswered]), []), c)
      else
        let c1 = c\<lparr>c_silence := False\<rparr> in
        case wio_file io of
          Inl err \<Rightarrow> Ret ((Some (Wrapped (''SendWAV('' @ path @ '')'') err), []), c1)
        | Inr blob \<Rightarrow>
            go_bind (readTelephonyWAV blob (wio_spare io))
              (\<lambda>res. case res of
                 Inl err \<Rightarrow> Ret ((Some (Wrapped (''SendWAV('' @ path @ '')'') err), []), c1)
               | Inr lpcm \<Rightarrow>
                   (case wio_writer_err io of
                      Some err \<Rightarrow> Ret ((Some (Wrapped ''SendWAV'' err), []), c1)
                    | None \<Rightarrow> Ret (play (wio_encode io) (wio_write io) [] (frames_320 lpcm), c1))))"

definition SendSilence :: "string option \<Rightarrow> call \<Rightarrow> call_error option \<times> call" where
  "SendSilence writer_err c =
     (if c_state c \<noteq> StateAnswered then (Some (InvalidState ''SendSilence'' (c_state c) [StateAnswered]), c)
      else if c_silence c then (None, c)
      else case writer_err of
        Some err \<Rightarrow> (Some (Wrapped ''SendSilence'' err), c)
      | None \<Rightarrow> (None, c\<lparr>c_silence := True\<rparr>))"

section \<open>Recording\<close>

record recording_io =
  rio_create :: "string option"
  rio_reader :: "string option"
  rio_decoder :: "string option"
  rio_codec :: string

definition StartRecording :: "string \<Rightarrow> recording_io \<Rightarrow> call \<Rightarrow> call_error option \<times> call" where
  "StartRecording path io c =
     (if c_state c \<noteq> StateAnswered then
        (Some (InvalidState ''StartRecording'' (c_state c) [StateAnswered]), c)
      else case c_recording c of
        Some _ \<Rightarrow> (Some (Plain ''StartRecording: already recording''), c)
      | None \<Rightarrow>
          (case rio_create io of
             Some err \<Rightarrow> (Some (Wrapped ''StartRecording'' err), c)
           | None \<Rightarrow>
               (case (case rio_reader io of Some err \<Rightarrow> Some err | None \<Rightarrow> rio_decoder io) of
                  Some err \<Rightarrow> (Some (Wrapped ''StartRecording'' err), effect (CloseFile path) c)
                | None \<Rightarrow>
                    (None, c\<lparr>c_codec := rio_codec io,
                             c_recording := Some \<lparr>rs_path = path, rs_archived = False\<rparr>,
                             c_rawPCMPath := path\<rparr>))))"

section \<open>Received audio\<close>

text \<open>
  The statistics of \<open>pumpAudio\<close>. The sum of squares is a \<open>float64\<close> in the code, exact below
  \<open>2^53\<close>; the square root is computed here over the rationals, without the rounding.
\<close>

record media_in =
  md_pcmBytesIn :: int
  md_samplesIn :: int
  md_sumSqIn :: int
  md_rmsIn :: rat

definition no_media :: media_in where
  "no_media = \<lparr>md_pcmBytesIn = 0, md_samplesIn = 0, md_sumSqIn = 0, md_rmsIn = 0\<rparr>"

fun newton :: "nat \<Rightarrow> rat \<Rightarrow> rat \<Rightarrow> rat" where
  "newton 0 v g = g"
| "newton (Suc k) v g = newton k v ((g + v / g) / 2)"

definition go_sqrt :: "rat \<Rightarrow> rat" where
  "go_sqrt v = (if v \<le> 0 then 0 else newton 6 v (v / 2))"

text \<open>The little-endian signed samples of a chunk; an odd last byte is ignored.\<close>

fun samples :: "string \<Rightarrow> int list" where
  "samples (a # b # s) = sint (of_nat (le_val [a, b]) :: 16 word) # samples s"
| "samples _ = []"

definition account :: "string \<Rightarrow> media_in \<Rightarrow> media_in" where
  "account chunk m =
     (if chunk = [] then m
      else let sq = md_sumSqIn m + (\<Sum>x\<leftarrow>samples chunk. x * x);
               n = md_samplesIn m + int (length (samples chunk))
           in m\<lparr>md_pcmBytesIn := md_pcmBytesIn m + int (length chunk), md_sumSqIn := sq, md_samplesIn := n,
                md_rmsIn := (if n > 0 then go_sqrt (of_int sq / of_int n) else md_rmsIn m)\<rparr>)"

text \<open>
  One read: the bytes, the error (\<open>Some None\<close> is \<open>io.EOF\<close>), and whether the context was
  cancelled before it. The result is what was written to the file, the statistics and the error
  recorded on the call.
\<close>

record pump_read =
  pr_cancelled :: bool
  pr_bytes :: string
  pr_err :: "string option option"

record pump_state =
  pm_file :: string
  pm_media :: media_in
  pm_err :: "string option"

fun pumpAudio :: "pump_read list \<Rightarrow> pump_state \<Rightarrow> pump_state" where
  "pumpAudio [] st = st"
| "pumpAudio (r # rs) st =
     (if pr_cancelled r then st
      else let st1 = (if pr_bytes r \<noteq> []
                      then st\<lparr>pm_file := pm_file st @ pr_bytes r, pm_media := account (pr_bytes r) (pm_media st)\<rparr>
                      else st)
           in case pr_err r of
                None \<Rightarrow> pumpAudio rs st1
              | Some None \<Rightarrow> st1
              | Some (Some err) \<Rightarrow> st1\<lparr>pm_err := (case pm_err st1 of None \<Rightarrow> Some err | Some e \<Rightarrow> Some e)\<rparr>)"

definition AudioDuration :: "media_in \<Rightarrow> int" where
  "AudioDuration m = wrap64 (md_samplesIn m * 1000000000) div 8000"

definition RMS :: "media_in \<Rightarrow> rat" where
  "RMS m = md_rmsIn m"

definition PCMBytesIn :: "media_in \<Rightarrow> int" where
  "PCMBytesIn m = md_pcmBytesIn m"

text \<open>
  The other observations read one field under its mutex; what they return is a copy, the value at
  that moment.
\<close>

definition call_State :: "call \<Rightarrow> call_state" where "call_State c = c_state c"
definition call_Direction :: "call \<Rightarrow> direction" where "call_Direction c = c_direction c"
definition call_Err :: "call \<Rightarrow> string option" where "call_Err c = c_err c"
definition call_EndReason :: "call \<Rightarrow> string" where "call_EndReason c = c_endReason c"
definition call_Sent :: "call \<Rightarrow> message list" where "call_Sent c = c_sent c"
definition call_Received :: "call \<Rightarrow> message list" where "call_Received c = c_recv c"
definition call_Done :: "call \<Rightarrow> unit chan" where "call_Done c = c_doneCh c"
definition call_Codec :: "call \<Rightarrow> string" where "call_Codec c = c_codec c"
definition RawPCMPath :: "call \<Rightarrow> string" where "RawPCMPath c = c_rawPCMPath c"
definition ReceivedDTMF :: "call \<Rightarrow> (string \<times> int) list" where "ReceivedDTMF c = c_dtmf c"

text \<open>
  The media session of the dialog, a parameter: no dialog (\<open>None\<close>), a dialog that has negotiated
  nothing yet (\<open>Some None\<close>), or its addresses and its description.
\<close>

record media_session =
  ms_Laddr :: string
  ms_Raddr :: string
  ms_LocalSDP :: string

record call_dialogs =
  cd_in :: "media_session option option"
  cd_out :: "media_session option option"

definition mediaSession :: "call_dialogs \<Rightarrow> call \<Rightarrow> media_session option" where
  "mediaSession ds c =
     (case (if c_direction c = Inbound then cd_in ds else cd_out ds) of None \<Rightarrow> None | Some ms \<Rightarrow> ms)"

definition LocalRTPAddr :: "call_dialogs \<Rightarrow> call \<Rightarrow> string" where
  "LocalRTPAddr ds c = (case mediaSession ds c of Some ms \<Rightarrow> ms_Laddr ms | None \<Rightarrow> [])"

definition RemoteRTPAddr :: "call_dialogs \<Rightarrow> call \<Rightarrow> string" where
  "RemoteRTPAddr ds c = (case mediaSession ds c of Some ms \<Rightarrow> ms_Raddr ms | None \<Rightarrow> [])"

definition LocalSDP :: "call_dialogs \<Rightarrow> call \<Rightarrow> string option" where
  "LocalSDP ds c = (case mediaSession ds c of Some ms \<Rightarrow> Some (ms_LocalSDP ms) | None \<Rightarrow> None)"

definition InviteOfferSDP :: "call \<Rightarrow> string option" where
  "InviteOfferSDP c = (if c_direction c \<noteq> Outbound then None else Some (rq_Body (c_invite c)))"

section \<open>Packets and durations\<close>

definition digit_packets :: "nat \<Rightarrow> 8 word \<Rightarrow> dtmf_packet list" where
  "digit_packets n ev = map (interim_packet ev) [0..<n] @ [end_packet ev n]"

lemma write_all_ok: "write_all (\<lambda>s p. None) sent ps = (None, sent @ ps)"
  by (induction ps arbitrary: sent) auto

lemma send_digits_ok:
  "list_all (\<lambda>r. dtmfEventCode r \<noteq> None) rs \<Longrightarrow>
     send_digits (\<lambda>s p. None) digits n sent rs
       = (None, sent @ concat (map (\<lambda>r. digit_packets n (the (dtmfEventCode r))) rs))"
  by (induction rs arbitrary: sent) (auto simp: write_all_ok digit_packets_def)

lemma unat_times_160: "unat (of_nat n * 160 :: 16 word) = 160 * n mod 65536"
proof -
  have e: "(of_nat n * 160 :: 16 word) = of_nat (160 * n)" by (simp add: mult.commute)
  show ?thesis unfolding e by (simp only: unat_of_nat) simp
qed

lemma unat_end_ts: "unat (dp_TsIncrement (end_packet ev n)) = 160 * n mod 65536 + 320"
proof -
  let ?t = "totalDuration n"
  have t: "unat ?t = 160 * n mod 65536" by (simp add: totalDuration_def unat_times_160)
  have "unat ?t < 2 ^ 32" using t by simp
  then have u: "unat (ucast ?t :: 32 word) = unat ?t"
    by (simp add: unsigned_ucast_eq take_bit_nat_eq_self)
  have "unat (ucast ?t :: 32 word) + unat (320 :: 32 word) < 2 ^ LENGTH(32)" using u t by simp
  then have "unat (ucast ?t + 320 :: 32 word) = unat (ucast ?t :: 32 word) + unat (320 :: 32 word)"
    by (simp add: unat_plus_if' del: unsigned_ucast_eq)
  then show ?thesis using t u by (simp add: end_packet_def)
qed

section \<open>The whole leg as a machine\<close>

text \<open>
  The operations of \<open>Sip_Call\<close> and those on the media of the leg; \<open>StopMedia\<close> is the goroutine that
  the end of a call starts. Each media operation checks the state of the call once, and then works
  on the recording, the silence or the wire.
\<close>

datatype leg_op =
    Signal call_op
  | Record string recording_io
  | StopMedia bool bool
  | PlayWAV string wav_io
  | Silence "string option"
  | Digits "rtp_writer option" string int

fun leg_op_step :: "leg_op \<Rightarrow> call \<Rightarrow> call go" where
  "leg_op_step (Signal op) c = call_step op c"
| "leg_op_step (Record path io) c = Ret (snd (StartRecording path io c))"
| "leg_op_step (StopMedia hook drained) c = Ret (stopMedia hook drained c)"
| "leg_op_step (PlayWAV path io) c = after (SendWAV path io c)"
| "leg_op_step (Silence writer_err) c = Ret (snd (SendSilence writer_err c))"
| "leg_op_step (Digits wr digits perTone) c = (case SendDTMFWithDuration wr digits perTone c of (err, sent) \<Rightarrow> Ret c)"

text \<open>
  The two ways to panic: a re-INVITE to which the stack answers with neither a response nor an
  error, and a file in which the WAV reader slices out of range.
\<close>

fun op_faults :: "leg_op \<Rightarrow> bool" where
  "op_faults (Signal op) \<longleftrightarrow> \<not> op_replies op"
| "op_faults (PlayWAV path io) \<longleftrightarrow>
     (case wio_file io of Inl err \<Rightarrow> False | Inr blob \<Rightarrow> readTelephonyWAV blob (wio_spare io) = Panic)"
| "op_faults _ \<longleftrightarrow> False"

lemma call_ok_fields: "call_ok c \<Longrightarrow> call_ok (c\<lparr>c_silence := b\<rparr>)"
  "call_ok c \<Longrightarrow> call_ok (c\<lparr>c_codec := x, c_recording := r, c_rawPCMPath := p\<rparr>)"
  "call_ok c \<Longrightarrow> call_ok (effect (CloseFile p) c)"
  by (simp_all add: call_ok_def unregistered_def effect_def)

lemma call_ok_media:
  "call_ok c \<Longrightarrow> call_ok (snd (StartRecording path io c))"
  "call_ok c \<Longrightarrow> call_ok (snd (SendSilence werr c))"
  using call_ok_fields by (simp_all add: StartRecording_def SendSilence_def split: option.split)

lemma SendWAV_cases:
  "(\<exists>r d. SendWAV path io c = Ret (r, d) \<and> (d = c \<or> d = c\<lparr>c_silence := False\<rparr>))
     \<or> SendWAV path io c = Panic \<and> c_state c = StateAnswered \<and> op_faults (PlayWAV path io)"
proof (cases "c_state c = StateAnswered")
  case True
  show ?thesis
  proof (cases "wio_file io")
    case (Inr blob)
    with True show ?thesis
      by (cases "readTelephonyWAV blob (wio_spare io)") (simp_all add: SendWAV_def Let_def split: sum.split option.split)
  qed (use True in \<open>simp add: SendWAV_def Let_def\<close>)
qed (simp add: SendWAV_def)

lemma leg_op_step_cases:
  assumes "call_ok c"
  shows "(\<exists>d. leg_op_step op c = Ret d \<and> call_ok d) \<or> leg_op_step op c = Panic \<and> op_faults op"
proof (cases op)
  case (Signal op')
  with call_step_result [OF assms, of op'] good_ok show ?thesis by auto
next
  case (PlayWAV path io)
  from SendWAV_cases [of path io c] PlayWAV assms call_ok_fields(1) [OF assms] show ?thesis
    by (auto simp: after_def)
qed (use assms call_ok_media good_ok [OF media_good(1) [OF assms]] in \<open>auto split: prod.splits\<close>)

interpretation whole_leg: risky_machine leg_op_step call_ok op_faults
  by unfold_locales (rule leg_op_step_cases)

definition new_call :: "direction \<Rightarrow> int \<Rightarrow> sip_request \<Rightarrow> string \<Rightarrow> call" where
  "new_call dir now req owner =
     (if dir = Inbound then newInboundCall now req owner else newOutboundCall now req owner)"

lemma call_ok_new_call: "call_ok (new_call dir now req owner)"
  by (simp add: new_call_def)

section \<open>Recordings\<close>

text \<open>
  What the archive has been given, and what it may still be given: no operation but a successful
  start of a recording adds to the two together.
\<close>

definition archives :: "string \<Rightarrow> call \<Rightarrow> nat" where
  "archives p c = length (filter (\<lambda>e. case e of Archive owner role q \<Rightarrow> q = p | _ \<Rightarrow> False) (c_effects c))"

definition pending_rec :: "string \<Rightarrow> call \<Rightarrow> nat" where
  "pending_rec p c = (case c_recording c of None \<Rightarrow> 0 | Some r \<Rightarrow> if rs_path r = p then 1 else 0)"

definition no_more :: "call \<Rightarrow> call \<Rightarrow> bool" where
  "no_more c d \<longleftrightarrow> (\<forall>p. archives p d + pending_rec p d \<le> archives p c + pending_rec p c)"

lemma no_more_refl [simp]: "no_more c c"
  by (simp add: no_more_def)

lemma no_more_trans: "no_more c d \<Longrightarrow> no_more d e \<Longrightarrow> no_more c e"
  unfolding no_more_def by (meson order_trans)

lemma no_more_fields [simp]:
  "no_more c (c\<lparr>c_state := s\<rparr>)" "no_more c (c\<lparr>c_stateCh := ch\<rparr>)" "no_more c (c\<lparr>c_codec := x\<rparr>)"
  "no_more c (c\<lparr>c_silence := b\<rparr>)" "no_more c (recordSent m c)" "no_more c (recordReceived m c)"
  "no_more c (c\<lparr>c_dtmf := ds\<rparr>)"
  by (simp_all add: no_more_def archives_def pending_rec_def recordSent_def recordReceived_def)

lemma no_more_stops: "no_more c (stopMedia hook drained c)" "no_more c (StopRecording hook c)"
  by (auto simp: no_more_def stopMedia_def StopRecording_def finalizeRecording_def archives_def pending_rec_def effect_def
      Let_def split: option.split)

lemma wake_media: "wake n c = Ret d \<Longrightarrow> no_more c d"
proof (induction n arbitrary: c)
  case (Suc n)
  then show ?case by (auto split: option.splits intro: no_more_trans [OF no_more_fields(2)])
qed simp

lemma end_once_media: "end_once now s r c = Ret d \<Longrightarrow> no_more c d"
  by (auto simp: end_once_def no_more_def archives_def pending_rec_def effect_def split: if_splits)

lemma setState_media:
  assumes "setState now s r c = Ret d"
  shows "no_more c d"
proof (cases "s = c_state c")
  case False
  let ?c2 = "if s = StateAnswered \<and> c_answeredAt (c\<lparr>c_state := s\<rparr>) = None
     then c\<lparr>c_state := s, c_answeredAt := Some now\<rparr> else c\<lparr>c_state := s\<rparr>"
  from assms False obtain e where e: "end_once now s r ?c2 = Ret e" "wake 4 e = Ret d"
    by (auto simp: setState_def Let_def)
  have "no_more c ?c2" by (simp add: no_more_def archives_def pending_rec_def)
  with end_once_media [OF e(1)] wake_media [OF e(2)] show ?thesis using no_more_trans by blast
qed (use assms in \<open>simp add: setState_def\<close>)

lemma apply_event_media: "apply_event e c = Ret d \<Longrightarrow> no_more c d"
  by (cases e) (auto dest: setState_media)

lemma meanwhile_media: "meanwhile evs c = Ret d \<Longrightarrow> no_more c d"
proof (induction evs arbitrary: c)
  case (Cons e evs)
  then obtain u where "apply_event e c = Ret u" "meanwhile evs u = Ret d" by (auto simp: meanwhile_def)
  with Cons.IH apply_event_media show ?case using no_more_trans by blast
qed simp

lemma send_then_media: "send_then op target rep c = Ret (x, d) \<Longrightarrow> no_more c d"
  by (auto simp: send_then_def dest!: setState_media meanwhile_media intro: no_more_trans split: option.splits)

lemma transact_media:
  assumes "transact rep req c = Ret d"
  shows "no_more c d"
proof -
  from assms obtain u where u: "meanwhile (do_meanwhile rep) (recordSent (newRequestMsg MsgSent (do_now rep) req) c) = Ret u"
    "d = u \<or> (\<exists>m. d = recordReceived m u)" by (auto simp: transact_def split: option.splits)
  from meanwhile_media [OF u(1)] have "no_more c u" using no_more_trans no_more_fields(5) by blast
  with u(2) no_more_fields(6) no_more_trans show ?thesis by blast
qed

lemma doInDialog_media: "doInDialog m ct b hs rep c = Ret (x, d) \<Longrightarrow> no_more c d"
  by (auto simp: doInDialog_def dest: transact_media split: if_splits option.splits)

lemma reinvite_media:
  assumes "reinvite op flag req rep e c = Ret (x, d)"
  shows "no_more c d"
proof -
  from assms obtain u where u: "transact rep req c = Ret u" by (auto simp: reinvite_def)
  have "d = u \<or> (\<exists>m. d = recordSent m u)" using assms u by (auto simp: reinvite_def split: option.splits if_splits)
  with transact_media [OF u] no_more_fields(5) no_more_trans show ?thesis by blast
qed

lemma Hangup_media:
  assumes "Hangup hook drained rep c = Ret (x, d)"
  shows "no_more c d"
proof (cases "c_state c = StateEnded")
  case False
  with assms obtain u where u: "meanwhile (dr_meanwhile rep) (stopMedia hook drained c) = Ret u" "no_more u d"
    by (auto simp: Hangup_def dest: setState_media split: option.splits)
  then show ?thesis using meanwhile_media [OF u(1)] no_more_stops(1) [of c hook drained] no_more_trans by blast
qed (use assms in \<open>simp add: Hangup_def\<close>)

lemma HangupWithHeaders_media:
  assumes "HangupWithHeaders hook drained evs hs rep c = Ret (x, d)"
  shows "no_more c d"
proof (cases "c_state c = StateAnswered")
  case True
  note h = assms [unfolded HangupWithHeaders_def, simplified True, simplified]
  obtain u where u: "meanwhile evs (stopMedia hook drained c) = Ret u"
    by (cases "meanwhile evs (stopMedia hook drained c)") (use h in simp_all)
  obtain y where y: "doInDialog ''BYE'' [] None hs rep u = Ret y"
    by (cases "doInDialog ''BYE'' [] None hs rep u") (use h u in simp_all)
  obtain res err v where p: "y = ((res, err), v)" by (metis prod.exhaust)
  have "\<exists>reason. setState (do_now rep) StateEnded reason v = Ret d"
    using h by (cases err) (simp_all add: u y p, blast+)
  then have "no_more v d" using setState_media by blast
  with meanwhile_media [OF u] doInDialog_media [OF y [unfolded p]] no_more_stops(1) [of c hook drained] no_more_trans
  show ?thesis by blast
qed (use assms in \<open>simp add: HangupWithHeaders_def\<close>)

lemma call_step_media: "call_step op c = Ret d \<Longrightarrow> no_more c d"
proof (cases op)
  case (OpAnswer codec rep)
  assume "call_step op c = Ret d"
  with OpAnswer obtain x where a: "Answer codec rep c = Ret (x, d)" by (auto simp: after_def)
  have step: "no_more u v" if "setState n StateAnswered [] u = Ret w" "v = w\<lparr>c_codec := codec\<rparr>" for u v w n
    using setState_media [OF that(1)] no_more_fields(3) [of w codec] that(2) no_more_trans by blast
  from a show ?thesis
    by (auto simp: Answer_def dest!: meanwhile_media intro: no_more_trans step split: if_splits option.splits)
next
  case (OpReject name n reason rep)
  assume "call_step op c = Ret d"
  with OpReject show ?thesis
    by (auto simp: after_def reject_def dest!: meanwhile_media setState_media intro: no_more_trans split: if_splits option.splits)
qed (auto simp: after_def Trying_def Ringing_def SendEarlyMedia183_def SendRefer_def SendReinvite_def SendReinviteWithSDP_def
      no_more_stops dest: send_then_media doInDialog_media reinvite_media Hangup_media HangupWithHeaders_media meanwhile_media
        apply_event_media split: if_splits option.splits)

text \<open>How many recordings were started on a path: the starts that returned no error.\<close>

definition starts_one :: "string \<Rightarrow> leg_op \<Rightarrow> call \<Rightarrow> nat" where
  "starts_one p op c =
     (case op of Record q io \<Rightarrow> if q = p \<and> fst (StartRecording q io c) = None then 1 else 0 | _ \<Rightarrow> 0)"

fun started :: "string \<Rightarrow> leg_op list \<Rightarrow> call \<Rightarrow> nat" where
  "started p [] c = 0"
| "started p (op # ops) c =
     starts_one p op c + (case leg_op_step op c of Panic \<Rightarrow> 0 | Ret d \<Rightarrow> started p ops d)"

lemma leg_op_balance:
  assumes "leg_op_step op c = Ret d"
  shows "archives p d + pending_rec p d \<le> archives p c + pending_rec p c + starts_one p op c"
proof (cases op)
  case (Record path io)
  with assms show ?thesis
    by (auto simp: starts_one_def StartRecording_def archives_def pending_rec_def effect_def split: option.splits)
next
  case (Signal op')
  with assms call_step_media [of op' c d] show ?thesis by (simp add: no_more_def starts_one_def)
next
  case (PlayWAV path io)
  with assms obtain r where "SendWAV path io c = Ret (r, d)" by (auto simp: after_def)
  with SendWAV_cases [of path io c] have "no_more c d" by auto
  with PlayWAV show ?thesis by (simp add: no_more_def starts_one_def)
next
  case (StopMedia hook drained)
  with assms no_more_stops(1) [of c hook drained] show ?thesis by (auto simp: no_more_def starts_one_def)
next
  case (Silence e)
  with assms have "no_more c d" by (auto simp: SendSilence_def split: option.splits)
  with Silence show ?thesis by (simp add: no_more_def starts_one_def)
qed (use assms in \<open>auto simp: starts_one_def split: prod.splits\<close>)

lemma leg_run_balance:
  "go_fold leg_op_step ops c = Ret d \<Longrightarrow>
     archives p d + pending_rec p d \<le> archives p c + pending_rec p c + started p ops c"
proof (induction ops arbitrary: c)
  case (Cons op ops)
  then obtain u where u: "leg_op_step op c = Ret u" "go_fold leg_op_step ops u = Ret d" by auto
  with Cons.IH [OF u(2)] leg_op_balance [OF u(1), of p] show ?case by simp
qed simp

lemma new_call_media: "archives p (new_call dir now req owner) = 0" "pending_rec p (new_call dir now req owner) = 0"
  by (simp_all add: new_call_def newInboundCall_def newOutboundCall_def blank_call_def recordSent_def recordReceived_def
      archives_def pending_rec_def effect_def Let_def)

section \<open>The square root\<close>

lemma newton_step_lower:
  fixes v g :: rat
  assumes "0 < v" and "0 < g"
  shows "0 < (g + v / g) / 2" and "v \<le> ((g + v / g) / 2)\<^sup>2" and "g / 2 \<le> (g + v / g) / 2"
proof -
  show "0 < (g + v / g) / 2" using assms by (simp add: add_pos_pos)
  show "g / 2 \<le> (g + v / g) / 2" using assms by simp
  have "0 \<le> ((g - v / g) / 2)\<^sup>2" by simp
  also have "((g - v / g) / 2)\<^sup>2 = ((g + v / g) / 2)\<^sup>2 - v"
    using assms by (simp add: power2_eq_square field_simps)
  finally show "v \<le> ((g + v / g) / 2)\<^sup>2" by simp
qed

lemma newton_bounds:
  fixes v g :: rat
  shows "0 < v \<Longrightarrow> 0 < g \<Longrightarrow> v \<le> (newton (Suc k) v g)\<^sup>2 \<and> g / 2 ^ Suc k \<le> newton (Suc k) v g"
proof (induction k arbitrary: g)
  case 0
  then show ?case using newton_step_lower [of v g] by simp
next
  case (Suc k)
  let ?h = "(g + v / g) / 2"
  from Suc.prems newton_step_lower [of v g] have h: "0 < ?h" "g / 2 \<le> ?h" by simp_all
  have "newton (Suc (Suc k)) v g = newton (Suc k) v ?h" by simp
  moreover from Suc.IH [OF Suc.prems(1) h(1)]
  have "v \<le> (newton (Suc k) v ?h)\<^sup>2" "?h / 2 ^ Suc k \<le> newton (Suc k) v ?h" by simp_all
  moreover have "g / 2 ^ Suc (Suc k) \<le> ?h / 2 ^ Suc k" using h(2) by (simp add: field_simps)
  ultimately show ?case by (metis order_trans)
qed

section \<open>Properties\<close>

text \<open>
  What goes over the wire for one digit, said of the fields of the packets: the events and their
  codes (RFC 4733), and packet \<open>i\<close> of the \<open>n + 1\<close> packets of a tone of \<open>n\<close> times 20 ms.
\<close>

definition dtmf_table :: "(char \<times> nat) list" where
  "dtmf_table = zip ''0123456789*#ABCDabcd'' [0, 1, 2, 3, 4, 5, 6, 7, 8, 9, 10, 11, 12, 13, 14, 15, 12, 13, 14, 15]"

definition tone_packet :: "nat \<Rightarrow> nat \<Rightarrow> nat \<Rightarrow> dtmf_packet \<Rightarrow> bool" where
  "tone_packet ev n i p \<longleftrightarrow>
     unat (dp_Event p) = ev \<and> dp_Volume p = 10 \<and> dp_PayloadType p = 101
     \<and> (dp_Marker p \<longleftrightarrow> i = 0) \<and> (dp_End p \<longleftrightarrow> i = n)
     \<and> unat (dp_Duration p) = 160 * min (i + 1) n mod 65536
     \<and> unat (dp_TsIncrement p) = (if i < n then 0 else 160 * n mod 65536 + 320)"

lemma dtmf_table_code: "map_of dtmf_table r = Some ev \<Longrightarrow> \<exists>w. dtmfEventCode r = Some w \<and> unat w = ev"
  unfolding dtmf_table_def
  by (simp split: if_splits) (auto simp: dtmfEventCode_def code_def Let_def)

lemma interim_tone: "i < n \<Longrightarrow> tone_packet (unat ev) n i (interim_packet ev i)"
  using unat_times_160 [of "i + 1"] by (simp add: tone_packet_def interim_packet_def min_def)

lemma end_tone: "0 < n \<Longrightarrow> tone_packet (unat ev) n n (end_packet ev n)"
  using unat_end_ts [of ev n] by (simp add: tone_packet_def) (simp add: end_packet_def totalDuration_def unat_times_160)

lemma digit_packets_tone:
  assumes "0 < n" "i \<le> n"
  shows "tone_packet (unat ev) n i (digit_packets n ev ! i)"
  using assms interim_tone end_tone [OF assms(1)] by (cases "i = n") (simp_all add: digit_packets_def nth_append)

lemma wrapped_tone: "409 < n \<Longrightarrow> 160 * n mod 65536 + 320 < 160 * n" for n :: nat
proof -
  assume "409 < n"
  then have "1 \<le> 160 * n div 65536" by (simp add: Suc_le_eq div_greater_zero_iff)
  then show ?thesis using div_mult_mod_eq [of "160 * n" 65536] by linarith
qed

lemma nth_concat_blocks:
  "(\<And>x. x \<in> set xs \<Longrightarrow> length (f x) = k) \<Longrightarrow> d < length xs \<Longrightarrow> i < k \<Longrightarrow>
     concat (map f xs) ! (d * k + i) = f (xs ! d) ! i"
  by (induction xs arbitrary: d) (auto simp: nth_append less_Suc_eq_0_disj add.assoc)

lemma length_concat_blocks: "(\<And>x. x \<in> set xs \<Longrightarrow> length (f x) = k) \<Longrightarrow> length (concat (map f xs)) = length xs * k"
  by (induction xs) auto

text \<open>
  C22 (functional): A digit string over \<open>0-9*#A-Da-d\<close> is sent as \<open>n + 1\<close> packets for each digit, in
  the order of the digits, where \<open>n\<close> is the number of 20 ms in a tone. Each carries the code of its
  digit, volume 10 and payload type 101. The first, and only that, has the marker bit; the last,
  and only that, the end bit. Packet \<open>i\<close> announces \<open>i + 1\<close> times 160 samples and leaves the timestamp
  where it is; the end packet announces the whole tone and advances the timestamp by the tone and
  a gap of 320 samples. Durations are 16 bits wide: they and the advance are taken modulo 65536,
  so that for tones of up to 409 packets (8.18 s) they are exact, and for longer ones the
  timestamp does not get past the tone.
\<close>

theorem DTMF_layout:
  assumes "c_state c = StateAnswered" and "40000000 \<le> perTone"
    and "\<forall>r\<in>set digits. map_of dtmf_table r \<noteq> None"
  defines "n \<equiv> nat (perTone div 20000000)"
  shows "\<exists>sent. SendDTMFWithDuration (Some (\<lambda>s p. None)) digits perTone c = (None, sent)
     \<and> length sent = length digits * (n + 1)
     \<and> (\<forall>d<length digits. \<forall>i\<le>n. tone_packet (the (map_of dtmf_table (digits ! d))) n i (sent ! (d * (n + 1) + i)))
     \<and> (\<forall>d<length digits. let adv = unat (dp_TsIncrement (sent ! (d * (n + 1) + n)))
          in if n \<le> 409 then adv = 160 * n + 320 else adv < 160 * n)"
proof -
  have n: "2 \<le> n" "n_packets perTone = n" using assms(2) by (auto simp: n_def n_packets_def Let_def)
  let ?f = "\<lambda>r. digit_packets n (the (dtmfEventCode r))"
  define sent where "sent = concat (map ?f digits)"
  have code: "\<exists>w. dtmfEventCode r = Some w \<and> unat w = the (map_of dtmf_table r)" if "r \<in> set digits" for r
    using assms(3) that dtmf_table_code by fastforce
  have len: "length (?f r) = n + 1" for r by (simp add: digit_packets_def)
  have "list_all (\<lambda>r. dtmfEventCode r \<noteq> None) digits" using code by (auto simp: list_all_iff)
  then have "SendDTMFWithDuration (Some (\<lambda>s p. None)) digits perTone c = (None, sent)"
    using assms(1,2) send_digits_ok by (simp add: SendDTMFWithDuration_def n(2) sent_def)
  moreover have "length sent = length digits * (n + 1)" unfolding sent_def using len by (rule length_concat_blocks)
  moreover have t: "tone_packet (the (map_of dtmf_table (digits ! d))) n i (sent ! (d * (n + 1) + i))"
    if d: "d < length digits" "i \<le> n" for d i
  proof -
    have "sent ! (d * (n + 1) + i) = ?f (digits ! d) ! i"
      unfolding sent_def using len d by (intro nth_concat_blocks) auto
    moreover obtain w where w: "dtmfEventCode (digits ! d) = Some w" "unat w = the (map_of dtmf_table (digits ! d))"
      using code [OF nth_mem [OF d(1)]] by blast
    ultimately show ?thesis using digit_packets_tone [of n i w] n(1) d(2) by simp
  qed
  moreover have "let adv = unat (dp_TsIncrement (sent ! (d * (n + 1) + n))) in if n \<le> 409 then adv = 160 * n + 320 else adv < 160 * n"
    if "d < length digits" for d
    using t [OF that order_refl] wrapped_tone [of n] by (simp add: tone_packet_def Let_def)
  ultimately show ?thesis by blast
qed

definition talking :: call where
  "talking = (blank_call Inbound 0 sample_invite ''t'')\<lparr>c_state := StateAnswered\<rparr>"

theorem DTMF_layout_witness:
  "\<exists>sent. SendDTMFWithDuration (Some (\<lambda>s p. None)) ''1#'' 40000000 talking = (None, sent) \<and> length sent = 6
     \<and> tone_packet 1 2 0 (sent ! 0) \<and> tone_packet 1 2 2 (sent ! 2) \<and> tone_packet 11 2 1 (sent ! 4)"
proof -
  have t: "c_state talking = StateAnswered" by (simp add: talking_def)
  have d: "\<forall>r\<in>set ''1#''. map_of dtmf_table r \<noteq> None" by (simp add: dtmf_table_def)
  have v: "map_of dtmf_table CHR ''1'' = Some 1" "map_of dtmf_table CHR ''#'' = Some 11" by (simp_all add: dtmf_table_def)
  have n: "nat (40000000 div 20000000) = 2" by simp
  from DTMF_layout [OF t order_refl d] obtain sent where
    s: "SendDTMFWithDuration (Some (\<lambda>s p. None)) ''1#'' 40000000 talking = (None, sent)"
      "length sent = length ''1#'' * (2 + 1)"
    and p: "\<forall>d<length ''1#''. \<forall>i\<le>2. tone_packet (the (map_of dtmf_table (''1#'' ! d))) 2 i (sent ! (d * (2 + 1) + i))"
    unfolding n by (elim exE conjE) (rule that)
  have "tone_packet 1 2 0 (sent ! 0)" "tone_packet 1 2 2 (sent ! 2)" "tone_packet 11 2 1 (sent ! 4)"
    using p [rule_format, of 0 0] p [rule_format, of 0 2] p [rule_format, of 1 1] v by (simp_all add: eval_nat_numeral)
  moreover have "length sent = 6" using s(2) by simp
  ultimately have "tone_packet 1 2 0 (sent ! 0)" "tone_packet 1 2 2 (sent ! 2)" "tone_packet 11 2 1 (sent ! 4)" "length sent = 6" .
  with s(1) show ?thesis by blast
qed

text \<open>
  Durations and timestamp advance are computed in 16 bits, that is modulo 65536; they
  are the intended ones exactly for tones of at most 409 packets (8.18 seconds), beyond which
  the end packet reports a tone shorter than its own interim packets.
\<close>

theorem DTMF_durations:
  "unat (dp_Duration (interim_packet ev i)) = 160 * (i + 1) mod 65536
   \<and> unat (dp_Duration (end_packet ev n)) = 160 * n mod 65536
   \<and> unat (dp_TsIncrement (end_packet ev n)) = 160 * n mod 65536 + 320
   \<and> (unat (dp_Duration (end_packet ev n)) = 160 * n \<longleftrightarrow> n \<le> 409)"
proof (intro conjI)
  show "unat (dp_Duration (interim_packet ev i)) = 160 * (i + 1) mod 65536"
    using unat_times_160 [of "i + 1"] by (simp add: interim_packet_def)
  show e: "unat (dp_Duration (end_packet ev n)) = 160 * n mod 65536"
    by (simp add: end_packet_def totalDuration_def unat_times_160)
  show "unat (dp_TsIncrement (end_packet ev n)) = 160 * n mod 65536 + 320" by (rule unat_end_ts)
  show "unat (dp_Duration (end_packet ev n)) = 160 * n \<longleftrightarrow> n \<le> 409"
  proof
    assume "unat (dp_Duration (end_packet ev n)) = 160 * n"
    then have "160 * n < 65536" using e pos_mod_bound [of 65536] by (metis mod_less_divisor zero_less_numeral)
    then show "n \<le> 409" by simp
  qed (simp add: e)
qed

text \<open>
  C27 (safety): Over any sequence of operations on a call of either direction, from its beginning,
  with whatever the stack answers and other goroutines do, a recording is handed to the archive at
  most as often as a recording was started on its path without an error; in particular
  \<open>StopRecording\<close>, a hangup and the goroutine of the end of the call, racing for the same recording,
  archive it once.
\<close>

theorem archived_at_most_once:
  assumes "go_fold leg_op_step ops (new_call dir now req owner) = Ret c"
  shows "archives p c + pending_rec p c \<le> started p ops (new_call dir now req owner)"
  using leg_run_balance [OF assms, of p] by (simp add: new_call_media)

text \<open>A call that is answered, recorded, and stopped three times: the archive gets its recording once.\<close>

definition recorded_run :: "leg_op list" where
  "recorded_run = [Signal (OpAnswer ''PCMU'' plain_reply),
     Record ''/r/caller.pcm'' \<lparr>rio_create = None, rio_reader = None, rio_decoder = None, rio_codec = ''PCMU''\<rparr>,
     Signal (OpStopRecording True), Signal (OpHangup True True plain_reply), StopMedia True True]"

theorem archived_at_most_once_witness:
  "\<exists>c. go_fold leg_op_step recorded_run (new_call Inbound 1 sample_invite ''t'') = Ret c
     \<and> archives ''/r/caller.pcm'' c = 1 \<and> started ''/r/caller.pcm'' recorded_run (new_call Inbound 1 sample_invite ''t'') = 1
     \<and> archives ''/r/caller.pcm'' c + pending_rec ''/r/caller.pcm'' c \<le> 1"
proof -
  let ?c = "new_call Inbound 1 sample_invite ''t''"
  have "case go_fold leg_op_step recorded_run ?c of Ret c \<Rightarrow> archives ''/r/caller.pcm'' c = 1 | Panic \<Rightarrow> False" by code_simp
  then obtain c where c: "go_fold leg_op_step recorded_run ?c = Ret c" "archives ''/r/caller.pcm'' c = 1"
    by (auto split: go.splits)
  have "started ''/r/caller.pcm'' recorded_run ?c = 1" by code_simp
  with archived_at_most_once [OF c(1), of "''/r/caller.pcm''"] c show ?thesis by auto
qed

text \<open>
  C7 (invariant): No sequence of operations on a call, inbound or outbound, signalling or media,
  whatever the stack answers and whatever other goroutines do to the call in between, panics, but
  for two: a re-INVITE to which the stack answers with neither a response nor an error, and the
  playback of a file whose WAV chunks reach past its end. Otherwise the call keeps its invariant:
  the done channel is closed exactly when the end has been stamped, the call has been unregistered
  once if so and not at all otherwise, and an ended or answered call carries its time.
\<close>

theorem call_never_panics:
  "case go_fold leg_op_step ops (new_call dir now req owner) of
     Ret c \<Rightarrow> call_ok c
   | Panic \<Rightarrow> \<exists>op\<in>set ops. op_faults op"
  using whole_leg.run_cases [OF call_ok_new_call, of ops dir now req owner] by auto

text \<open>Both faults do panic, on an answered call.\<close>

lemma faults_panic:
  assumes "call_ok c" "c_state c = StateAnswered"
  shows "op_faults (PlayWAV path io) \<Longrightarrow> leg_op_step (PlayWAV path io) c = Panic"
    and "c_direction c = Outbound \<Longrightarrow> do_contact rep = Some ct \<Longrightarrow> sdp \<noteq> [] \<Longrightarrow> \<not> reply_ok rep \<Longrightarrow>
      leg_op_step (Signal (OpReinviteSDP sdp hs rep e)) c = Panic"
proof -
  show "op_faults (PlayWAV path io) \<Longrightarrow> leg_op_step (PlayWAV path io) c = Panic"
    using assms by (auto simp: SendWAV_def Let_def split: sum.splits)
  assume "c_direction c = Outbound" "do_contact rep = Some ct" "sdp \<noteq> []" "\<not> reply_ok rep"
  moreover from transact_good [OF assms(1)] obtain d where "transact rep (reinvite_request (c_invite c) sdp hs) c = Ret d" by blast
  ultimately show "leg_op_step (Signal (OpReinviteSDP sdp hs rep e)) c = Panic"
    using assms(2) by (simp add: SendReinviteWithSDP_def reinvite_def reply_ok_def)
qed

text \<open>
  The square root behind \<open>RMS\<close> never falls below the true one, but it is at least a
  128th of its argument, since six halvings of \<open>v / 2\<close> do not get closer: for a mean square
  above 16384 the reported level grows like the mean square itself.
\<close>

theorem go_sqrt_overestimates:
  assumes "0 < v"
  shows "v \<le> (go_sqrt v)\<^sup>2 \<and> v / 128 \<le> go_sqrt v"
  using newton_bounds [OF assms, of "v / 2" 5] assms by (simp add: go_sqrt_def eval_nat_numeral)

theorem go_sqrt_overestimates_witness:
  "(100000000 :: rat) \<le> (go_sqrt 100000000)\<^sup>2 \<and> 781250 \<le> go_sqrt 100000000"
  using go_sqrt_overestimates [of 100000000] by simp

end
