(* ===== verification/Wav.thy ===== *)
theory Wav
  imports Recording Sip_Media
begin

text \<open>
  The WAV files that \<open>internal/recording\<close> and \<open>internal/tts\<close> write are read by \<open>internal/sip\<close>. The
  lemmas take the header apart and follow the reader through its two chunks.
\<close>

section \<open>Recordings written and read back\<close>

lemma header_length: "length (wav_header n) = 44"
  by (simp add: wav_header_def)

lemma slice_of: "xs = a @ b @ c \<Longrightarrow> length a = i \<Longrightarrow> length b = k \<Longrightarrow> take k (drop i xs) = b"
  by auto

definition fmt_body :: string where
  "fmt_body = le_bytes 2 1 @ le_bytes 2 1 @ le_bytes 4 8000 @ le_bytes 4 16000 @ le_bytes 2 2 @ le_bytes 2 16"

lemma header_split:
  "wav_header n = ''RIFF'' @ le_bytes 4 (36 + n) @ ''WAVE'' @ ''fmt '' @ le_bytes 4 16 @ fmt_body @ ''data'' @ le_bytes 4 n"
  by (simp add: wav_header_def fmt_body_def)

lemma header_parts:
  shows "take 4 (wav_header n @ x) = ''RIFF''"
    and "take 4 (drop 8 (wav_header n @ x)) = ''WAVE''"
    and "take 4 (drop 12 (wav_header n @ x)) = ''fmt ''"
    and "take 4 (drop 16 (wav_header n @ x)) = le_bytes 4 16"
    and "take 16 (drop 20 (wav_header n @ x)) = fmt_body"
    and "take 4 (drop 36 (wav_header n @ x)) = ''data''"
    and "take 4 (drop 40 (wav_header n @ x)) = le_bytes 4 n"
    and "drop 44 (wav_header n @ x) = x"
proof -
  let ?z = "le_bytes 4 (36 + n)"
  show "take 4 (wav_header n @ x) = ''RIFF''" by (simp add: header_split)
  show "take 4 (drop 8 (wav_header n @ x)) = ''WAVE''"
    by (rule slice_of [of _ "''RIFF'' @ ?z" _ "''fmt '' @ le_bytes 4 16 @ fmt_body @ ''data'' @ le_bytes 4 n @ x"])
      (simp_all add: header_split)
  show "take 4 (drop 12 (wav_header n @ x)) = ''fmt ''"
    by (rule slice_of [of _ "''RIFF'' @ ?z @ ''WAVE''" _ "le_bytes 4 16 @ fmt_body @ ''data'' @ le_bytes 4 n @ x"])
      (simp_all add: header_split)
  show "take 4 (drop 16 (wav_header n @ x)) = le_bytes 4 16"
    by (rule slice_of [of _ "''RIFF'' @ ?z @ ''WAVE'' @ ''fmt ''" _ "fmt_body @ ''data'' @ le_bytes 4 n @ x"])
      (simp_all add: header_split)
  show "take 16 (drop 20 (wav_header n @ x)) = fmt_body"
    by (rule slice_of [of _ "''RIFF'' @ ?z @ ''WAVE'' @ ''fmt '' @ le_bytes 4 16" _ "''data'' @ le_bytes 4 n @ x"])
      (simp_all add: header_split, simp add: fmt_body_def)
  show "take 4 (drop 36 (wav_header n @ x)) = ''data''"
    by (rule slice_of [of _ "''RIFF'' @ ?z @ ''WAVE'' @ ''fmt '' @ le_bytes 4 16 @ fmt_body" _ "le_bytes 4 n @ x"])
      (simp_all add: header_split, simp add: fmt_body_def)
  show "take 4 (drop 40 (wav_header n @ x)) = le_bytes 4 n"
    by (rule slice_of [of _ "''RIFF'' @ ?z @ ''WAVE'' @ ''fmt '' @ le_bytes 4 16 @ fmt_body @ ''data''" _ x])
      (simp_all add: header_split, simp add: fmt_body_def)
  show "drop 44 (wav_header n @ x) = x" by (simp add: header_length)
qed

lemma fmt_body_ok:
  "wav_fmt fmt_body 16 v = Inr (v\<lparr>wv_channels := 1, wv_rate := 8000, wv_bits := 16, wv_haveFmt := True\<rparr>)"
proof -
  have "take 2 fmt_body = le_bytes 2 1" "take 2 (drop 2 fmt_body) = le_bytes 2 1" "take 4 (drop 4 fmt_body) = le_bytes 4 8000"
    "take 2 (drop 14 fmt_body) = le_bytes 2 16"
    by (simp_all add: fmt_body_def)
  then show ?thesis by (simp add: wav_fmt_def)
qed

text \<open>The reader on a file with the header: its chunk loop, and then the audio or the panic.\<close>

lemma wav_chunks_header:
  assumes "length pcm \<le> n" and "n < 2 ^ 32"
  shows "wav_chunks (wav_header n @ pcm @ replicate spare (byte_of 0)) (44 + length pcm) 12
       \<lparr>wv_haveFmt = False, wv_channels = 0, wv_rate = 0, wv_bits = 0, wv_data = None\<rparr>
     = (if n \<le> length pcm + spare
        then Ret (Inr \<lparr>wv_haveFmt = True, wv_channels = 1, wv_rate = 8000, wv_bits = 16,
                       wv_data = Some (pcm @ replicate (n - length pcm) (byte_of 0))\<rparr>)
        else Panic)"
proof -
  let ?zeros = "replicate spare (byte_of 0)" and ?len = "44 + length pcm"
  let ?v0 = "\<lparr>wv_haveFmt = False, wv_channels = 0, wv_rate = 0, wv_bits = 0, wv_data = None\<rparr>"
  let ?v1 = "?v0\<lparr>wv_channels := 1, wv_rate := 8000, wv_bits := 16, wv_haveFmt := True\<rparr>"
  let ?d = "pcm @ replicate (n - length pcm) (byte_of 0)"
  define b where "b = wav_header n @ pcm @ ?zeros"
  have parts: "take 4 (drop 12 b) = ''fmt ''" "take 4 (drop 16 b) = le_bytes 4 16" "take 16 (drop 20 b) = fmt_body"
    "take 4 (drop 36 b) = ''data''" "take 4 (drop 40 b) = le_bytes 4 n" "drop 44 b = pcm @ ?zeros"
    by (simp_all only: b_def header_parts)
  have n: "le_val (le_bytes 4 n) = n" "le_val (le_bytes 4 16) = 16" using assms(2) by simp_all
  have lb: "length b = ?len + spare" by (simp add: b_def header_length)
  have last: "wav_chunks b ?len j v = Ret (Inr v)" if "?len < j + 8" for j v
    using that by (subst wav_chunks.simps) simp
  have s16: "go_slice b 20 36 = Ret fmt_body" using lb parts(3) by (simp add: go_slice_def)
  have fmt: "wav_chunks b ?len 12 ?v0 = wav_chunks b ?len 36 ?v1"
    by (subst wav_chunks.simps) (simp add: parts n s16 fmt_body_ok Let_def)
  have "go_slice b 44 (int (44 + n)) = (if n \<le> length pcm + spare then Ret ?d else Panic)"
    using lb parts(6) assms(1) by (simp add: go_slice_def)
  then have dat: "wav_chunks b ?len 36 ?v1 =
      (if n \<le> length pcm + spare then Ret (Inr (?v1\<lparr>wv_data := Some ?d\<rparr>)) else Panic)"
    using last assms(1) by (subst wav_chunks.simps) (simp add: parts n Let_def)
  from fmt dat show ?thesis by (simp add: b_def)
qed

lemma readTelephonyWAV_header:
  "readTelephonyWAV (wav_header n @ pcm) spare =
     go_bind (wav_chunks (wav_header n @ pcm @ replicate spare (byte_of 0)) (44 + length pcm) 12
       \<lparr>wv_haveFmt = False, wv_channels = 0, wv_rate = 0, wv_bits = 0, wv_data = None\<rparr>)
        (\<lambda>res. case res of
            Inl err \<Rightarrow> Ret (Inl err)
          | Inr v \<Rightarrow>
              if \<not> wv_haveFmt v then Ret (Inl ''fmt chunk not found'')
              else (case wv_data v of
                 None \<Rightarrow> Ret (Inl ''data chunk not found'')
               | Some d \<Rightarrow>
                   if wv_channels v \<noteq> 1 \<or> wv_rate v \<noteq> 8000 \<or> wv_bits v \<noteq> 16
                   then Ret (Inl (''WAV must be mono 8000 Hz 16-bit; got '' @ show_nat (wv_channels v) @ '' ch / ''
                                  @ show_nat (wv_rate v) @ '' Hz / '' @ show_nat (wv_bits v) @ ''-bit''))
                   else Ret (Inr d)))"
  using header_parts(1,2) [of n pcm] by (simp only: readTelephonyWAV_def) (simp add: header_length)

text \<open>
  C17 (roundtrip): what the WAV reader makes of a telephony header that announces \<open>n\<close> bytes, in
  front of at most that many: the audio itself when they are all there; audio padded with the
  zeros of the spare capacity when a few are missing; and a panic on the slice when more are
  missing than the buffer has room for.
\<close>

theorem readTelephonyWAV_of_header:
  assumes "length pcm \<le> n" and "n < 2 ^ 32"
  shows "readTelephonyWAV (wav_header n @ pcm) spare =
     (if n \<le> length pcm + spare then Ret (Inr (pcm @ replicate (n - length pcm) (byte_of 0))) else Panic)"
  by (simp add: readTelephonyWAV_header wav_chunks_header [OF assms])

theorem readTelephonyWAV_of_header_witness:
  "readTelephonyWAV (wav_header 4 @ ''abcd'') 1 = Ret (Inr ''abcd'')
   \<and> readTelephonyWAV (wav_header 5 @ ''abcd'') 1 = Ret (Inr (''abcd'' @ [byte_of 0]))
   \<and> readTelephonyWAV (wav_header 9 @ ''abcd'') 1 = Panic"
  using readTelephonyWAV_of_header [of "''abcd''" 4 1] readTelephonyWAV_of_header [of "''abcd''" 5 1]
    readTelephonyWAV_of_header [of "''abcd''" 9 1] by simp

end
