(* ===== verification/Recording_Suite.thy ===== *)
theory Recording_Suite
  imports Wav
begin

text \<open>
  From the audio a call receives to the archive of a whole run: the reads of \<open>pumpAudio\<close>, the
  file it fills, \<open>Archiver.Archive\<close> for the legs of many tests one after the other, and the WAV
  reader of \<open>internal/sip\<close>. The lemmas keep every earlier recording in place while later ones
  clear directories and reserve names.
\<close>

section \<open>What a call hears\<close>

fun heard :: "pump_read list \<Rightarrow> string" where
  "heard [] = []"
| "heard (r # rs) =
     (if pr_cancelled r then [] else pr_bytes r @ (if pr_err r = None then heard rs else []))"

lemma pump_file: "pm_file (pumpAudio rs st) = pm_file st @ heard rs"
  by (induction rs arbitrary: st) (auto simp: Let_def split: option.split)

lemma pump_bytes: "PCMBytesIn (pm_media (pumpAudio rs st)) = PCMBytesIn (pm_media st) + int (length (heard rs))"
  by (induction rs arbitrary: st) (auto simp: Let_def PCMBytesIn_def account_def split: option.split)

section \<open>A run of recordings\<close>

record rec_job =
  rj_test :: string
  rj_role :: string
  rj_pcmPath :: string
  rj_reads :: "pump_read list"

text \<open>The file as the pump left it, and a disk that works.\<close>

definition job_pcm :: "rec_job \<Rightarrow> string" where
  "job_pcm j = pm_file (pumpAudio (rj_reads j) \<lparr>pm_file = [], pm_media = no_media, pm_err = None\<rparr>)"

definition job_io :: "rec_job \<Rightarrow> archive_io" where
  "job_io j = \<lparr>aio_read = FileBytes (job_pcm j), aio_mkdir = None, aio_write = None\<rparr>"

fun archive_jobs :: "rec_job list \<Rightarrow> archiver \<times> files \<Rightarrow> (string + string) list \<times> archiver \<times> files" where
  "archive_jobs [] st = ([], st)"
| "archive_jobs (j # js) st =
     (let (res, st1) = Recording.Archive (rj_test j) (rj_role j) (rj_pcmPath j) (job_io j) st;
          (rest, st2) = archive_jobs js st1
      in (res # rest, st2))"

definition job_ok :: "rec_job \<Rightarrow> bool" where
  "job_ok j \<longleftrightarrow> rj_test j \<noteq> [] \<and> rj_role j \<noteq> [] \<and> rj_pcmPath j \<noteq> [] \<and> heard (rj_reads j) \<noteq> []
     \<and> length (heard (rj_reads j)) < 2 ^ 32"

definition names_ok :: "rec_job list \<Rightarrow> bool" where
  "names_ok js \<longleftrightarrow> inj_on sanitize (rj_test ` set js)
     \<and> (\<forall>t. no_numbered_role (map rj_role (filter (\<lambda>j. rj_test j = t) js)))"

lemma job_pcm_heard [simp]: "job_pcm j = heard (rj_reads j)"
  by (simp add: job_pcm_def pump_file)

section \<open>Paths\<close>

definition wav_path :: "string \<Rightarrow> string \<Rightarrow> string \<Rightarrow> string" where
  "wav_path base test name = base @ ''/'' @ sanitize test @ ''/'' @ name @ ''.wav''"

lemma sanitize_no_slash: "CHR ''/'' \<notin> set (sanitize s)"
  using sanitize_clean [of s] safe_not_slash by (auto simp: clean_name_def)

lemma slash_split: "CHR ''/'' \<notin> set a \<Longrightarrow> CHR ''/'' \<notin> set b \<Longrightarrow> a @ CHR ''/'' # x = b @ CHR ''/'' # y \<Longrightarrow> a = b \<and> x = y"
proof (induction a arbitrary: b)
  case Nil
  then show ?case by (cases b) auto
next
  case (Cons c a)
  then show ?case by (cases b) auto
qed

lemma wav_path_eq:
  "wav_path base t n = wav_path base t' n' \<longleftrightarrow> sanitize t = sanitize t' \<and> n = n'"
proof
  assume "wav_path base t n = wav_path base t' n'"
  then have "sanitize t @ CHR ''/'' # n @ ''.wav'' = sanitize t' @ CHR ''/'' # n' @ ''.wav''" by (simp add: wav_path_def)
  from slash_split [OF sanitize_no_slash sanitize_no_slash this] show "sanitize t = sanitize t' \<and> n = n'" by simp
qed (simp add: wav_path_def)

text \<open>Clearing the directory of one test leaves the files of the tests with another directory.\<close>

lemma remove_all_other:
  assumes "sanitize t \<noteq> sanitize t'"
  shows "remove_all (base @ ''/'' @ sanitize t') fs (wav_path base t n) = fs (wav_path base t n)"
proof -
  have "\<not> has_prefix (wav_path base t n) ((base @ ''/'' @ sanitize t') @ ''/'')"
  proof
    assume "has_prefix (wav_path base t n) ((base @ ''/'' @ sanitize t') @ ''/'')"
    then obtain x where "wav_path base t n = ((base @ ''/'' @ sanitize t') @ ''/'') @ x" using has_prefixE by blast
    then have "sanitize t @ CHR ''/'' # n @ ''.wav'' = sanitize t' @ CHR ''/'' # x" by (simp add: wav_path_def)
    from slash_split [OF sanitize_no_slash sanitize_no_slash this] assms show False by simp
  qed
  moreover have "wav_path base t n \<noteq> base @ ''/'' @ sanitize t'"
  proof
    assume "wav_path base t n = base @ ''/'' @ sanitize t'"
    then have "sanitize t' = sanitize t @ CHR ''/'' # n @ ''.wav''" by (simp add: wav_path_def)
    then show False using sanitize_no_slash [of t'] by auto
  qed
  ultimately show ?thesis by (simp add: remove_all_def)
qed

section \<open>Earlier recordings stay\<close>

text \<open>
  A recording that is in place: its file, under a name whose number is used up, in a directory
  that is not cleared again.
\<close>

definition kept :: "archiver \<times> files \<Rightarrow> rec_job \<Rightarrow> string \<Rightarrow> bool" where
  "kept st j out \<longleftrightarrow> (\<exists>k. out = wav_path (ar_baseDir (fst st)) (rj_test j) (numbered (sanitize (rj_role j), k))
     \<and> k < ar_usedRole (fst st) (rj_test j) (sanitize (rj_role j)))
     \<and> ar_clearedTest (fst st) (rj_test j) \<and> snd st out = Some (wrapWAV (heard (rj_reads j)))"

definition compatible :: "rec_job \<Rightarrow> rec_job \<Rightarrow> bool" where
  "compatible j j' \<longleftrightarrow> (if rj_test j = rj_test j'
     then no_numbered_role [rj_role j, rj_role j'] else sanitize (rj_test j) \<noteq> sanitize (rj_test j'))"

lemma Archive_job:
  assumes "job_ok j"
  shows "Recording.Archive (rj_test j) (rj_role j) (rj_pcmPath j) (job_io j) (a, fs) =
    (let out = wav_path (ar_baseDir a) (rj_test j) (numbered (sanitize (rj_role j), ar_usedRole a (rj_test j) (sanitize (rj_role j))))
     in (Inr out,
         a\<lparr>ar_clearedTest := (ar_clearedTest a)(rj_test j := True),
           ar_usedRole := (ar_usedRole a)(rj_test j := (ar_usedRole a (rj_test j))
             (sanitize (rj_role j) := ar_usedRole a (rj_test j) (sanitize (rj_role j)) + 1))\<rparr>,
         (if ar_clearedTest a (rj_test j) then fs else remove_all (ar_baseDir a @ ''/'' @ sanitize (rj_test j)) fs)
           (out \<mapsto> wrapWAV (heard (rj_reads j)))))"
  using assms by (simp add: Recording.Archive_def job_io_def job_ok_def reserve_def Let_def numbered_def wav_path_def)

lemma numbered_apart:
  assumes "no_numbered_role [r, r']" "numbered (sanitize r, k) = numbered (sanitize r', k')"
  shows "sanitize r = sanitize r' \<and> k = k'"
proof -
  have "inj_on numbered ({sanitize r, sanitize r'} \<times> UNIV)"
    using assms(1) by (intro numbered_inj) (simp add: no_numbered_role_def)
  from inj_onD [OF this assms(2)] show ?thesis by simp
qed

lemma Archive_keeps:
  assumes "job_ok j'" "kept (a, fs) j out" "compatible j j'"
    and "Recording.Archive (rj_test j') (rj_role j') (rj_pcmPath j') (job_io j') (a, fs) = (Inr out', st')"
  shows "kept st' j out \<and> out' \<noteq> out"
proof -
  let ?t = "rj_test j" and ?t' = "rj_test j'" and ?r = "sanitize (rj_role j)" and ?r' = "sanitize (rj_role j')"
  let ?n = "ar_usedRole a ?t' ?r'"
  from assms(2) obtain k where k: "out = wav_path (ar_baseDir a) ?t (numbered (?r, k))" "k < ar_usedRole a ?t ?r"
    and c: "ar_clearedTest a ?t" and f: "fs out = Some (wrapWAV (heard (rj_reads j)))"
    by (auto simp: kept_def)
  from assms(4) have o: "out' = wav_path (ar_baseDir a) ?t' (numbered (?r', ?n))"
    by (simp add: Archive_job [OF assms(1)] Let_def)
  have ne: "out' \<noteq> out"
  proof
    assume "out' = out"
    then have e: "sanitize ?t = sanitize ?t'" "numbered (?r, k) = numbered (?r', ?n)" by (simp_all add: o k wav_path_eq)
    then have t: "?t = ?t'" "no_numbered_role [rj_role j, rj_role j']" using assms(3) by (auto simp: compatible_def split: if_splits)
    from numbered_apart [OF t(2) e(2)] k(2) t(1) show False by simp
  qed
  have "remove_all (ar_baseDir a @ ''/'' @ sanitize ?t') fs out = fs out" if "\<not> ar_clearedTest a ?t'"
  proof -
    from that c have "?t \<noteq> ?t'" by auto
    then have "sanitize ?t \<noteq> sanitize ?t'" using assms(3) by (simp add: compatible_def)
    from remove_all_other [OF this] show ?thesis by (simp add: k(1))
  qed
  then have "snd st' out = fs out" using assms(4) ne by (auto simp: Archive_job [OF assms(1)] Let_def)
  moreover have "ar_clearedTest (fst st') ?t" "k < ar_usedRole (fst st') ?t ?r" "ar_baseDir (fst st') = ar_baseDir a"
    using assms(4) c k(2) by (auto simp: Archive_job [OF assms(1)] Let_def)
  ultimately show ?thesis using k(1) f ne by (auto simp: kept_def)
qed

lemma Archive_new:
  assumes "job_ok j"
  shows "\<exists>out st'. Recording.Archive (rj_test j) (rj_role j) (rj_pcmPath j) (job_io j) st = (Inr out, st') \<and> kept st' j out"
  using assms by (cases st) (auto simp: Archive_job Let_def kept_def)

lemma archive_jobs_run:
  "list_all job_ok js \<Longrightarrow> sorted_wrt compatible js \<Longrightarrow> \<forall>(d, p)\<in>ds. kept st d p \<and> (\<forall>j\<in>set js. compatible d j) \<Longrightarrow>
     \<exists>outs st'. archive_jobs js st = (map Inr outs, st') \<and> list_all2 (kept st') js outs \<and> distinct outs
       \<and> (\<forall>(d, p)\<in>ds. kept st' d p \<and> p \<notin> set outs)"
proof (induction js arbitrary: st ds)
  case (Cons j js)
  have j: "job_ok j" and js: "list_all job_ok js" "sorted_wrt compatible js" "\<forall>j'\<in>set js. compatible j j'"
    using Cons.prems(1,2) by auto
  from Archive_new [OF j, of st] obtain out st1 where
    a: "Recording.Archive (rj_test j) (rj_role j) (rj_pcmPath j) (job_io j) st = (Inr out, st1)" "kept st1 j out" by blast
  have d1: "\<forall>(d, p)\<in>ds. kept st1 d p \<and> out \<noteq> p"
  proof (clarify, intro conjI)
    fix d p
    assume "(d, p) \<in> ds"
    then have dp: "kept st d p" "compatible d j" using Cons.prems(3) by auto
    obtain b fs where "st = (b, fs)" by (cases st)
    with Archive_keeps [OF j _ dp(2), of b fs p out st1] dp(1) a(1) show "kept st1 d p" "out \<noteq> p" by auto
  qed
  have "\<forall>(d, p)\<in>insert (j, out) ds. kept st1 d p \<and> (\<forall>j'\<in>set js. compatible d j')"
    using d1 a(2) js(3) Cons.prems(3) by auto
  from Cons.IH [OF js(1,2) this] obtain outs st' where
    s: "archive_jobs js st1 = (map Inr outs, st')" "list_all2 (kept st') js outs" "distinct outs"
      "\<forall>(d, p)\<in>insert (j, out) ds. kept st' d p \<and> p \<notin> set outs" by blast
  have "archive_jobs (j # js) st = (map Inr (out # outs), st')" by (simp add: a(1) s(1))
  moreover have "list_all2 (kept st') (j # js) (out # outs)" "distinct (out # outs)" using s by auto
  moreover have "\<forall>(d, p)\<in>ds. kept st' d p \<and> p \<notin> set (out # outs)" using s(4) d1 by auto
  ultimately show ?case by blast
qed auto

lemma no_numbered_role_mono: "no_numbered_role rs \<Longrightarrow> set rs' \<subseteq> set rs \<Longrightarrow> no_numbered_role rs'"
  unfolding no_numbered_role_def by blast

lemma names_compatible:
  assumes "names_ok js" "j \<in> set js" "j' \<in> set js"
  shows "compatible j j'"
proof (cases "rj_test j = rj_test j'")
  case True
  from assms(1) have "no_numbered_role (map rj_role (filter (\<lambda>i. rj_test i = rj_test j) js))" by (simp add: names_ok_def)
  from no_numbered_role_mono [OF this, of "[rj_role j, rj_role j']"] True assms(2,3) show ?thesis
    by (auto simp: compatible_def)
next
  case False
  then show ?thesis using assms inj_onD [of sanitize "rj_test ` set js" "rj_test j" "rj_test j'"]
    by (auto simp: names_ok_def compatible_def)
qed

lemma names_sorted: "names_ok js \<Longrightarrow> sorted_wrt compatible js"
  using names_compatible by (intro sorted_wrt_iff_nth_less [THEN iffD2]) (meson nth_mem order_less_trans)

lemma wrapped_read: "length pcm < 2 ^ 32 \<Longrightarrow> readTelephonyWAV (wrapWAV pcm) spare = Ret (Inr pcm)"
  using wav_chunks_header [of pcm "length pcm" spare] by (simp add: wrapWAV_def readTelephonyWAV_header)

section \<open>Without conditions on the names\<close>

text \<open>
  Leg \<open>j\<close> wipes the file of leg \<open>i\<close> when it is the first of its test and its test has the directory
  of that of \<open>i\<close>. Leg \<open>i\<close> stays intact when no later leg gets its path or wipes it, and is lost when
  some later leg wipes it and none from then on gets its path.
\<close>

definition wipes :: "rec_job list \<Rightarrow> nat \<Rightarrow> nat \<Rightarrow> bool" where
  "wipes js j i \<longleftrightarrow> rj_test (js ! j) \<notin> rj_test ` set (take j js) \<and> sanitize (rj_test (js ! j)) = sanitize (rj_test (js ! i))"

definition intact :: "rec_job list \<Rightarrow> string list \<Rightarrow> nat \<Rightarrow> bool" where
  "intact js outs i \<longleftrightarrow> (\<forall>j<length js. i < j \<longrightarrow> outs ! j \<noteq> outs ! i \<and> \<not> wipes js j i)"

definition lost :: "rec_job list \<Rightarrow> string list \<Rightarrow> nat \<Rightarrow> bool" where
  "lost js outs i \<longleftrightarrow> (\<exists>j<length js. i < j \<and> wipes js j i \<and> (\<forall>k<length js. j \<le> k \<longrightarrow> outs ! k \<noteq> outs ! i))"

lemma wipes_snoc: "j < length js \<Longrightarrow> i < length js \<Longrightarrow> wipes (js @ [x]) j i = wipes js j i"
  by (simp add: wipes_def nth_append)

lemma wipes_last:
  "i < length js \<Longrightarrow> wipes (js @ [x]) (length js) i \<longleftrightarrow>
     rj_test x \<notin> rj_test ` set js \<and> sanitize (rj_test x) = sanitize (rj_test (js ! i))"
  by (simp add: wipes_def nth_append)

lemma intact_snoc:
  assumes "length outs = length js" "i < length js"
  shows "intact (js @ [x]) (outs @ [out]) i \<longleftrightarrow> intact js outs i \<and> out \<noteq> outs ! i \<and> \<not> wipes (js @ [x]) (length js) i"
  using assms by (auto simp: intact_def less_Suc_eq nth_append wipes_snoc)

lemma lost_snoc:
  assumes "length outs = length js" "i < length js"
  shows "lost (js @ [x]) (outs @ [out]) i \<longleftrightarrow> out \<noteq> outs ! i \<and> (lost js outs i \<or> wipes (js @ [x]) (length js) i)"
  using assms by (auto simp: lost_def less_Suc_eq nth_append wipes_snoc)

lemma archive_jobs_append:
  "archive_jobs (xs @ ys) st = (let (r, u) = archive_jobs xs st; (r', v) = archive_jobs ys u in (r @ r', v))"
  by (induction xs arbitrary: st) (auto simp: Let_def split: prod.splits)

lemma remove_all_wav: "remove_all (base @ ''/'' @ sanitize t') fs (wav_path base t n) =
    (if sanitize t = sanitize t' then None else fs (wav_path base t n))"
proof (cases "sanitize t = sanitize t'")
  case True
  have "wav_path base t n = (base @ ''/'' @ sanitize t') @ ''/'' @ (n @ ''.wav'')" by (simp add: wav_path_def True)
  then have "has_prefix (wav_path base t n) ((base @ ''/'' @ sanitize t') @ ''/'')" by (simp add: has_prefix_iff)
  with True show ?thesis by (simp add: remove_all_def)
qed (use remove_all_other in simp)

text \<open>The archive after any legs, one leg at a time.\<close>

lemma archive_jobs_exact:
  "list_all job_ok js \<Longrightarrow>
     \<exists>outs a fs. archive_jobs js (archiver_New base, old) = (map Inr outs, a, fs) \<and> length outs = length js
       \<and> ar_baseDir a = base \<and> (\<forall>t. ar_clearedTest a t \<longleftrightarrow> t \<in> rj_test ` set js)
       \<and> (\<forall>i<length js. (\<exists>n. outs ! i = wav_path base (rj_test (js ! i)) n)
            \<and> (intact js outs i \<longrightarrow> fs (outs ! i) = Some (wrapWAV (heard (rj_reads (js ! i)))))
            \<and> (lost js outs i \<longrightarrow> fs (outs ! i) = None))"
proof (induction js rule: rev_induct)
  case Nil
  then show ?case by (simp add: archiver_New_def)
next
  case (snoc x js)
  then obtain outs a fs where r: "archive_jobs js (archiver_New base, old) = (map Inr outs, a, fs)" "length outs = length js"
    "ar_baseDir a = base" "\<And>t. ar_clearedTest a t \<longleftrightarrow> t \<in> rj_test ` set js"
    and f: "\<And>i. i < length js \<Longrightarrow> \<exists>n. outs ! i = wav_path base (rj_test (js ! i)) n"
      "\<And>i. i < length js \<Longrightarrow> intact js outs i \<Longrightarrow> fs (outs ! i) = Some (wrapWAV (heard (rj_reads (js ! i))))"
      "\<And>i. i < length js \<Longrightarrow> lost js outs i \<Longrightarrow> fs (outs ! i) = None" by auto
  have x: "job_ok x" using snoc.prems by simp
  let ?k = "ar_usedRole a (rj_test x) (sanitize (rj_role x))"
  let ?out = "wav_path base (rj_test x) (numbered (sanitize (rj_role x), ?k))"
  let ?fs = "(if ar_clearedTest a (rj_test x) then fs else remove_all (base @ ''/'' @ sanitize (rj_test x)) fs)
      (?out \<mapsto> wrapWAV (heard (rj_reads x)))"
  let ?a = "a\<lparr>ar_clearedTest := (ar_clearedTest a)(rj_test x := True),
     ar_usedRole := (ar_usedRole a)(rj_test x := (ar_usedRole a (rj_test x))(sanitize (rj_role x) := ?k + 1))\<rparr>"
  have "Recording.Archive (rj_test x) (rj_role x) (rj_pcmPath x) (job_io x) (a, fs) = (Inr ?out, ?a, ?fs)"
    using Archive_job [OF x, of a fs] r(3) by (simp add: Let_def)
  then have run: "archive_jobs (js @ [x]) (archiver_New base, old) = (map Inr (outs @ [?out]), ?a, ?fs)"
    by (simp add: archive_jobs_append r(1))
  have old: "?fs (outs ! i) = (if wipes (js @ [x]) (length js) i then None else fs (outs ! i))"
    if i: "i < length js" "?out \<noteq> outs ! i" for i
  proof -
    from f(1) [OF i(1)] obtain n where n: "outs ! i = wav_path base (rj_test (js ! i)) n" by blast
    have "?fs (outs ! i) = (if ar_clearedTest a (rj_test x) then fs else remove_all (base @ ''/'' @ sanitize (rj_test x)) fs) (outs ! i)"
      using i(2) by simp
    also have "\<dots> = (if wipes (js @ [x]) (length js) i then None else fs (outs ! i))"
      by (simp add: wipes_last [OF i(1)] r(4) n remove_all_wav [unfolded append.simps] eq_commute)
    finally show ?thesis .
  qed
  have "(\<exists>n. (outs @ [?out]) ! i = wav_path base (rj_test ((js @ [x]) ! i)) n)
      \<and> (intact (js @ [x]) (outs @ [?out]) i \<longrightarrow> ?fs ((outs @ [?out]) ! i) = Some (wrapWAV (heard (rj_reads ((js @ [x]) ! i)))))
      \<and> (lost (js @ [x]) (outs @ [?out]) i \<longrightarrow> ?fs ((outs @ [?out]) ! i) = None)" if "i < length (js @ [x])" for i
  proof (cases "i = length js")
    case True
    then show ?thesis using r(2) by (auto simp: lost_def nth_append)
  next
    case False
    with that have i: "i < length js" by simp
    then have nth: "(outs @ [?out]) ! i = outs ! i" "(js @ [x]) ! i = js ! i" using r(2) by (simp_all add: nth_append)
    show ?thesis unfolding nth intact_snoc [OF r(2) i] lost_snoc [OF r(2) i]
      using f [OF i] old [OF i] by (auto simp del: fun_upd_apply)
  qed
  moreover have "\<forall>t. ar_clearedTest ?a t \<longleftrightarrow> t \<in> rj_test ` set (js @ [x])" using r(4) by auto
  ultimately show ?case using run r(2,3)
    by (intro exI [of _ "outs @ [?out]"] exI [of _ ?a] exI [of _ ?fs]) (simp del: fun_upd_apply)
qed

text \<open>
  C18 (roundtrip): What the archive of a run holds. For any number of legs of any tests, archived in
  any order into a directory that may hold old files, every archiving returns a path, and at the
  end the file at the path of a leg reads back as exactly the audio that leg received, unless a
  later leg got the same path or was the first of another test with the same directory name. In
  the first case the file is that of the last leg with the path, in the second the file is gone.
  Neither happens, and the paths are all different, if no two tests share a directory name and
  no role is another one with a number behind it.
\<close>

theorem archived_recordings_readable:
  assumes "list_all job_ok js"
  shows "\<exists>outs a fs. archive_jobs js (archiver_New base, old) = (map Inr outs, a, fs) \<and> length outs = length js
     \<and> (\<forall>i<length js. intact js outs i \<longrightarrow>
          (\<exists>wav. fs (outs ! i) = Some wav \<and> readTelephonyWAV wav spare = Ret (Inr (heard (rj_reads (js ! i))))))
     \<and> (\<forall>i<length js. lost js outs i \<longrightarrow> fs (outs ! i) = None)
     \<and> (names_ok js \<longrightarrow> distinct outs
          \<and> (\<forall>i<length js. \<exists>wav. fs (outs ! i) = Some wav \<and> readTelephonyWAV wav spare = Ret (Inr (heard (rj_reads (js ! i))))))"
proof -
  have read: "readTelephonyWAV (wrapWAV (heard (rj_reads (js ! i)))) spare = Ret (Inr (heard (rj_reads (js ! i))))"
    if "i < length js" for i
    using assms that by (intro wrapped_read) (simp add: list_all_length job_ok_def)
  from archive_jobs_exact [OF assms, of base old] obtain outs a fs where
    r: "archive_jobs js (archiver_New base, old) = (map Inr outs, a, fs)" "length outs = length js"
    and f: "\<forall>i<length js. (intact js outs i \<longrightarrow> fs (outs ! i) = Some (wrapWAV (heard (rj_reads (js ! i)))))
            \<and> (lost js outs i \<longrightarrow> fs (outs ! i) = None)" by (elim exE conjE) (rule that, auto)
  have names: "distinct outs \<and> (\<forall>i<length js. fs (outs ! i) = Some (wrapWAV (heard (rj_reads (js ! i)))))" if "names_ok js"
  proof -
    from archive_jobs_run [OF assms names_sorted [OF that], of "{}" "(archiver_New base, old)"] obtain outs' st' where
      o: "archive_jobs js (archiver_New base, old) = (map Inr outs', st')" "list_all2 (kept st') js outs'" "distinct outs'"
      by blast
    from o(1) r(1) have "map Inr outs' = (map Inr outs :: (string + string) list)" "st' = (a, fs)" by simp_all
    then have "outs' = outs" by (simp add: inj_map_eq_map [OF inj_Inr])
    with o \<open>st' = (a, fs)\<close> have "list_all2 (kept (a, fs)) js outs" "distinct outs" by simp_all
    then show ?thesis by (auto simp: kept_def list_all2_conv_all_nth)
  qed
  show ?thesis
  proof (intro exI conjI)
    show "\<forall>i<length js. intact js outs i \<longrightarrow>
        (\<exists>wav. fs (outs ! i) = Some wav \<and> readTelephonyWAV wav spare = Ret (Inr (heard (rj_reads (js ! i)))))"
      using f read by blast
    show "\<forall>i<length js. lost js outs i \<longrightarrow> fs (outs ! i) = None" using f by blast
    show "names_ok js \<longrightarrow> distinct outs
        \<and> (\<forall>i<length js. \<exists>wav. fs (outs ! i) = Some wav \<and> readTelephonyWAV wav spare = Ret (Inr (heard (rj_reads (js ! i)))))"
      using names read by blast
  qed (rule r)+
qed

text \<open>Two legs of one test and one of another; one pump was stopped before its last read.\<close>

definition sample_jobs :: "rec_job list" where
  "sample_jobs =
     [\<lparr>rj_test = ''T/x'', rj_role = ''caller'', rj_pcmPath = ''a.pcm'',
       rj_reads = [\<lparr>pr_cancelled = False, pr_bytes = ''ab'', pr_err = None\<rparr>, \<lparr>pr_cancelled = True, pr_bytes = ''zz'', pr_err = None\<rparr>]\<rparr>,
      \<lparr>rj_test = ''U'', rj_role = ''caller'', rj_pcmPath = ''b.pcm'',
       rj_reads = [\<lparr>pr_cancelled = False, pr_bytes = ''cd'', pr_err = Some None\<rparr>]\<rparr>,
      \<lparr>rj_test = ''T/x'', rj_role = ''caller'', rj_pcmPath = ''c.pcm'',
       rj_reads = [\<lparr>pr_cancelled = False, pr_bytes = ''ef'', pr_err = Some (Some ''reset'')\<rparr>]\<rparr>]"

lemma one_role: "\<forall>r\<in>set rs. sanitize r = n \<Longrightarrow> no_numbered_role rs"
  by (simp add: no_numbered_role_def)

lemma sample_names_ok: "names_ok sample_jobs"
proof -
  have s: "sanitize ''T/x'' = ''T-x''" "sanitize ''U'' = ''U''" by code_simp+
  have "inj_on sanitize (rj_test ` set sample_jobs)"
    by (simp add: sample_jobs_def inj_on_def s)
  moreover have "\<forall>r\<in>set (map rj_role (filter (\<lambda>j. rj_test j = t) sample_jobs)). sanitize r = sanitize ''caller''" for t
    by (auto simp: sample_jobs_def)
  ultimately show ?thesis unfolding names_ok_def using one_role by blast
qed

theorem archived_recordings_readable_witness:
  "\<exists>outs a fs. archive_jobs sample_jobs (archiver_New ''rec'', [''rec/T-x/old.wav'' \<mapsto> ''old'']) = (map Inr outs, a, fs) \<and> distinct outs
     \<and> (\<exists>wav. fs (outs ! 0) = Some wav \<and> readTelephonyWAV wav 0 = Ret (Inr ''ab''))"
proof -
  have ok: "list_all job_ok sample_jobs" by (simp add: sample_jobs_def job_ok_def)
  have "0 < length sample_jobs" "heard (rj_reads (sample_jobs ! 0)) = ''ab''" by (simp_all add: sample_jobs_def)
  with archived_recordings_readable [OF ok, of "''rec''" "[''rec/T-x/old.wav'' \<mapsto> ''old'']" 0] sample_names_ok
  show ?thesis by metis
qed

end
