(* ===== verification/Go_Path.thy ===== *)
theory Go_Path
  imports Go_Strings
begin

text \<open>
  The functions of Go's \<open>path/filepath\<close> that the program calls, for Unix paths, and the walk from
  a directory to the root that the program uses three times. The lemmas show that the walk ends
  and that it finds the nearest ancestor.
\<close>

section \<open>Clean, Join, Dir\<close>

abbreviation slash :: char where
  "slash \<equiv> CHR ''/''"

fun join_path :: "string list \<Rightarrow> string" where
  "join_path [] = []"
| "join_path [p] = p"
| "join_path (p # ps) = p @ slash # join_path ps"

text \<open>
  The elements kept so far are a stack: an empty element and \<open>.\<close> are dropped, \<open>..\<close> removes the
  element before it, is dropped at the root and kept at the start of a relative path.
\<close>

fun clean_elems :: "bool \<Rightarrow> string list \<Rightarrow> string list \<Rightarrow> string list" where
  "clean_elems rooted stack [] = rev stack"
| "clean_elems rooted stack (p # ps) =
     (if p = [] \<or> p = ''.'' then clean_elems rooted stack ps
      else if p = ''..'' then
        (case stack of
           [] \<Rightarrow> clean_elems rooted (if rooted then [] else [p]) ps
         | q # qs \<Rightarrow> clean_elems rooted (if q = ''..'' then p # stack else qs) ps)
      else clean_elems rooted (p # stack) ps)"

definition IsAbs :: "string \<Rightarrow> bool" where
  "IsAbs s \<longleftrightarrow> has_prefix s ''/''"

definition clean_path :: "string \<Rightarrow> string" where
  "clean_path s =
     (let out = (if IsAbs s then [slash] else []) @ join_path (clean_elems (IsAbs s) [] (split_on slash s))
      in if out = [] then ''.'' else out)"

text \<open>\<open>filepath.Join\<close> of two elements, and the part of a path before its last element.\<close>

definition path_join :: "string \<Rightarrow> string \<Rightarrow> string" where
  "path_join a b =
     (if a = [] \<and> b = [] then [] else if a = [] then clean_path b else if b = [] then clean_path a
      else clean_path (a @ slash # b))"

definition upto_slash :: "string \<Rightarrow> string" where
  "upto_slash s = rev (dropWhile (\<lambda>c. c \<noteq> slash) (rev s))"

definition path_dir :: "string \<Rightarrow> string" where
  "path_dir s = clean_path (upto_slash s)"

section \<open>Cleaning never lengthens\<close>

definition weight :: "string list \<Rightarrow> nat" where
  "weight ps = sum_list (map (\<lambda>p. length p + 1) ps)"

lemma weight_simps [simp]: "weight [] = 0" "weight (p # ps) = length p + 1 + weight ps"
  "weight (ps @ qs) = weight ps + weight qs" "weight (rev ps) = weight ps"
  by (simp_all add: weight_def sum_list_rev rev_map [symmetric])

lemma weight_split_on: "weight (split_on c s) = length s + 1"
  by (induction c s rule: split_on.induct) (auto split: list.split)

lemma length_join_path: "ps \<noteq> [] \<Longrightarrow> length (join_path ps) + 1 = weight ps"
  by (induction ps rule: join_path.induct) auto

lemma weight_clean_elems: "weight (clean_elems rooted stack ps) \<le> weight stack + weight ps"
proof (induction rooted stack ps rule: clean_elems.induct)
  case (2 rooted stack p ps)
  then show ?case by (cases stack) (auto split: if_splits intro: le_trans)
qed simp

lemma split_on_snoc: "split_on c (s @ [c]) = split_on c s @ [[]]"
  by (induction s) (auto split: list.split)

lemma clean_elems_snoc: "clean_elems rooted stack (ps @ [[]]) = clean_elems rooted stack ps"
  by (induction rooted stack ps rule: clean_elems.induct) (auto split: list.split)

lemma dropWhile_stop: "\<forall>x\<in>set xs. P x \<Longrightarrow> \<not> P y \<Longrightarrow> dropWhile P (xs @ y # ys) = y # ys"
  by (induction xs) auto

lemma upto_slash_append: "slash \<notin> set r \<Longrightarrow> upto_slash (p @ slash # r) = p @ [slash]"
proof -
  assume "slash \<notin> set r"
  then have "\<forall>c\<in>set (rev r). c \<noteq> slash" by auto
  then show ?thesis using dropWhile_stop [of "rev r" "\<lambda>c. c \<noteq> slash" slash "rev p"] by (simp add: upto_slash_def)
qed

lemma upto_slash_cases: "upto_slash s = [] \<and> slash \<notin> set s \<or> (\<exists>p r. upto_slash s = p @ [slash] \<and> s = p @ slash # r \<and> slash \<notin> set r)"
proof (cases "slash \<in> set s")
  case True
  then obtain p r where s: "s = p @ slash # r" "slash \<notin> set r" by (meson split_list_last)
  then have "upto_slash s = p @ [slash]" by (simp add: upto_slash_append)
  with s show ?thesis by blast
qed (auto simp: upto_slash_def dropWhile_eq_Nil_conv)

text \<open>The measure of the walk: a path is shorter than every other path in its directory.\<close>

definition depth :: "string \<Rightarrow> nat" where
  "depth s = (if s = ''.'' then 0 else length s + 1)"

lemma path_dir_depth:
  assumes "path_dir s \<noteq> s" shows "depth (path_dir s) < depth s"
  using upto_slash_cases [of s]
proof
  assume "upto_slash s = [] \<and> slash \<notin> set s"
  then have "path_dir s = ''.''" by (simp add: path_dir_def clean_path_def IsAbs_def has_prefix_def)
  with assms show ?thesis by (auto simp: depth_def)
next
  assume "\<exists>p r. upto_slash s = p @ [slash] \<and> s = p @ slash # r \<and> slash \<notin> set r"
  then obtain p r where u: "upto_slash s = p @ [slash]" and s: "s = p @ slash # r" by blast
  let ?rooted = "IsAbs (p @ [slash])"
  let ?es = "clean_elems ?rooted [] (split_on slash (p @ [slash]))"
  let ?out = "(if ?rooted then [slash] else []) @ join_path ?es"
  have dir: "path_dir s = (if ?out = [] then ''.'' else ?out)" by (simp add: path_dir_def clean_path_def u Let_def)
  have es: "?es = clean_elems ?rooted [] (split_on slash p)" by (simp only: split_on_snoc clean_elems_snoc)
  have ns: "s \<noteq> ''.''" using s by (cases p) auto
  show ?thesis
  proof (cases "?rooted")
    case True
    show ?thesis
    proof (cases p)
      case Nil
      then have "path_dir s = ''/''" by (simp add: path_dir_def u clean_path_def IsAbs_def has_prefix_def)
      with assms s Nil show ?thesis by (auto simp: depth_def)
    next
      case (Cons c q)
      with True have c: "p = slash # q" by (simp add: IsAbs_def has_prefix_def)
      have "clean_elems ?rooted [] (split_on slash p) = clean_elems ?rooted [] (split_on slash q)" by (simp add: c)
      then have "weight ?es \<le> length q + 1"
        using weight_clean_elems [of ?rooted "[]" "split_on slash q"] by (simp only: es weight_split_on weight_simps)
      then have "length ?out \<le> length p"
        using True length_join_path [of ?es] c by (cases "?es = []") auto
      with dir s ns show ?thesis by (auto simp: depth_def)
    qed
  next
    case False
    have "weight ?es \<le> length p + 1"
      using weight_clean_elems [of ?rooted "[]" "split_on slash p"] by (simp only: es) (simp add: weight_split_on)
    then have "length ?out \<le> length p"
      using False length_join_path [of ?es] by (cases "?es = []") auto
    with dir s ns show ?thesis by (auto simp: depth_def)
  qed
qed

section \<open>Walking up\<close>

text \<open>
  The loop of \<open>findDotEnv\<close>, \<open>findRepoRoot\<close> and \<open>ResolveSchemasRoot\<close>: test a directory, then its
  parent, until a directory is its own parent.
\<close>

function walk_up :: "(string \<Rightarrow> bool) \<Rightarrow> string \<Rightarrow> string option" where
  "walk_up found dir =
     (if found dir then Some dir
      else let parent = path_dir dir in if parent = dir then None else walk_up found parent)"
  by auto
termination by (relation "measure (\<lambda>(found, dir). depth dir)") (simp_all add: path_dir_depth)

declare walk_up.simps [simp del]

text \<open>An absolute path by its elements, each a proper name.\<close>

definition name_elem :: "string \<Rightarrow> bool" where
  "name_elem p \<longleftrightarrow> p \<noteq> [] \<and> p \<noteq> ''.'' \<and> p \<noteq> ''..'' \<and> slash \<notin> set p"

definition abs_path :: "string list \<Rightarrow> string" where
  "abs_path ps = slash # join_path ps"

lemma clean_names: "\<forall>p\<in>set ps. name_elem p \<Longrightarrow> clean_elems rooted stack ps = rev stack @ ps"
  by (induction ps arbitrary: stack) (auto simp: name_elem_def)

lemma split_join: "\<forall>p\<in>set ps. name_elem p \<Longrightarrow> ps \<noteq> [] \<Longrightarrow> split_on slash (join_path ps) = ps"
  by (induction ps rule: join_path.induct) (auto simp: name_elem_def split_on_nosep split_on_append)

lemma clean_abs_path: "\<forall>p\<in>set ps. name_elem p \<Longrightarrow> clean_path (abs_path ps) = abs_path ps"
  using split_join [of ps]
  by (cases "ps = []") (simp_all add: clean_path_def abs_path_def IsAbs_def has_prefix_def clean_names)

lemma join_path_snoc: "ps \<noteq> [] \<Longrightarrow> join_path (ps @ [p]) = join_path ps @ slash # p"
  by (induction ps rule: join_path.induct) auto

lemma path_dir_root [simp]: "path_dir (abs_path []) = abs_path []"
  by (simp add: abs_path_def path_dir_def upto_slash_def clean_path_def IsAbs_def has_prefix_def)

lemma path_dir_abs_path:
  assumes "\<forall>p\<in>set (ps @ [p]). name_elem p" shows "path_dir (abs_path (ps @ [p])) = abs_path ps"
proof (cases "ps = []")
  case True
  with assms upto_slash_append [of p "[]"] show ?thesis
    by (simp add: path_dir_def abs_path_def name_elem_def clean_path_def IsAbs_def has_prefix_def)
next
  case False
  have n: "\<forall>p\<in>set ps. name_elem p" using assms by simp
  have "upto_slash (abs_path (ps @ [p])) = abs_path ps @ [slash]"
    using assms False upto_slash_append [of p "abs_path ps"] by (simp add: abs_path_def join_path_snoc name_elem_def)
  moreover have "IsAbs (abs_path ps @ [slash])" by (simp add: abs_path_def IsAbs_def has_prefix_def)
  moreover have "split_on slash (abs_path ps @ [slash]) = [] # ps @ [[]]"
    using split_join [OF n False] by (simp only: split_on_snoc) (simp add: abs_path_def)
  ultimately show ?thesis using n
    by (simp add: path_dir_def clean_path_def clean_elems_snoc clean_names abs_path_def)
qed

lemma join_path_eq_Nil: "\<forall>p\<in>set ps. name_elem p \<Longrightarrow> join_path ps = [] \<Longrightarrow> ps = []"
  by (induction ps rule: join_path.induct) (auto simp: name_elem_def)

definition ancestors :: "string list \<Rightarrow> string list" where
  "ancestors ps = map (\<lambda>n. abs_path (take n ps)) (rev [0..<Suc (length ps)])"

lemma ancestors_Nil: "ancestors [] = [abs_path []]"
  by (simp add: ancestors_def)

lemma ancestors_snoc: "ancestors (ps @ [p]) = abs_path (ps @ [p]) # ancestors ps"
  by (simp add: ancestors_def)

lemma walk_up_ancestors: "\<forall>p\<in>set ps. name_elem p \<Longrightarrow> walk_up found (abs_path ps) = find found (ancestors ps)"
proof (induction ps rule: rev_induct)
  case Nil
  show ?case by (subst walk_up.simps) (simp add: ancestors_Nil)
next
  case (snoc p ps)
  then have "abs_path ps \<noteq> abs_path (ps @ [p])"
    using join_path_eq_Nil [of "[p]"] by (cases "ps = []") (auto simp: abs_path_def join_path_snoc)
  moreover have "path_dir (abs_path (ps @ [p])) = abs_path ps" by (rule path_dir_abs_path) (fact snoc.prems)
  ultimately show ?case
    using snoc.IH snoc.prems by (subst walk_up.simps) (simp add: ancestors_snoc)
qed

lemma walk_up_found: "walk_up found dir = Some d \<Longrightarrow> found d"
proof (induction found dir rule: walk_up.induct)
  case (1 found dir)
  then show ?case by (subst (asm) (2) walk_up.simps) (auto simp: Let_def split: if_splits)
qed

end
