(* ===== verification/Provision_Resources.thy ===== *)
theory Provision_Resources
  imports Provision_Accounts
begin

text \<open>
  The other REST resources of \<open>internal/provision\<close>: applications, carriers, gateways, phone numbers,
  routing, tenants, speech credentials, and the read-only lists. Every operation is one request
  of the shapes of \<open>Provision_Client\<close>; every deletion provides its contract.
\<close>

section \<open>Applications\<close>

record application_create =
  an_Name :: string
  an_AccountSID :: string
  an_CallHook :: webhook
  an_CallStatusHook :: webhook
  an_MessagingHook :: "webhook option"
  an_AppJSON :: string
  an_SynthVendor :: string
  an_SynthLabel :: string
  an_SynthVoice :: string
  an_RecogVendor :: string
  an_RecogLabel :: string
  an_RecogLanguage :: string
  an_EnvVars :: members

definition application_create_json :: "application_create \<Rightarrow> json" where
  "application_create_json a =
     JObj (req ''name'' (an_Name a) @ req ''account_sid'' (an_AccountSID a)
           @ [(''call_hook'', webhook_json (an_CallHook a)), (''call_status_hook'', webhook_json (an_CallStatusHook a))]
           @ opt_ptr ''messaging_hook'' webhook_json (an_MessagingHook a) @ opt ''app_json'' (an_AppJSON a)
           @ opt ''speech_synthesis_vendor'' (an_SynthVendor a) @ opt ''speech_synthesis_label'' (an_SynthLabel a)
           @ opt ''speech_synthesis_voice'' (an_SynthVoice a) @ opt ''speech_recognizer_vendor'' (an_RecogVendor a)
           @ opt ''speech_recognizer_label'' (an_RecogLabel a) @ opt ''speech_recognizer_language'' (an_RecogLanguage a)
           @ opt_map ''env_vars'' (\<lambda>j. j) (an_EnvVars a))"

record application =
  ap_ApplicationSID :: string
  ap_Name :: string
  ap_AccountSID :: string
  ap_CallHook :: webhook
  ap_CallStatusHook :: webhook
  ap_MessagingHook :: "webhook option"
  ap_SynthVendor :: string
  ap_SynthVoice :: string
  ap_RecogVendor :: string
  ap_RecogLanguage :: string

definition no_application :: application where
  "no_application = \<lparr>ap_ApplicationSID = [], ap_Name = [], ap_AccountSID = [], ap_CallHook = no_webhook,
     ap_CallStatusHook = no_webhook, ap_MessagingHook = None, ap_SynthVendor = [], ap_SynthVoice = [],
     ap_RecogVendor = [], ap_RecogLanguage = []\<rparr>"

definition application_fields :: "application fields" where
  "application_fields =
     [(''application_sid'', str_field (\<lambda>s a. a\<lparr>ap_ApplicationSID := s\<rparr>)),
      (''name'', str_field (\<lambda>s a. a\<lparr>ap_Name := s\<rparr>)),
      (''account_sid'', str_field (\<lambda>s a. a\<lparr>ap_AccountSID := s\<rparr>)),
      (''call_hook'', struct_field webhook_fields ap_CallHook (\<lambda>h a. a\<lparr>ap_CallHook := h\<rparr>)),
      (''call_status_hook'', struct_field webhook_fields ap_CallStatusHook (\<lambda>h a. a\<lparr>ap_CallStatusHook := h\<rparr>)),
      (''messaging_hook'', ptr_field webhook_fields no_webhook (\<lambda>h a. a\<lparr>ap_MessagingHook := h\<rparr>)),
      (''speech_synthesis_vendor'', str_field (\<lambda>s a. a\<lparr>ap_SynthVendor := s\<rparr>)),
      (''speech_synthesis_voice'', str_field (\<lambda>s a. a\<lparr>ap_SynthVoice := s\<rparr>)),
      (''speech_recognizer_vendor'', str_field (\<lambda>s a. a\<lparr>ap_RecogVendor := s\<rparr>)),
      (''speech_recognizer_language'', str_field (\<lambda>s a. a\<lparr>ap_RecogLanguage := s\<rparr>))]"

definition decode_application :: "json \<Rightarrow> application option" where
  "decode_application = decode_struct application_fields no_application"

definition CreateApplication where
  "CreateApplication env c a =
     create_op env c ''/Applications'' (application_create_json a)
       ''rest/applications/createApplication.response.201.json'' ''decode SuccessfulAdd''"

definition GetApplication where
  "GetApplication env c sid =
     read_op env c ''GET'' (''/Applications/'' @ sid) None ''rest/applications/getApplication.response.200.json'' 200
       decode_application ''decode Application''"

definition ListApplications where
  "ListApplications env c =
     read_op env c ''GET'' ''/Applications'' None ''rest/applications/listApplications.response.200.json'' 200
       (decode_list decode_application) ''decode applications''"

record application_update =
  aq_Name :: string
  aq_CallHook :: "webhook option"
  aq_CallStatusHook :: "webhook option"
  aq_MessagingHook :: "webhook option"
  aq_AppJSON :: string
  aq_SynthVendor :: string
  aq_SynthVoice :: string
  aq_RecogVendor :: string
  aq_RecogLanguage :: string

definition application_update_json :: "application_update \<Rightarrow> json" where
  "application_update_json a =
     JObj (opt ''name'' (aq_Name a) @ opt_ptr ''call_hook'' webhook_json (aq_CallHook a)
           @ opt_ptr ''call_status_hook'' webhook_json (aq_CallStatusHook a)
           @ opt_ptr ''messaging_hook'' webhook_json (aq_MessagingHook a) @ opt ''app_json'' (aq_AppJSON a)
           @ opt ''speech_synthesis_vendor'' (aq_SynthVendor a) @ opt ''speech_synthesis_voice'' (aq_SynthVoice a)
           @ opt ''speech_recognizer_vendor'' (aq_RecogVendor a)
           @ opt ''speech_recognizer_language'' (aq_RecogLanguage a))"

definition UpdateApplication where
  "UpdateApplication env c sid a =
     write_op env c ''PUT'' (''/Applications/'' @ sid) (Some (application_update_json a)) 204"

definition DeleteApplication where
  "DeleteApplication env c sid = delete_op env c (''/Applications/'' @ sid) 204 {404}"

interpretation application_del: deletion DeleteApplication "\<lambda>c sid. ''/Applications/'' @ sid" "{204, 404}" "\<lambda>c. True"
  by (rule deletion_of) (simp add: DeleteApplication_def)

section \<open>Carriers\<close>

record voip_carrier_create =
  vn_Name :: string
  vn_Description :: string
  vn_AccountSID :: string
  vn_ApplicationSID :: string
  vn_ServiceProviderSID :: string
  vn_E164LeadingPlus :: "bool option"
  vn_RequiresRegister :: "bool option"
  vn_RegisterUsername :: string
  vn_RegisterSIPRealm :: string
  vn_RegisterPassword :: string
  vn_TechPrefix :: string
  vn_InboundAuthUsername :: string
  vn_InboundAuthPassword :: string
  vn_IsActive :: "bool option"

definition voip_carrier_create_json :: "voip_carrier_create \<Rightarrow> json" where
  "voip_carrier_create_json v =
     JObj (req ''name'' (vn_Name v) @ opt ''description'' (vn_Description v) @ opt ''account_sid'' (vn_AccountSID v)
           @ opt ''application_sid'' (vn_ApplicationSID v) @ opt ''service_provider_sid'' (vn_ServiceProviderSID v)
           @ opt_ptr ''e164_leading_plus'' JBool (vn_E164LeadingPlus v)
           @ opt_ptr ''requires_register'' JBool (vn_RequiresRegister v)
           @ opt ''register_username'' (vn_RegisterUsername v) @ opt ''register_sip_realm'' (vn_RegisterSIPRealm v)
           @ opt ''register_password'' (vn_RegisterPassword v) @ opt ''tech_prefix'' (vn_TechPrefix v)
           @ opt ''inbound_auth_username'' (vn_InboundAuthUsername v)
           @ opt ''inbound_auth_password'' (vn_InboundAuthPassword v) @ opt_ptr ''is_active'' JBool (vn_IsActive v))"

record voip_carrier_update =
  vu_Name :: string
  vu_Description :: string
  vu_E164LeadingPlus :: "bool option"
  vu_RequiresRegister :: "bool option"
  vu_RegisterUsername :: string
  vu_RegisterSIPRealm :: string
  vu_RegisterPassword :: string
  vu_TechPrefix :: string
  vu_InboundAuthUsername :: string
  vu_InboundAuthPassword :: string
  vu_IsActive :: "bool option"

definition voip_carrier_update_json :: "voip_carrier_update \<Rightarrow> json" where
  "voip_carrier_update_json v =
     JObj (opt ''name'' (vu_Name v) @ opt ''description'' (vu_Description v)
           @ opt_ptr ''e164_leading_plus'' JBool (vu_E164LeadingPlus v)
           @ opt_ptr ''requires_register'' JBool (vu_RequiresRegister v)
           @ opt ''register_username'' (vu_RegisterUsername v) @ opt ''register_sip_realm'' (vu_RegisterSIPRealm v)
           @ opt ''register_password'' (vu_RegisterPassword v) @ opt ''tech_prefix'' (vu_TechPrefix v)
           @ opt ''inbound_auth_username'' (vu_InboundAuthUsername v)
           @ opt ''inbound_auth_password'' (vu_InboundAuthPassword v) @ opt_ptr ''is_active'' JBool (vu_IsActive v))"

record voip_carrier =
  vc_VoipCarrierSID :: string
  vc_Name :: string
  vc_Description :: string
  vc_AccountSID :: string
  vc_ApplicationSID :: string
  vc_ServiceProviderSID :: string

definition no_voip_carrier :: voip_carrier where
  "no_voip_carrier = \<lparr>vc_VoipCarrierSID = [], vc_Name = [], vc_Description = [], vc_AccountSID = [],
     vc_ApplicationSID = [], vc_ServiceProviderSID = []\<rparr>"

definition voip_carrier_fields :: "voip_carrier fields" where
  "voip_carrier_fields =
     [(''voip_carrier_sid'', str_field (\<lambda>s a. a\<lparr>vc_VoipCarrierSID := s\<rparr>)),
      (''name'', str_field (\<lambda>s a. a\<lparr>vc_Name := s\<rparr>)),
      (''description'', str_field (\<lambda>s a. a\<lparr>vc_Description := s\<rparr>)),
      (''account_sid'', str_field (\<lambda>s a. a\<lparr>vc_AccountSID := s\<rparr>)),
      (''application_sid'', str_field (\<lambda>s a. a\<lparr>vc_ApplicationSID := s\<rparr>)),
      (''service_provider_sid'', str_field (\<lambda>s a. a\<lparr>vc_ServiceProviderSID := s\<rparr>))]"

definition decode_voip_carrier :: "json \<Rightarrow> voip_carrier option" where
  "decode_voip_carrier = decode_struct voip_carrier_fields no_voip_carrier"

definition CreateVoipCarrier where
  "CreateVoipCarrier env c v =
     create_op env c ''/VoipCarriers'' (voip_carrier_create_json v)
       ''rest/voip_carriers/createVoipCarrier.response.201.json'' ''decode SuccessfulAdd''"

definition GetVoipCarrier where
  "GetVoipCarrier env c sid =
     read_op env c ''GET'' (''/VoipCarriers/'' @ sid) None ''rest/voip_carriers/getVoipCarrier.response.200.json'' 200
       decode_voip_carrier ''decode VoipCarrier''"

definition ListVoipCarriers where
  "ListVoipCarriers env c =
     read_op env c ''GET'' ''/VoipCarriers'' None ''rest/voip_carriers/listVoipCarriers.response.200.json'' 200
       (decode_list decode_voip_carrier) ''decode voip_carriers''"

definition UpdateVoipCarrier where
  "UpdateVoipCarrier env c sid v =
     write_op env c ''PUT'' (''/VoipCarriers/'' @ sid) (Some (voip_carrier_update_json v)) 204"

definition DeleteVoipCarrier where
  "DeleteVoipCarrier env c sid = delete_op env c (''/VoipCarriers/'' @ sid) 204 {404}"

definition CreateVoipCarrierUnderSP where
  "CreateVoipCarrierUnderSP env c spSID v =
     create_op env c (''/ServiceProviders/'' @ spSID @ ''/VoipCarriers'') (voip_carrier_create_json v)
       ''rest/voip_carriers/createCarrierForServiceProvider.response.201.json'' ''decode SuccessfulAdd''"

definition ListVoipCarriersUnderSP where
  "ListVoipCarriersUnderSP env c spSID =
     read_op env c ''GET'' (''/ServiceProviders/'' @ spSID @ ''/VoipCarriers'') None
       ''rest/voip_carriers/getServiceProviderCarriers.response.200.json'' 200
       (decode_list decode_voip_carrier) ''decode voip_carriers''"

interpretation carrier_del: deletion DeleteVoipCarrier "\<lambda>c sid. ''/VoipCarriers/'' @ sid" "{204, 404}" "\<lambda>c. True"
  by (rule deletion_of) (simp add: DeleteVoipCarrier_def)

section \<open>Gateways, phone numbers, routing, tenants\<close>

record sip_gateway_create =
  gn_VoipCarrierSID :: string
  gn_IPv4 :: string
  gn_Port :: "int option"
  gn_Netmask :: "int option"
  gn_Inbound :: "bool option"
  gn_Outbound :: "bool option"
  gn_IsActive :: "bool option"
  gn_Protocol :: string

definition sip_gateway_create_json :: "sip_gateway_create \<Rightarrow> json" where
  "sip_gateway_create_json g =
     JObj (req ''voip_carrier_sid'' (gn_VoipCarrierSID g) @ req ''ipv4'' (gn_IPv4 g)
           @ opt_ptr ''port'' json_int (gn_Port g) @ opt_ptr ''netmask'' json_int (gn_Netmask g)
           @ opt_ptr ''inbound'' JBool (gn_Inbound g) @ opt_ptr ''outbound'' JBool (gn_Outbound g)
           @ opt_ptr ''is_active'' JBool (gn_IsActive g) @ opt ''protocol'' (gn_Protocol g))"

record sip_gateway =
  gw_SipGatewaySID :: string
  gw_VoipCarrierSID :: string
  gw_IPv4 :: string
  gw_Port :: int
  gw_Netmask :: int
  gw_Inbound :: int
  gw_Outbound :: int

definition no_sip_gateway :: sip_gateway where
  "no_sip_gateway = \<lparr>gw_SipGatewaySID = [], gw_VoipCarrierSID = [], gw_IPv4 = [], gw_Port = 0, gw_Netmask = 0,
     gw_Inbound = 0, gw_Outbound = 0\<rparr>"

definition sip_gateway_fields :: "sip_gateway fields" where
  "sip_gateway_fields =
     [(''sip_gateway_sid'', str_field (\<lambda>s a. a\<lparr>gw_SipGatewaySID := s\<rparr>)),
      (''voip_carrier_sid'', str_field (\<lambda>s a. a\<lparr>gw_VoipCarrierSID := s\<rparr>)),
      (''ipv4'', str_field (\<lambda>s a. a\<lparr>gw_IPv4 := s\<rparr>)),
      (''port'', int_field (\<lambda>n a. a\<lparr>gw_Port := n\<rparr>)), (''netmask'', int_field (\<lambda>n a. a\<lparr>gw_Netmask := n\<rparr>)),
      (''inbound'', int_field (\<lambda>n a. a\<lparr>gw_Inbound := n\<rparr>)), (''outbound'', int_field (\<lambda>n a. a\<lparr>gw_Outbound := n\<rparr>))]"

definition decode_sip_gateway :: "json \<Rightarrow> sip_gateway option" where
  "decode_sip_gateway = decode_struct sip_gateway_fields no_sip_gateway"

text \<open>\<open>url.Values.Encode\<close> of parameters, each set once and given in key order.\<close>

definition query_char :: "char \<Rightarrow> string" where
  "query_char c =
     (let hex = (\<lambda>n. char_of (if n < 10 then 48 + n else 55 + n :: nat)) in
      if is_lower c \<or> is_upper c \<or> is_digit c \<or> c \<in> {CHR ''-'', CHR ''_'', CHR ''.'', CHR ''~''} then [c]
      else if c = CHR '' '' then ''+''
      else [CHR 0x25, hex (code c div 16), hex (code c mod 16)])"

definition query_escape :: "string \<Rightarrow> string" where
  "query_escape s = concat (map query_char s)"

fun query_encode :: "(string \<times> string) list \<Rightarrow> string" where
  "query_encode [] = []"
| "query_encode [(k, v)] = query_escape k @ ''='' @ query_escape v"
| "query_encode ((k, v) # kvs) = query_escape k @ ''='' @ query_escape v @ ''&'' @ query_encode kvs"

definition CreateSipGateway where
  "CreateSipGateway env c g =
     create_op env c ''/SipGateways'' (sip_gateway_create_json g)
       ''rest/sip_gateways/createSipGateway.response.201.json'' ''decode SuccessfulAdd''"

definition GetSipGateway where
  "GetSipGateway env c sid =
     read_op env c ''GET'' (''/SipGateways/'' @ sid) None ''rest/sip_gateways/getSipGateway.response.200.json'' 200
       decode_sip_gateway ''decode SipGateway''"

definition ListSipGateways where
  "ListSipGateways env c voipCarrierSID =
     read_op env c ''GET'' (''/SipGateways?'' @ query_encode [(''voip_carrier_sid'', voipCarrierSID)]) None
       ''rest/sip_gateways/listSipGateways.response.200.json'' 200 (decode_list decode_sip_gateway) ''decode sip_gateways''"

definition DeleteSipGateway where
  "DeleteSipGateway env c sid = delete_op env c (''/SipGateways/'' @ sid) 204 {404}"

interpretation gateway_del: deletion DeleteSipGateway "\<lambda>c sid. ''/SipGateways/'' @ sid" "{204, 404}" "\<lambda>c. True"
  by (rule deletion_of) (simp add: DeleteSipGateway_def)

record phone_number_create =
  pn_Number :: string
  pn_VoipCarrierSID :: string
  pn_AccountSID :: string
  pn_ApplicationSID :: string

definition phone_number_create_json :: "phone_number_create \<Rightarrow> json" where
  "phone_number_create_json p =
     JObj (req ''number'' (pn_Number p) @ req ''voip_carrier_sid'' (pn_VoipCarrierSID p)
           @ opt ''account_sid'' (pn_AccountSID p) @ opt ''application_sid'' (pn_ApplicationSID p))"

record phone_number =
  ph_PhoneNumberSID :: string
  ph_Number :: string
  ph_VoipCarrierSID :: string
  ph_AccountSID :: string
  ph_ApplicationSID :: string

definition no_phone_number :: phone_number where
  "no_phone_number = \<lparr>ph_PhoneNumberSID = [], ph_Number = [], ph_VoipCarrierSID = [], ph_AccountSID = [],
     ph_ApplicationSID = []\<rparr>"

definition phone_number_fields :: "phone_number fields" where
  "phone_number_fields =
     [(''phone_number_sid'', str_field (\<lambda>s a. a\<lparr>ph_PhoneNumberSID := s\<rparr>)),
      (''number'', str_field (\<lambda>s a. a\<lparr>ph_Number := s\<rparr>)),
      (''voip_carrier_sid'', str_field (\<lambda>s a. a\<lparr>ph_VoipCarrierSID := s\<rparr>)),
      (''account_sid'', str_field (\<lambda>s a. a\<lparr>ph_AccountSID := s\<rparr>)),
      (''application_sid'', str_field (\<lambda>s a. a\<lparr>ph_ApplicationSID := s\<rparr>))]"

definition decode_phone_number :: "json \<Rightarrow> phone_number option" where
  "decode_phone_number = decode_struct phone_number_fields no_phone_number"

definition ProvisionPhoneNumber where
  "ProvisionPhoneNumber env c p =
     create_op env c ''/PhoneNumbers'' (phone_number_create_json p)
       ''rest/phone_numbers/provisionPhoneNumber.response.201.json'' ''decode SuccessfulAdd''"

definition GetPhoneNumber where
  "GetPhoneNumber env c sid =
     read_op env c ''GET'' (''/PhoneNumbers/'' @ sid) None ''rest/phone_numbers/getPhoneNumber.response.200.json'' 200
       decode_phone_number ''decode PhoneNumber''"

definition ListPhoneNumbers where
  "ListPhoneNumbers env c =
     read_op env c ''GET'' ''/PhoneNumbers'' None ''rest/phone_numbers/listProvisionedPhoneNumbers.response.200.json'' 200
       (decode_list decode_phone_number) ''decode phone_numbers''"

definition DeletePhoneNumber where
  "DeletePhoneNumber env c sid = delete_op env c (''/PhoneNumbers/'' @ sid) 204 {404}"

interpretation number_del: deletion DeletePhoneNumber "\<lambda>c sid. ''/PhoneNumbers/'' @ sid" "{204, 404}" "\<lambda>c. True"
  by (rule deletion_of) (simp add: DeletePhoneNumber_def)

record lcr_create =
  ln_Name :: string
  ln_AccountSID :: string
  ln_ServiceProviderSID :: string

definition lcr_create_json :: "lcr_create \<Rightarrow> json" where
  "lcr_create_json l =
     JObj (req ''name'' (ln_Name l) @ opt ''account_sid'' (ln_AccountSID l)
           @ opt ''service_provider_sid'' (ln_ServiceProviderSID l))"

record lcr =
  lc_LcrSID :: string
  lc_Name :: string
  lc_Description :: string
  lc_AccountSID :: string
  lc_ServiceProviderSID :: string
  lc_DefaultEntrySID :: string

definition no_lcr :: lcr where
  "no_lcr = \<lparr>lc_LcrSID = [], lc_Name = [], lc_Description = [], lc_AccountSID = [], lc_ServiceProviderSID = [],
     lc_DefaultEntrySID = []\<rparr>"

definition lcr_fields :: "lcr fields" where
  "lcr_fields =
     [(''lcr_sid'', str_field (\<lambda>s a. a\<lparr>lc_LcrSID := s\<rparr>)), (''name'', str_field (\<lambda>s a. a\<lparr>lc_Name := s\<rparr>)),
      (''description'', str_field (\<lambda>s a. a\<lparr>lc_Description := s\<rparr>)),
      (''account_sid'', str_field (\<lambda>s a. a\<lparr>lc_AccountSID := s\<rparr>)),
      (''service_provider_sid'', str_field (\<lambda>s a. a\<lparr>lc_ServiceProviderSID := s\<rparr>)),
      (''default_carrier_set_entry_sid'', str_field (\<lambda>s a. a\<lparr>lc_DefaultEntrySID := s\<rparr>))]"

definition decode_lcr :: "json \<Rightarrow> lcr option" where
  "decode_lcr = decode_struct lcr_fields no_lcr"

definition CreateLcr where
  "CreateLcr env c l =
     create_op env c ''/Lcrs'' (lcr_create_json l) ''rest/lcrs/createLcr.response.201.json'' ''decode SuccessfulAdd''"

definition GetLcr where
  "GetLcr env c sid =
     read_op env c ''GET'' (''/Lcrs/'' @ sid) None ''rest/lcrs/getLcr.response.200.json'' 200 decode_lcr ''decode Lcr''"

definition ListLcrs where
  "ListLcrs env c =
     read_op env c ''GET'' ''/Lcrs'' None ''rest/lcrs/listLcrs.response.200.json'' 200 (decode_list decode_lcr) ''decode lcrs''"

definition DeleteLcr where
  "DeleteLcr env c sid = delete_op env c (''/Lcrs/'' @ sid) 204 {404}"

interpretation lcr_del: deletion DeleteLcr "\<lambda>c sid. ''/Lcrs/'' @ sid" "{204, 404}" "\<lambda>c. True"
  by (rule deletion_of) (simp add: DeleteLcr_def)

record ms_teams_tenant_create =
  tn_ServiceProviderSID :: string
  tn_AccountSID :: string
  tn_ApplicationSID :: string
  tn_TenantFQDN :: string

definition ms_teams_tenant_create_json :: "ms_teams_tenant_create \<Rightarrow> json" where
  "ms_teams_tenant_create_json m =
     JObj (req ''service_provider_sid'' (tn_ServiceProviderSID m) @ opt ''account_sid'' (tn_AccountSID m)
           @ opt ''application_sid'' (tn_ApplicationSID m) @ req ''tenant_fqdn'' (tn_TenantFQDN m))"

record ms_teams_tenant =
  mt_MsTeamsTenantSID :: string
  mt_ServiceProviderSID :: string
  mt_AccountSID :: string
  mt_ApplicationSID :: string
  mt_TenantFQDN :: string

definition no_ms_teams_tenant :: ms_teams_tenant where
  "no_ms_teams_tenant = \<lparr>mt_MsTeamsTenantSID = [], mt_ServiceProviderSID = [], mt_AccountSID = [],
     mt_ApplicationSID = [], mt_TenantFQDN = []\<rparr>"

definition ms_teams_tenant_fields :: "ms_teams_tenant fields" where
  "ms_teams_tenant_fields =
     [(''ms_teams_tenant_sid'', str_field (\<lambda>s a. a\<lparr>mt_MsTeamsTenantSID := s\<rparr>)),
      (''service_provider_sid'', str_field (\<lambda>s a. a\<lparr>mt_ServiceProviderSID := s\<rparr>)),
      (''account_sid'', str_field (\<lambda>s a. a\<lparr>mt_AccountSID := s\<rparr>)),
      (''application_sid'', str_field (\<lambda>s a. a\<lparr>mt_ApplicationSID := s\<rparr>)),
      (''tenant_fqdn'', str_field (\<lambda>s a. a\<lparr>mt_TenantFQDN := s\<rparr>))]"

definition CreateMsTeamsTenant where
  "CreateMsTeamsTenant env c m =
     create_op env c ''/MicrosoftTeamsTenants'' (ms_teams_tenant_create_json m)
       ''rest/ms_teams_tenants/createMsTeamsTenant.response.201.json'' ''decode SuccessfulAdd''"

definition ListMsTeamsTenants where
  "ListMsTeamsTenants env c =
     read_op env c ''GET'' ''/MicrosoftTeamsTenants'' None ''rest/ms_teams_tenants/listMsTeamsTenants.response.200.json'' 200
       (decode_list (decode_struct ms_teams_tenant_fields no_ms_teams_tenant)) ''decode ms_teams_tenants''"

definition DeleteMsTeamsTenant where
  "DeleteMsTeamsTenant env c sid = delete_op env c (''/MicrosoftTeamsTenants/'' @ sid) 204 {404}"

interpretation tenant_del: deletion DeleteMsTeamsTenant "\<lambda>c sid. ''/MicrosoftTeamsTenants/'' @ sid" "{204, 404}"
    "\<lambda>c. True"
  by (rule deletion_of) (simp add: DeleteMsTeamsTenant_def)

section \<open>Speech credentials\<close>

record speech_credential_create =
  sp_Vendor :: string
  sp_Label :: string
  sp_UseForTTS :: bool
  sp_UseForSTT :: bool
  sp_APIKey :: string
  sp_ServiceKey :: string
  sp_SpeechmaticsSTTURI :: string
  sp_ModelID :: string
  sp_STTModelID :: string

definition speech_credential_create_json :: "speech_credential_create \<Rightarrow> json" where
  "speech_credential_create_json s =
     JObj (req ''vendor'' (sp_Vendor s) @ opt ''label'' (sp_Label s)
           @ [(''use_for_tts'', JBool (sp_UseForTTS s)), (''use_for_stt'', JBool (sp_UseForSTT s))]
           @ opt ''api_key'' (sp_APIKey s) @ opt ''service_key'' (sp_ServiceKey s)
           @ opt ''speechmatics_stt_uri'' (sp_SpeechmaticsSTTURI s) @ opt ''model_id'' (sp_ModelID s)
           @ opt ''stt_model_id'' (sp_STTModelID s))"

definition credentials_path :: "string \<Rightarrow> string" where
  "credentials_path accountSID = ''/Accounts/'' @ accountSID @ ''/SpeechCredentials''"

definition CreateAccountSpeechCredential where
  "CreateAccountSpeechCredential env c accountSID s =
     create_op env c (credentials_path accountSID) (speech_credential_create_json s)
       ''rest/speech_credentials/createSpeechCredential.response.201.json'' ''decode SuccessfulAdd''"

text \<open>The nested \<open>stt\<close> object: its status and its reason.\<close>

definition decode_credential_test :: "json \<Rightarrow> (string \<times> string) option" where
  "decode_credential_test =
     decode_struct
       [(''stt'', struct_field [(''status'', str_field (\<lambda>s p. (s, snd p))), (''reason'', str_field (\<lambda>s p. (fst p, s)))]
                   (\<lambda>p. p) (\<lambda>q p. q))] ([], [])"

definition TestAccountSpeechCredential where
  "TestAccountSpeechCredential env c accountSID sid st =
     (case read_op env c ''GET'' (credentials_path accountSID @ ''/'' @ sid @ ''/test'') None [] 200
             decode_credential_test ''decode credential test'' st of
        (Inl err, st') \<Rightarrow> (([], Some err), st')
      | (Inr (status, reason), st') \<Rightarrow>
          ((status, if status \<noteq> ''ok'' then Some (RMsg (''stt credential test failed: '' @ reason)) else None), st'))"

definition DeleteAccountSpeechCredential where
  "DeleteAccountSpeechCredential env c accountSID sid =
     delete_op env c (credentials_path accountSID @ ''/'' @ sid) 204 {404, 401}"

interpretation credential_del: deletion "\<lambda>env c. DeleteAccountSpeechCredential env c acct"
    "\<lambda>c sid. credentials_path acct @ ''/'' @ sid" "{204, 404, 401}" "\<lambda>c. True" for acct
  by (rule deletion_of) (simp add: DeleteAccountSpeechCredential_def)

section \<open>Read-only lists\<close>

record service_provider =
  spv_SID :: string
  spv_Name :: string
  spv_Description :: string
  spv_RootDomain :: string
  spv_MsTeamsFqdn :: string
  spv_RegistrationHook :: "webhook option"

definition no_service_provider :: service_provider where
  "no_service_provider = \<lparr>spv_SID = [], spv_Name = [], spv_Description = [], spv_RootDomain = [], spv_MsTeamsFqdn = [],
     spv_RegistrationHook = None\<rparr>"

definition service_provider_fields :: "service_provider fields" where
  "service_provider_fields =
     [(''service_provider_sid'', str_field (\<lambda>s a. a\<lparr>spv_SID := s\<rparr>)), (''name'', str_field (\<lambda>s a. a\<lparr>spv_Name := s\<rparr>)),
      (''description'', str_field (\<lambda>s a. a\<lparr>spv_Description := s\<rparr>)),
      (''root_domain'', str_field (\<lambda>s a. a\<lparr>spv_RootDomain := s\<rparr>)),
      (''ms_teams_fqdn'', str_field (\<lambda>s a. a\<lparr>spv_MsTeamsFqdn := s\<rparr>)),
      (''registration_hook'', ptr_field webhook_fields no_webhook (\<lambda>h a. a\<lparr>spv_RegistrationHook := h\<rparr>))]"

definition decode_service_provider :: "json \<Rightarrow> service_provider option" where
  "decode_service_provider = decode_struct service_provider_fields no_service_provider"

definition ListServiceProviders where
  "ListServiceProviders env c =
     read_op env c ''GET'' ''/ServiceProviders'' None ''rest/service_providers/listServiceProviders.response.200.json'' 200
       (decode_list decode_service_provider) ''decode service_providers''"

definition GetServiceProvider where
  "GetServiceProvider env c sid =
     read_op env c ''GET'' (''/ServiceProviders/'' @ sid) None
       ''rest/service_providers/getServiceProvider.response.200.json'' 200 decode_service_provider ''decode ServiceProvider''"

record sbc =
  sb_SbcAddressSID :: string
  sb_IPv4 :: string
  sb_Port :: int
  sb_ServiceProviderSID :: string

definition sbc_fields :: "sbc fields" where
  "sbc_fields =
     [(''sbc_address_sid'', str_field (\<lambda>s a. a\<lparr>sb_SbcAddressSID := s\<rparr>)), (''ipv4'', str_field (\<lambda>s a. a\<lparr>sb_IPv4 := s\<rparr>)),
      (''port'', int_field (\<lambda>n a. a\<lparr>sb_Port := n\<rparr>)),
      (''service_provider_sid'', str_field (\<lambda>s a. a\<lparr>sb_ServiceProviderSID := s\<rparr>))]"

definition ListSbcs where
  "ListSbcs env c =
     read_op env c ''GET'' ''/Sbcs'' None ''rest/sbcs/listSbcs.response.200.json'' 200
       (decode_list (decode_struct sbc_fields \<lparr>sb_SbcAddressSID = [], sb_IPv4 = [], sb_Port = 0, sb_ServiceProviderSID = []\<rparr>))
       ''decode sbcs''"

definition ListRegisteredSipUsers where
  "ListRegisteredSipUsers env c st =
     (if cl_accountSID c = [] then (Inl (need_account ''RegisteredSipUsers''), st)
      else read_op env c ''GET'' (''/Accounts/'' @ cl_accountSID c @ ''/RegisteredSipUsers'') None
             ''rest/registered_sip_users/listRegisteredSipUsers.response.200.json'' 200
             (decode_list decode_string) ''decode RegisteredSipUsers'' st)"

definition GetWebhookSecret where
  "GetWebhookSecret env c regenerate st =
     (if cl_accountSID c = [] then (Inl (need_account ''WebhookSecret''), st)
      else read_op env c ''GET'' (''/Accounts/'' @ cl_accountSID c @ ''/WebhookSecret''
               @ (if regenerate then ''?regenerate=true'' else [])) None
             ''rest/webhook_secret/getWebhookSecret.response.200.json'' 200
             (decode_struct [(''webhook_secret'', str_field (\<lambda>s _. s))] []) ''decode WebhookSecret'' st)"

text \<open>The availability types are their texts: email, phone, subdomain.\<close>

definition CheckAvailability where
  "CheckAvailability env c t v =
     read_op env c ''GET'' (''/Availability?'' @ query_encode [(''type'', t), (''value'', v)]) None
       ''rest/availability/checkAvailability.response.200.json'' 200
       (decode_struct [(''available'', bool_field (\<lambda>b _. b))] False) ''decode availability''"

text \<open>The envelope of paged lists; a row is a map, where null is the nil map.\<close>

record paginated =
  pg_Total :: int
  pg_Batch :: int
  pg_Page :: int
  pg_Data :: "members list"

definition decode_row :: "json \<Rightarrow> members option" where
  "decode_row j = (case j of JObj m \<Rightarrow> Some m | JNull \<Rightarrow> Some [] | _ \<Rightarrow> None)"

definition paginated_fields :: "paginated fields" where
  "paginated_fields =
     [(''total'', int_field_json (\<lambda>n a. a\<lparr>pg_Total := n\<rparr>)), (''batch'', int_field_json (\<lambda>n a. a\<lparr>pg_Batch := n\<rparr>)),
      (''page'', int_field_json (\<lambda>n a. a\<lparr>pg_Page := n\<rparr>)),
      (''data'', \<lambda>v a. map_option (\<lambda>rows. a\<lparr>pg_Data := rows\<rparr>) (decode_list decode_row v))]"

definition decode_paginated :: "json \<Rightarrow> paginated option" where
  "decode_paginated = decode_struct paginated_fields \<lparr>pg_Total = 0, pg_Batch = 0, pg_Page = 0, pg_Data = []\<rparr>"

definition given :: "string \<Rightarrow> string \<Rightarrow> (string \<times> string) list" where
  "given k v = (if v \<noteq> [] then [(k, v)] else [])"

definition given_days :: "int \<Rightarrow> (string \<times> string) list" where
  "given_days n = (if n > 0 then [(''days'', itoa n)] else [])"

record alerts_query =
  aq_Page :: int
  aq_Count :: int
  aq_Days :: int
  aq_Start :: string
  aq_End :: string
  aq_AlertType :: string

definition ListAlerts where
  "ListAlerts env c q st =
     (if cl_accountSID c = [] then (Inl (need_account ''Alerts''), st)
      else read_op env c ''GET'' (''/Accounts/'' @ cl_accountSID c @ ''/Alerts?''
               @ query_encode (given ''alert_type'' (aq_AlertType q) @ [(''count'', itoa (aq_Count q))]
                   @ given_days (aq_Days q) @ given ''end'' (aq_End q) @ [(''page'', itoa (aq_Page q))]
                   @ given ''start'' (aq_Start q))) None
             ''rest/alerts/listAlertsByAccount.response.200.json'' 200 decode_paginated ''decode Alerts'' st)"

record recent_calls_query =
  rq_Page :: int
  rq_Count :: int
  rq_Days :: int
  rq_Start :: string
  rq_End :: string
  rq_Direction :: string
  rq_Answered :: string
  rq_Filter :: string

definition recent_calls_encode :: "recent_calls_query \<Rightarrow> string" where
  "recent_calls_encode q =
     query_encode (given ''answered'' (rq_Answered q) @ [(''count'', itoa (rq_Count q))] @ given_days (rq_Days q)
       @ given ''direction'' (rq_Direction q) @ given ''end'' (rq_End q) @ given ''filter'' (rq_Filter q)
       @ [(''page'', itoa (rq_Page q))] @ given ''start'' (rq_Start q))"

definition ListRecentCalls where
  "ListRecentCalls env c q st =
     (if cl_accountSID c = [] then (Inl (need_account ''RecentCalls''), st)
      else read_op env c ''GET'' (''/Accounts/'' @ cl_accountSID c @ ''/RecentCalls?'' @ recent_calls_encode q) None
             ''rest/recent_calls/listRecentCalls.response.200.json'' 200 decode_paginated ''decode RecentCalls'' st)"

definition ListRecentCallsBySP where
  "ListRecentCallsBySP env c spSID q =
     read_op env c ''GET'' (''/ServiceProviders/'' @ spSID @ ''/RecentCalls?'' @ recent_calls_encode q) None
       ''rest/recent_calls/listRecentCallsBySP.response.200.json'' 200 decode_paginated ''decode RecentCalls''"

end
