(* ===== verification/Speech.thy ===== *)
theory Speech
  imports Wav Go_Path Provision_Resources
begin

text \<open>
  The two speech helpers: \<open>internal/tts/deepgram.go\<close> fetches a spoken prompt once and keeps it as a
  WAV file, \<open>internal/stt/deepgram.go\<close> transcribes a recording and normalises the text. The vendor's
  service, its SDK, SHA-1 and the disk are parameters. The lemmas show that the cached prompt is
  what the player reads, that it is fetched only once, how often a transcription is attempted,
  and what normalised text is.
\<close>

section \<open>Prompts\<close>

record prompt_options =
  po_Model :: string
  po_HTTPTimeout :: int

record speak_request =
  sk_URL :: string
  sk_Authorization :: string
  sk_ContentType :: string
  sk_Timeout :: int
  sk_Body :: json

text \<open>No response, or the status, the bytes read of the body and the error that ended the reading.\<close>

datatype speak_answer = SpeakFailed string | Spoken int string "string option"

datatype tts_error =
    TNoCredentials
  | TMkdir string string
  | TBuild string
  | TRequest string
  | TStatus int string
  | TRead string
  | TShort nat
  | TWrite string

fun tts_error_text :: "tts_error \<Rightarrow> string" where
  "tts_error_text TNoCredentials = ''tts: DEEPGRAM_API_KEY not set''"
| "tts_error_text (TMkdir dir err) = ''tts: mkdir cache '' @ dir @ '': '' @ err"
| "tts_error_text (TBuild err) = ''tts: build request: '' @ err"
| "tts_error_text (TRequest err) = ''tts: deepgram request: '' @ err"
| "tts_error_text (TStatus status body) = ''tts: deepgram '' @ itoa status @ '': '' @ body"
| "tts_error_text (TRead err) = ''tts: read response: '' @ err"
| "tts_error_text (TShort n) = ''tts: deepgram returned only '' @ show_nat n @ '' bytes (suspiciously short)''"
| "tts_error_text (TWrite err) = err"

text \<open>
  What the outside does: the key, the digest, making the directory, building the request, the
  server (which sees the requests so far), and a failing write with what it leaves of the file.
\<close>

record tts_env =
  te_key :: string
  te_sha1 :: "string \<Rightarrow> string"
  te_mkdir :: "string option"
  te_build :: "string option"
  te_server :: "speak_request list \<Rightarrow> speak_request \<Rightarrow> speak_answer"
  te_write :: "(string \<times> string option) option"

record tts_state =
  tt_files :: files
  tt_sent :: "speak_request list"

definition tts_HasKey :: "tts_env \<Rightarrow> bool" where
  "tts_HasKey env \<longleftrightarrow> te_key env \<noteq> []"

definition make_speak_request :: "string \<Rightarrow> string \<Rightarrow> prompt_options \<Rightarrow> speak_request" where
  "make_speak_request apiKey text opts =
     \<lparr>sk_URL = ''https://api.deepgram.com/v1/speak?''
        @ query_encode [(''encoding'', ''linear16''), (''model'', po_Model opts), (''sample_rate'', ''8000'')],
      sk_Authorization = ''Token '' @ apiKey, sk_ContentType = ''application/json'',
      sk_Timeout = po_HTTPTimeout opts, sk_Body = JObj [(''text'', JStr text)]\<rparr>"

text \<open>Of an error answer at most 4096 bytes are kept; an answer below 1600 bytes is no audio.\<close>

definition fetchLPCM ::
  "tts_env \<Rightarrow> string \<Rightarrow> string \<Rightarrow> prompt_options \<Rightarrow> tts_state \<Rightarrow> (tts_error + string) \<times> tts_state" where
  "fetchLPCM env apiKey text opts st =
     (case te_build env of
        Some err \<Rightarrow> (Inl (TBuild err), st)
      | None \<Rightarrow>
          let r = make_speak_request apiKey text opts; st1 = st\<lparr>tt_sent := tt_sent st @ [r]\<rparr> in
          (case te_server env (tt_sent st) r of
             SpeakFailed err \<Rightarrow> Inl (TRequest err)
           | Spoken status body err \<Rightarrow>
               if status \<noteq> 200 then Inl (TStatus status (take 4096 body))
               else case err of
                 Some e \<Rightarrow> Inl (TRead e)
               | None \<Rightarrow> if length body < 1600 then Inl (TShort (length body)) else Inr body, st1))"

text \<open>The file written for a prompt, field by field.\<close>

definition telephony_wav :: "string \<Rightarrow> string" where
  "telephony_wav pcm =
     (let sampleRate = 8000; numChannels = 1; bitsPerSample = 16;
          byteRate = sampleRate * numChannels * bitsPerSample div 8; blockAlign = numChannels * bitsPerSample div 8
      in ''RIFF'' @ le_bytes 4 (36 + length pcm) @ ''WAVE''
         @ ''fmt '' @ le_bytes 4 16 @ le_bytes 2 1 @ le_bytes 2 numChannels @ le_bytes 4 sampleRate
         @ le_bytes 4 byteRate @ le_bytes 2 blockAlign @ le_bytes 2 bitsPerSample
         @ ''data'' @ le_bytes 4 (length pcm) @ pcm)"

definition writeTelephonyWAV :: "tts_env \<Rightarrow> string \<Rightarrow> string \<Rightarrow> files \<Rightarrow> tts_error option \<times> files" where
  "writeTelephonyWAV env path pcm fs =
     (case te_write env of
        None \<Rightarrow> (None, fs(path \<mapsto> telephony_wav pcm))
      | Some (err, left) \<Rightarrow> (Some (TWrite err), fs(path := left)))"

definition prompt_defaults :: "prompt_options \<Rightarrow> prompt_options" where
  "prompt_defaults opts =
     \<lparr>po_Model = nonEmpty (po_Model opts) ''aura-asteria-en'',
      po_HTTPTimeout = (if po_HTTPTimeout opts = 0 then 30000000000 else po_HTTPTimeout opts)\<rparr>"

definition prompt_path :: "tts_env \<Rightarrow> string \<Rightarrow> string \<Rightarrow> string \<Rightarrow> string" where
  "prompt_path env cacheDir model text =
     path_join cacheDir (hex_encode (take 8 (te_sha1 env (model @ ''|'' @ text))) @ ''.wav'')"

text \<open>A file longer than a bare header is taken for the prompt.\<close>

definition EnsureWAV ::
  "tts_env \<Rightarrow> string \<Rightarrow> string \<Rightarrow> prompt_options \<Rightarrow> tts_state \<Rightarrow> (tts_error + string) \<times> tts_state" where
  "EnsureWAV env cacheDir text opts0 st =
     (let opts = prompt_defaults opts0; key = te_key env; out = prompt_path env cacheDir (po_Model opts) text in
      if key = [] then (Inl TNoCredentials, st)
      else if (case tt_files st out of None \<Rightarrow> False | Some content \<Rightarrow> length content > 44) then (Inr out, st)
      else case te_mkdir env of
        Some err \<Rightarrow> (Inl (TMkdir cacheDir err), st)
      | None \<Rightarrow>
          (case fetchLPCM env key text opts st of
             (Inl err, st1) \<Rightarrow> (Inl err, st1)
           | (Inr pcm, st1) \<Rightarrow>
               (case writeTelephonyWAV env out pcm (tt_files st1) of
                  (Some err, fs) \<Rightarrow> (Inl err, st1\<lparr>tt_files := fs\<rparr>)
                | (None, fs) \<Rightarrow> (Inr out, st1\<lparr>tt_files := fs\<rparr>))))"

section \<open>Transcripts\<close>

text \<open>
  A string as its code points. Lower case outside ASCII matters only where a letter has an ASCII
  one: the dotted capital I (U+0130) and the Kelvin sign (U+212A).
\<close>

definition lower_rune :: "nat \<Rightarrow> nat" where
  "lower_rune r = (if 65 \<le> r \<and> r \<le> 90 then r + 32 else if r = 304 then 105 else if r = 8490 then 107 else r)"

definition word_rune :: "nat \<Rightarrow> bool" where
  "word_rune r \<longleftrightarrow> 97 \<le> r \<and> r \<le> 122 \<or> 48 \<le> r \<and> r \<le> 57"

definition blank_rune :: "nat \<Rightarrow> bool" where
  "blank_rune r \<longleftrightarrow> r = 32 \<or> r = 9 \<or> r = 10"

fun normalize_runes :: "bool \<Rightarrow> nat list \<Rightarrow> nat list" where
  "normalize_runes prevSpace [] = []"
| "normalize_runes prevSpace (r # rs) =
     (if word_rune r then r # normalize_runes False rs
      else if blank_rune r \<and> \<not> prevSpace then 32 # normalize_runes True rs
      else normalize_runes prevSpace rs)"

text \<open>Only letters, digits and blanks are left, so that trimming only concerns the blank.\<close>

definition trim_blanks :: "nat list \<Rightarrow> nat list" where
  "trim_blanks rs = rev (dropWhile (\<lambda>r. r = 32) (rev (dropWhile (\<lambda>r. r = 32) rs)))"

definition Normalize :: "nat list \<Rightarrow> nat list" where
  "Normalize s = trim_blanks (normalize_runes True (map lower_rune s))"

text \<open>
  What the SDK reports of a failed upload: whether it wraps an exceeded deadline, the timeout and
  temporary flags of a network error in it, and the text.
\<close>

record sdk_error =
  sd_deadline :: bool
  sd_net :: "(bool \<times> bool) option"
  sd_text :: string

text \<open>The response as far as it is read: the transcripts of the alternatives of each channel.\<close>

type_synonym sdk_response = "nat list list list option option"

definition isRetryableTranscribeErr :: "sdk_error \<Rightarrow> bool" where
  "isRetryableTranscribeErr e \<longleftrightarrow>
     sd_deadline e
     \<or> (case sd_net e of None \<Rightarrow> False | Some (tmo, temp) \<Rightarrow> tmo \<or> temp)
     \<or> list_ex (contains (sd_text e))
         [''connection refused'', ''connection reset'', ''EOF'', ''no such host'', ''i/o timeout'']"

text \<open>
  One upload: its result, and whether the caller's context is done by then. The number of uploads
  so far is \<open>i\<close>; the result is given with the number of uploads made in all.
\<close>

function transcribe_attempts ::
  "(nat \<Rightarrow> (sdk_error + sdk_response) \<times> bool) \<Rightarrow> nat \<Rightarrow> nat \<Rightarrow> sdk_error option \<Rightarrow> (sdk_error option + sdk_response) \<times> nat" where
  "transcribe_attempts upload attempts i lastErr =
     (if i < attempts then
        (case upload i of
           (Inr res, done) \<Rightarrow> (Inr res, i + 1)
         | (Inl err, done) \<Rightarrow>
             if \<not> isRetryableTranscribeErr err \<or> done then (Inl (Some err), i + 1)
             else transcribe_attempts upload attempts (i + 1) (Some err))
      else (Inl lastErr, i))"
  by auto
termination by (relation "measure (\<lambda>(upload, attempts, i, lastErr). attempts - i)") auto

declare transcribe_attempts.simps [simp del]

definition transcribeWithRetry where
  "transcribeWithRetry upload = transcribe_attempts upload 2 0 None"

datatype stt_error = SNoCredentials | STranscribe string "sdk_error option" | SNoChannels | SNoAlternatives

fun first_transcript :: "sdk_response \<Rightarrow> stt_error + nat list" where
  "first_transcript None = Inl SNoChannels"
| "first_transcript (Some None) = Inl SNoChannels"
| "first_transcript (Some (Some [])) = Inl SNoChannels"
| "first_transcript (Some (Some ([] # chs))) = Inl SNoAlternatives"
| "first_transcript (Some (Some ((alt # alts) # chs))) = Inr (Normalize alt)"

text \<open>
  \<open>Transcribe\<close> and \<open>TranscribeMulawWAV\<close> differ in the encoding they announce.
\<close>

definition transcribe_as where
  "transcribe_as encoding key upload path =
     (if key = [] then (Inl SNoCredentials, 0)
      else case transcribeWithRetry (upload encoding) of
        (Inl err, n) \<Rightarrow> (Inl (STranscribe path err), n)
      | (Inr res, n) \<Rightarrow> (first_transcript res, n))"

definition Transcribe where
  "Transcribe key upload pcmuPath = transcribe_as ''linear16'' key upload pcmuPath"

definition TranscribeMulawWAV where
  "TranscribeMulawWAV key upload wavPath = transcribe_as ''mulaw'' key upload wavPath"

section \<open>Normalised text\<close>

text \<open>The words of a text: what is left of each piece between blanks, if anything.\<close>

fun pieces :: "nat list \<Rightarrow> nat list list" where
  "pieces [] = [[]]"
| "pieces (r # rs) = (if blank_rune r then [] # pieces rs else (r # hd (pieces rs)) # tl (pieces rs))"

definition words_of :: "nat list list \<Rightarrow> nat list list" where
  "words_of ps = filter (\<lambda>w. w \<noteq> []) (map (filter word_rune) ps)"

definition spoken_words :: "nat list \<Rightarrow> nat list list" where
  "spoken_words s = words_of (pieces (map lower_rune s))"

fun join_words :: "nat list list \<Rightarrow> nat list" where
  "join_words [] = []"
| "join_words [w] = w"
| "join_words (w # ws) = w @ 32 # join_words ws"

definition rtrim :: "nat list \<Rightarrow> nat list" where
  "rtrim rs = rev (dropWhile (\<lambda>r. r = 32) (rev rs))"

lemma rtrim_Nil [simp]: "rtrim [] = []"
  by (simp add: rtrim_def)

lemma rtrim_Cons: "rtrim (r # rs) = (if rtrim rs = [] \<and> r = 32 then [] else r # rtrim rs)"
  by (auto simp: rtrim_def dropWhile_append dropWhile_eq_Nil_conv split: if_splits)

lemma words_of_simps [simp]:
  "words_of [] = []"
  "words_of (p # ps) = (if filter word_rune p = [] then words_of ps else filter word_rune p # words_of ps)"
  by (simp_all add: words_of_def)

lemma pieces_ne [simp]: "pieces rs \<noteq> []"
  by (cases rs) auto

lemma words_of_ne: "w \<in> set (words_of ps) \<Longrightarrow> w \<noteq> []"
  by (auto simp: words_of_def)

lemma join_words_Cons: "join_words (w # ws) = w @ (if ws = [] then [] else 32 # join_words ws)"
  by (cases ws) auto

lemma join_words_eq_Nil: "\<forall>w\<in>set ws. w \<noteq> [] \<Longrightarrow> join_words ws = [] \<longleftrightarrow> ws = []"
  by (cases ws) (auto simp: join_words_Cons)

lemma word_not_blank: "word_rune r \<Longrightarrow> \<not> blank_rune r" "word_rune r \<Longrightarrow> r \<noteq> 32"
  by (auto simp: word_rune_def blank_rune_def)

lemma blank_not_word: "blank_rune r \<Longrightarrow> \<not> word_rune r"
  by (auto simp: word_rune_def blank_rune_def)

lemma normalize_runes_words:
  "rtrim (normalize_runes True rs) = join_words (words_of (pieces rs))
   \<and> rtrim (normalize_runes False rs) = filter word_rune (hd (pieces rs))
       @ (if words_of (tl (pieces rs)) = [] then [] else 32 # join_words (words_of (tl (pieces rs))))"
proof (induction rs)
  case (Cons r rs)
  obtain h t where ps: "pieces rs = h # t" by (cases "pieces rs") auto
  have ne: "join_words (words_of ps) = [] \<longleftrightarrow> words_of ps = []" for ps
    by (rule join_words_eq_Nil) (auto dest: words_of_ne)
  note IH = Cons [unfolded ps, simplified]
  consider "word_rune r" | "blank_rune r" "\<not> word_rune r" | "\<not> word_rune r" "\<not> blank_rune r"
    using word_not_blank by blast
  then show ?case
  proof cases
    case 1
    with IH word_not_blank [of r] show ?thesis by (simp add: ps rtrim_Cons join_words_Cons)
  next
    case 2
    with IH ne [of t] show ?thesis by (auto simp: ps rtrim_Cons join_words_Cons)
  next
    case 3
    with IH show ?thesis by (simp add: ps)
  qed
qed simp

lemma normalize_runes_hd: "normalize_runes True rs = [] \<or> word_rune (hd (normalize_runes True rs))"
  by (induction rs) auto

lemma Normalize_spoken_words: "Normalize s = join_words (spoken_words s)"
proof -
  let ?n = "normalize_runes True (map lower_rune s)"
  have "dropWhile (\<lambda>r. r = 32) ?n = ?n"
    using normalize_runes_hd [of "map lower_rune s"] word_not_blank(2) by (cases ?n) auto
  then show ?thesis
    using normalize_runes_words [of "map lower_rune s"] by (simp add: Normalize_def trim_blanks_def rtrim_def spoken_words_def)
qed

lemma spoken_words_word: "w \<in> set (spoken_words s) \<Longrightarrow> w \<noteq> [] \<and> (\<forall>r\<in>set w. word_rune r)"
  by (auto simp: spoken_words_def words_of_def)

lemma pieces_word_append: "\<forall>r\<in>set w. word_rune r \<Longrightarrow> pieces (w @ rs) = (w @ hd (pieces rs)) # tl (pieces rs)"
  by (induction w) (auto simp: word_not_blank)

lemma words_of_join:
  "\<forall>w\<in>set ws. w \<noteq> [] \<and> (\<forall>r\<in>set w. word_rune r) \<Longrightarrow> words_of (pieces (join_words ws)) = ws"
proof (induction ws)
  case (Cons w ws)
  then have "filter word_rune w = w" and "w \<noteq> []" by (auto simp: filter_id_conv)
  moreover have "blank_rune 32" by (simp add: blank_rune_def)
  ultimately show ?case using Cons by (simp add: join_words_Cons pieces_word_append)
qed simp

lemma lower_rune_word: "word_rune r \<Longrightarrow> lower_rune r = r" "lower_rune 32 = 32"
  by (auto simp: word_rune_def lower_rune_def)

lemma map_lower_join: "\<forall>w\<in>set ws. \<forall>r\<in>set w. word_rune r \<Longrightarrow> map lower_rune (join_words ws) = join_words ws"
  by (induction ws rule: join_words.induct) (auto simp: lower_rune_word intro!: map_idI)

text \<open>
  C33 (equivalence): Normalising a transcript in one pass gives its words, in lower case, stripped
  of everything but letters and digits and joined by single blanks; normalising it again changes
  nothing.
\<close>

theorem Normalize_words:
  "Normalize s = join_words (spoken_words s) \<and> Normalize (Normalize s) = Normalize s"
  using words_of_join [of "spoken_words s"] map_lower_join [of "spoken_words s"] spoken_words_word [of _ s]
  by (simp add: Normalize_spoken_words) (simp add: spoken_words_def)

text \<open>
  A transcription uploads the recording once or twice. It does so twice exactly if the
  first attempt failed with a transient error while the caller was still waiting, and its result
  is that of the last attempt.
\<close>

theorem transcribe_attempts_bounded:
  "\<exists>r n. transcribeWithRetry upload = (r, n) \<and> n \<in> {1, 2}
     \<and> (n = 2 \<longleftrightarrow> (\<exists>err. upload 0 = (Inl err, False) \<and> isRetryableTranscribeErr err))
     \<and> r = map_sum Some id (fst (upload (n - 1)))"
proof -
  obtain r0 d0 r1 d1 where u: "upload 0 = (r0, d0)" "upload 1 = (r1, d1)" by fastforce
  have e2: "transcribe_attempts upload 2 (Suc (Suc 0)) last = (Inl last, 2)" for last
    by (simp add: transcribe_attempts.simps [of upload 2 "Suc (Suc 0)"])
  have e1: "transcribe_attempts upload 2 (Suc 0) last = (map_sum Some id r1, 2)" for last
    using u(2) e2 by (cases r1) (simp_all add: transcribe_attempts.simps [of upload 2 "Suc 0"])
  have "transcribeWithRetry upload =
      (if \<exists>err. r0 = Inl err \<and> isRetryableTranscribeErr err \<and> \<not> d0 then (map_sum Some id r1, 2) else (map_sum Some id r0, 1))"
    using u(1) e1 by (cases r0) (auto simp: transcribeWithRetry_def transcribe_attempts.simps [of upload 2 0])
  with u show ?thesis by auto
qed

section \<open>Cached prompts\<close>

lemma telephony_wav_wrapWAV: "telephony_wav pcm = wrapWAV pcm"
  by (simp add: telephony_wav_def wrapWAV_def wav_header_def Let_def)

lemma fetchLPCM_ok:
  "fetchLPCM env key text opts st = (Inr pcm, st') \<Longrightarrow>
     1600 \<le> length pcm \<and> te_server env (tt_sent st) (make_speak_request key text opts) = Spoken 200 pcm None
     \<and> st' = st\<lparr>tt_sent := tt_sent st @ [make_speak_request key text opts]\<rparr>"
  by (auto simp: fetchLPCM_def Let_def split: option.splits speak_answer.splits if_splits)

definition cached :: "tts_state \<Rightarrow> string \<Rightarrow> bool" where
  "cached st out \<longleftrightarrow> (case tt_files st out of None \<Rightarrow> False | Some content \<Rightarrow> length content > 44)"

text \<open>A success either finds the file or fetches and writes it.\<close>

lemma EnsureWAV_ok:
  assumes "EnsureWAV env dir text opts st = (Inr out, st')"
  shows "out = prompt_path env dir (po_Model (prompt_defaults opts)) text
    \<and> (cached st out \<and> st' = st
       \<or> \<not> cached st out \<and> (\<exists>pcm. te_server env (tt_sent st) (make_speak_request (te_key env) text (prompt_defaults opts)) = Spoken 200 pcm None
            \<and> 1600 \<le> length pcm
            \<and> st' = \<lparr>tt_files = (tt_files st)(out \<mapsto> wrapWAV pcm),
                     tt_sent = tt_sent st @ [make_speak_request (te_key env) text (prompt_defaults opts)]\<rparr>))"
  using assms
  by (auto simp: EnsureWAV_def Let_def cached_def [symmetric] writeTelephonyWAV_def telephony_wav_wrapWAV
      split: if_splits option.splits prod.splits sum.splits dest!: fetchLPCM_ok)

text \<open>
  C32 (roundtrip): A prompt that had to be fetched is stored so that the WAV reader of the SIP stack
  gives back exactly the audio the service answered with.
\<close>

theorem EnsureWAV_readable:
  assumes "EnsureWAV env dir text opts st = (Inr out, st')" and "\<not> cached st out"
    and "te_server env (tt_sent st) (make_speak_request (te_key env) text (prompt_defaults opts)) = Spoken 200 pcm None"
    and "length pcm < 2 ^ 32"
  shows "\<exists>blob. tt_files st' out = Some blob \<and> readTelephonyWAV blob spare = Ret (Inr pcm)"
proof -
  have "tt_files st' out = Some (wrapWAV pcm)" using EnsureWAV_ok [OF assms(1)] assms(2,3) by auto
  then show ?thesis using assms(4) by (simp add: wrapWAV_def readTelephonyWAV_header wav_chunks_header)
qed

text \<open>
  Once a prompt has been provided, asking for it again with the same voice and text
  gives the same path without any request or write, whatever the network does by then.
\<close>

theorem EnsureWAV_once:
  assumes "EnsureWAV env dir text opts st = (Inr out, st')"
    and "te_sha1 env' = te_sha1 env" and "te_key env' \<noteq> []"
  shows "EnsureWAV env' dir text opts st' = (Inr out, st')"
proof -
  have "cached st' out"
    using EnsureWAV_ok [OF assms(1)] by (auto simp: cached_def wrapWAV_def header_length)
  moreover have "out = prompt_path env' dir (po_Model (prompt_defaults opts)) text"
    using EnsureWAV_ok [OF assms(1)] assms(2) by (simp add: prompt_path_def)
  ultimately show ?thesis using assms(3) by (simp add: EnsureWAV_def Let_def cached_def)
qed

text \<open>
  A write that fails after more than a header's worth of bytes poisons the cache: the
  call reports the error, but the next call takes the truncated file for the prompt.
\<close>

theorem EnsureWAV_truncated:
  assumes "te_key env \<noteq> []" and "te_mkdir env = None" and "te_build env = None"
    and "out = prompt_path env dir (po_Model (prompt_defaults opts)) text" and "\<not> cached st out"
    and "te_server env (tt_sent st) (make_speak_request (te_key env) text (prompt_defaults opts)) = Spoken 200 pcm None"
    and "1600 \<le> length pcm" and "te_write env = Some (err, Some left)" and "44 < length left"
  shows "\<exists>st'. EnsureWAV env dir text opts st = (Inl (TWrite err), st')
    \<and> EnsureWAV env dir text opts st' = (Inr out, st') \<and> tt_files st' out = Some left"
  using assms by (simp add: EnsureWAV_def Let_def cached_def fetchLPCM_def writeTelephonyWAV_def)

text \<open>A service that answers with 1600 bytes, and a disk that keeps 50 of them.\<close>

definition sample_tts :: "(string \<times> string option) option \<Rightarrow> tts_env" where
  "sample_tts wr = \<lparr>te_key = ''k'', te_sha1 = (\<lambda>s. ''0123456789abcdefghij''), te_mkdir = None, te_build = None,
     te_server = (\<lambda>log r. Spoken 200 (replicate 1600 (CHR ''a'')) None), te_write = wr\<rparr>"

definition no_prompts :: tts_state where
  "no_prompts = \<lparr>tt_files = Map.empty, tt_sent = []\<rparr>"

definition sample_out :: string where
  "sample_out = prompt_path (sample_tts None) ''d'' ''aura-asteria-en'' ''hi''"

definition default_prompt :: prompt_options where
  "default_prompt = \<lparr>po_Model = [], po_HTTPTimeout = 0\<rparr>"

lemma sample_EnsureWAV: "\<exists>st'. EnsureWAV (sample_tts None) ''d'' ''hi'' default_prompt no_prompts = (Inr sample_out, st')"
proof -
  have o: "prompt_path (sample_tts None) ''d'' (po_Model (prompt_defaults default_prompt)) ''hi'' = sample_out"
    by (simp add: sample_out_def prompt_defaults_def default_prompt_def nonEmpty_def)
  show ?thesis unfolding EnsureWAV_def Let_def o
    by (simp add: fetchLPCM_def Let_def writeTelephonyWAV_def sample_tts_def no_prompts_def)
qed

theorem EnsureWAV_readable_witness:
  "\<exists>st' blob. EnsureWAV (sample_tts None) ''d'' ''hi'' default_prompt no_prompts = (Inr sample_out, st')
     \<and> tt_files st' sample_out = Some blob \<and> readTelephonyWAV blob 3 = Ret (Inr (replicate 1600 (CHR ''a'')))"
proof -
  obtain st' where e: "EnsureWAV (sample_tts None) ''d'' ''hi'' default_prompt no_prompts = (Inr sample_out, st')"
    using sample_EnsureWAV by blast
  with EnsureWAV_readable [OF e, of "replicate 1600 (CHR ''a'')" 3] show ?thesis
    by (simp add: cached_def no_prompts_def sample_tts_def)
qed

theorem EnsureWAV_once_witness:
  "\<exists>st'. EnsureWAV (sample_tts None) ''d'' ''hi'' default_prompt no_prompts = (Inr sample_out, st')
     \<and> EnsureWAV (sample_tts (Some (''full'', None))) ''d'' ''hi'' default_prompt st' = (Inr sample_out, st')"
proof -
  obtain st' where e: "EnsureWAV (sample_tts None) ''d'' ''hi'' default_prompt no_prompts = (Inr sample_out, st')"
    using sample_EnsureWAV by blast
  with EnsureWAV_once [OF e, of "sample_tts (Some (''full'', None))"] show ?thesis by (simp add: sample_tts_def)
qed

theorem EnsureWAV_truncated_witness:
  "\<exists>out st'. EnsureWAV (sample_tts (Some (''full'', Some (replicate 50 (CHR ''a''))))) ''d'' ''hi'' default_prompt st'
     = (Inr out, st') \<and> tt_files st' out = Some (replicate 50 (CHR ''a''))"
  using EnsureWAV_truncated [of "sample_tts (Some (''full'', Some (replicate 50 (CHR ''a''))))" _ "''d''" default_prompt
      "''hi''" no_prompts "replicate 1600 (CHR ''a'')" "''full''" "replicate 50 (CHR ''a'')"]
  by (auto simp: sample_tts_def no_prompts_def cached_def)

end
