(* ===== verification/Config.thy ===== *)
theory Config
  imports Go_Path Go_Net
begin

text \<open>
  \<open>internal/config/config.go\<close> and \<open>internal/contract/source.go\<close>: the settings of a run, read from the
  \<open>.env\<close> file and the process environment, and the directories found by walking up from the
  working directory. The environment is a map; the working directory, the files (an error says
  whether the file is absent) and what \<open>url.Parse\<close> objects to in a URL are parameters. The
  lemmas show what the file adds to the environment, what a successful load guarantees, when
  variables are reported missing, and which directory each walk finds.
\<close>

type_synonym environ = "string \<rightharpoonup> string"

record os_env =
  os_cwd :: "string + string"
  os_stat :: "string \<Rightarrow> string + bool"
  os_read :: "string \<Rightarrow> (bool \<times> string) + string"
  os_url :: "string \<Rightarrow> string option"

definition Getenv :: "environ \<Rightarrow> string \<Rightarrow> string" where
  "Getenv vars k = (case vars k of None \<Rightarrow> [] | Some v \<Rightarrow> v)"

text \<open>\<open>os.Setenv\<close> refuses an empty name, and NUL bytes; its error is ignored.\<close>

definition settable :: "string \<Rightarrow> string \<Rightarrow> bool" where
  "settable k v \<longleftrightarrow> k \<noteq> [] \<and> CHR ''='' \<notin> set k \<and> CHR 0x00 \<notin> set k \<and> CHR 0x00 \<notin> set v"

definition Setenv :: "string \<Rightarrow> string \<Rightarrow> environ \<Rightarrow> environ" where
  "Setenv k v vars = (if settable k v then vars(k \<mapsto> v) else vars)"

section \<open>Finding files\<close>

text \<open>\<open>os_stat\<close>: the error, or whether the path is a directory.\<close>

definition is_file :: "os_env \<Rightarrow> string \<Rightarrow> bool" where
  "is_file os p \<longleftrightarrow> os_stat os p = Inr False"

definition findDotEnv :: "os_env \<Rightarrow> string option" where
  "findDotEnv os =
     (case os_cwd os of
        Inl err \<Rightarrow> None
      | Inr dir \<Rightarrow> map_option (\<lambda>d. path_join d ''.env'') (walk_up (\<lambda>d. is_file os (path_join d ''.env'')) dir))"

definition findRepoRoot :: "os_env \<Rightarrow> string option" where
  "findRepoRoot os =
     (case os_cwd os of
        Inl err \<Rightarrow> None
      | Inr dir \<Rightarrow> walk_up (\<lambda>d. is_file os (path_join d ''go.mod'')) dir)"

datatype schemas_error = SchemasStat string string | SchemasCwd string | SchemasNotFound

text \<open>The dash of the last message is the three bytes of U+2014.\<close>

fun schemas_error_text :: "schemas_error \<Rightarrow> string" where
  "schemas_error_text (SchemasStat p err) = ''JAMBONZ_IT_SCHEMAS='' @ go_quote p @ '': '' @ err"
| "schemas_error_text (SchemasCwd err) = err"
| "schemas_error_text SchemasNotFound = ''schemas/ directory not found walking up from cwd ''
     @ [CHR 0xE2, CHR 0x80, CHR 0x94] @ '' set JAMBONZ_IT_SCHEMAS''"

definition ResolveSchemasRoot :: "os_env \<Rightarrow> environ \<Rightarrow> schemas_error + string" where
  "ResolveSchemasRoot os vars =
     (let p = Getenv vars ''JAMBONZ_IT_SCHEMAS'' in
      if p \<noteq> [] then
        (case os_stat os p of Inl err \<Rightarrow> Inl (SchemasStat p err) | Inr isdir \<Rightarrow> Inr p)
      else case os_cwd os of
        Inl err \<Rightarrow> Inl (SchemasCwd err)
      | Inr dir \<Rightarrow>
          (case walk_up (\<lambda>d. os_stat os (path_join d ''schemas'') = Inr True) dir of
             None \<Rightarrow> Inl SchemasNotFound
           | Some d \<Rightarrow> Inr (path_join d ''schemas'')))"

section \<open>The .env file\<close>

text \<open>
  \<open>bufio.Scanner\<close>: the lines without their line end, where a last line is one even if it is not
  terminated; a line that fills the 64 KiB buffer ends the scan with an error.
\<close>

definition newline :: char where "newline = CHR 0x0A"

definition drop_cr :: "string \<Rightarrow> string" where
  "drop_cr l = (if l \<noteq> [] \<and> last l = CHR 0x0D then butlast l else l)"

definition max_token :: int where "max_token = 65536"

definition raw_lines :: "string \<Rightarrow> string list" where
  "raw_lines s = (let ls = split_on newline s in if last ls = [] then butlast ls else ls)"

definition scan_lines :: "string \<Rightarrow> string list" where
  "scan_lines s = map drop_cr (takeWhile (\<lambda>l. int (length l) < max_token) (raw_lines s))"

definition scan_failed :: "string \<Rightarrow> bool" where
  "scan_failed s \<longleftrightarrow> list_ex (\<lambda>l. max_token \<le> int (length l)) (raw_lines s)"

definition quotes :: "char \<Rightarrow> bool" where
  "quotes c \<longleftrightarrow> c = CHR 0x22 \<or> c = CHR 0x27"

text \<open>One line: its assignment, or nothing for a blank, a comment or a line without \<open>=\<close>.\<close>

definition dotenv_line :: "string \<Rightarrow> (string \<times> string) option" where
  "dotenv_line raw =
     (let line = trim_space raw in
      if line = [] \<or> has_prefix line ''#'' then None
      else case index_any (\<lambda>c. c = CHR ''='') line of
        None \<Rightarrow> None
      | Some eq \<Rightarrow> Some (trim_space (take eq line), trim quotes (trim_space (drop (eq + 1) line))))"

definition dotenv_step :: "string \<Rightarrow> environ \<Rightarrow> environ" where
  "dotenv_step raw vars =
     (case dotenv_line raw of
        None \<Rightarrow> vars
      | Some (k, v) \<Rightarrow> if vars k = None then Setenv k v vars else vars)"

text \<open>The error, and the environment; an absent file is no error.\<close>

definition loadDotEnv :: "os_env \<Rightarrow> string \<Rightarrow> environ \<Rightarrow> string option \<times> environ" where
  "loadDotEnv os path vars =
     (case os_read os path of
        Inl (absent, err) \<Rightarrow> (if absent then None else Some err, vars)
      | Inr content \<Rightarrow>
          (if scan_failed content then Some ''bufio.Scanner: token too long'' else None,
           fold dotenv_step (scan_lines content) vars))"

section \<open>Settings\<close>

record settings =
  APIBaseURL :: string
  SPAPIKey :: string
  SPSID :: string
  SBCPublicIP :: "ip option"
  SIPRealmZone :: string
  DeepgramAPIKey :: string
  DeepseekAPIKey :: string
  OpenAIAPIKey :: string
  MurfAPIKey :: string
  XaiAPIKey :: string
  GeminiServiceKey :: string
  GptLiveAPIKey :: string
  GptLiveModel :: string
  GptLiveHost :: string
  GptLivePath :: string
  GptLiveDelegationModel :: string
  SpeechmaticsAPIKey :: string
  SpeechmaticsSTTURI :: string
  SpeechmaticsAgentAPIKey :: string
  SpeechmaticsAgentProfile :: string
  SpeechmaticsAgentHost :: string
  DialogflowServiceKey :: string
  DialogflowProject :: string
  DialogflowAgent :: string
  DialogflowRegion :: string
  DialogflowLang :: string
  DialogflowCESApp :: string
  DialogflowCESDeployment :: string
  DialogflowCESLocation :: string
  NgrokAuthToken :: string
  NgrokDomain :: string
  RunID' :: string
  LogLevel :: string
  OrphanTTL :: int
  ContractStrict :: bool
  RecordLegs :: bool
  RecordDir :: string

definition HasDeepgram where "HasDeepgram s \<longleftrightarrow> DeepgramAPIKey s \<noteq> []"
definition HasDeepseek where "HasDeepseek s \<longleftrightarrow> DeepseekAPIKey s \<noteq> []"
definition HasOpenAI where "HasOpenAI s \<longleftrightarrow> OpenAIAPIKey s \<noteq> []"
definition HasMurf where "HasMurf s \<longleftrightarrow> MurfAPIKey s \<noteq> []"
definition HasXai where "HasXai s \<longleftrightarrow> XaiAPIKey s \<noteq> []"
definition HasGeminiStt where "HasGeminiStt s \<longleftrightarrow> GeminiServiceKey s \<noteq> []"
definition HasGptLive where "HasGptLive s \<longleftrightarrow> GptLiveAPIKey s \<noteq> []"
definition HasSpeechmatics where "HasSpeechmatics s \<longleftrightarrow> SpeechmaticsAPIKey s \<noteq> []"
definition HasSpeechmaticsAgent where "HasSpeechmaticsAgent s \<longleftrightarrow> SpeechmaticsAgentAPIKey s \<noteq> []"

definition HasDialogflow where
  "HasDialogflow s \<longleftrightarrow> DialogflowServiceKey s \<noteq> [] \<and> DialogflowProject s \<noteq> []
     \<and> DialogflowAgent s \<noteq> [] \<and> DialogflowRegion s \<noteq> []"

definition HasDialogflowCES where
  "HasDialogflowCES s \<longleftrightarrow> DialogflowServiceKey s \<noteq> [] \<and> DialogflowProject s \<noteq> []
     \<and> DialogflowCESApp s \<noteq> [] \<and> DialogflowCESLocation s \<noteq> []"

definition firstNonEmpty :: "string \<Rightarrow> string \<Rightarrow> string" where
  "firstNonEmpty a b = (if a \<noteq> [] then a else b)"

text \<open>The fields that are copied from the environment; the others are still zero.\<close>

definition base_settings :: "environ \<Rightarrow> settings" where
  "base_settings vars =
     \<lparr>APIBaseURL = trim_right (\<lambda>c. c = CHR ''/'') (Getenv vars ''JAMBONZ_API_URL''),
      SPAPIKey = Getenv vars ''JAMBONZ_SP_API_KEY'',
      SPSID = Getenv vars ''JAMBONZ_SP_SID'',
      SBCPublicIP = None,
      SIPRealmZone = firstNonEmpty (Getenv vars ''JAMBONZ_SIP_REALM_ZONE'') ''smoke.test'',
      DeepgramAPIKey = Getenv vars ''DEEPGRAM_API_KEY'',
      DeepseekAPIKey = Getenv vars ''DEEPSEEK_API_KEY'',
      OpenAIAPIKey = Getenv vars ''OPENAI_API_KEY'',
      MurfAPIKey = Getenv vars ''MURF_API_KEY'',
      XaiAPIKey = Getenv vars ''XAI_API_KEY'',
      GeminiServiceKey = [],
      GptLiveAPIKey = Getenv vars ''GPTLIVE_API_KEY'',
      GptLiveModel = firstNonEmpty (Getenv vars ''GPTLIVE_MODEL'') ''gpt-live-1-boulder-alpha'',
      GptLiveHost = Getenv vars ''GPTLIVE_HOST'',
      GptLivePath = Getenv vars ''GPTLIVE_PATH'',
      GptLiveDelegationModel = firstNonEmpty (Getenv vars ''GPTLIVE_DELEGATION_MODEL'') ''gpt-5.5'',
      SpeechmaticsAPIKey = Getenv vars ''SPEECHMATICS_API_KEY'',
      SpeechmaticsSTTURI = firstNonEmpty (Getenv vars ''SPEECHMATICS_STT_URI'') ''eu2.rt.speechmatics.com'',
      SpeechmaticsAgentAPIKey = Getenv vars ''SPEECHMATICS_AGENT_API_KEY'',
      SpeechmaticsAgentProfile = firstNonEmpty (Getenv vars ''SPEECHMATICS_AGENT_PROFILE'') ''smart'',
      SpeechmaticsAgentHost = Getenv vars ''SPEECHMATICS_AGENT_HOST'',
      DialogflowServiceKey = [],
      DialogflowProject = Getenv vars ''DIALOGFLOW_PROJECT'',
      DialogflowAgent = Getenv vars ''DIALOGFLOW_AGENT'',
      DialogflowRegion = firstNonEmpty (Getenv vars ''DIALOGFLOW_REGION'') ''us-central1'',
      DialogflowLang = firstNonEmpty (Getenv vars ''DIALOGFLOW_LANG'') ''en-US'',
      DialogflowCESApp = Getenv vars ''DIALOGFLOW_CES_APP'',
      DialogflowCESDeployment = Getenv vars ''DIALOGFLOW_CES_DEPLOYMENT'',
      DialogflowCESLocation = firstNonEmpty (Getenv vars ''DIALOGFLOW_CES_LOCATION'') ''us'',
      NgrokAuthToken = Getenv vars ''NGROK_AUTHTOKEN'',
      NgrokDomain = Getenv vars ''NGROK_DOMAIN'',
      RunID' = Getenv vars ''RUN_ID'',
      LogLevel = to_lower (firstNonEmpty (Getenv vars ''LOG_LEVEL'') ''info''),
      OrphanTTL = 0, ContractStrict = False, RecordLegs = False, RecordDir = []\<rparr>"

datatype config_error =
    BadURL string
  | BadIP string
  | MissingVars "string list"
  | BadZone string
  | KeyFileRead string string string
  | KeyFileJSON string string
  | BadTTL string
  | BadStrict string
  | BadRecordLegs string

text \<open>\<open>strconv.ParseBool\<close>.\<close>

definition ParseBool :: "string \<Rightarrow> bool option" where
  "ParseBool s =
     (if s \<in> {''1'', ''t'', ''T'', ''TRUE'', ''true'', ''True''} then Some True
      else if s \<in> {''0'', ''f'', ''F'', ''FALSE'', ''false'', ''False''} then Some False
      else None)"

definition parse_bool_error :: "string \<Rightarrow> string" where
  "parse_bool_error s = ''strconv.ParseBool: parsing '' @ go_quote s @ '': invalid syntax''"

fun config_error_text :: "config_error \<Rightarrow> string" where
  "config_error_text (BadURL err) = ''JAMBONZ_API_URL is not a valid URL: '' @ err"
| "config_error_text (BadIP v) = ''JAMBONZ_SBC_PUBLIC_IP is not a valid IP: '' @ go_quote v"
| "config_error_text (MissingVars vs) =
     ''required env vars missing: '' @ concat (case vs of [] \<Rightarrow> [] | v # r \<Rightarrow> v # map (\<lambda>x. '', '' @ x) r)"
| "config_error_text (BadZone z) = ''JAMBONZ_SIP_REALM_ZONE must contain at least one dot (got '' @ go_quote z @ '')''"
| "config_error_text (KeyFileRead var path err) = var @ ''='' @ go_quote path @ '': '' @ err"
| "config_error_text (KeyFileJSON var path) = var @ ''='' @ go_quote path @ '' is not valid JSON''"
| "config_error_text (BadTTL v) = ''ORPHAN_TTL_HOURS must be a non-negative integer: '' @ go_quote v"
| "config_error_text (BadStrict v) = ''CONTRACT_STRICT must be true/false: '' @ parse_bool_error v"
| "config_error_text (BadRecordLegs v) =
     ''RECORD_LEGS must be true/false (or 1/0, on/off, yes/no): '' @ parse_bool_error v"

fun andThen :: "'e + 'a \<Rightarrow> ('a \<Rightarrow> 'e + 'b) \<Rightarrow> 'e + 'b" where
  "andThen (Inl err) f = Inl err"
| "andThen (Inr x) f = f x"

lemma andThen_Inl_iff [simp]: "andThen m f = Inl err \<longleftrightarrow> m = Inl err \<or> (\<exists>x. m = Inr x \<and> f x = Inl err)"
  by (cases m) auto

lemma andThen_Inr_iff [simp]: "andThen m f = Inr y \<longleftrightarrow> (\<exists>x. m = Inr x \<and> f x = Inr y)"
  by (cases m) auto

text \<open>The required variables. A malformed one is reported before the missing ones are.\<close>

definition requires :: "string \<Rightarrow> string \<Rightarrow> string list" where
  "requires v name = (if v = [] then [name] else [])"

definition missing_vars :: "environ \<Rightarrow> string list" where
  "missing_vars vars =
     (let s = base_settings vars in
      requires (APIBaseURL s) ''JAMBONZ_API_URL'' @ requires (SPAPIKey s) ''JAMBONZ_SP_API_KEY''
      @ requires (SPSID s) ''JAMBONZ_SP_SID'' @ requires (Getenv vars ''JAMBONZ_SBC_PUBLIC_IP'') ''JAMBONZ_SBC_PUBLIC_IP''
      @ requires (DeepgramAPIKey s) ''DEEPGRAM_API_KEY'' @ requires (DeepseekAPIKey s) ''DEEPSEEK_API_KEY''
      @ requires (NgrokAuthToken s) ''NGROK_AUTHTOKEN'')"

definition check_required :: "os_env \<Rightarrow> environ \<Rightarrow> settings \<Rightarrow> config_error + settings" where
  "check_required os vars s =
     (let v = Getenv vars ''JAMBONZ_SBC_PUBLIC_IP'' in
      case (if APIBaseURL s = [] then None else os_url os (APIBaseURL s)) of
        Some err \<Rightarrow> Inl (BadURL err)
      | None \<Rightarrow>
          if v \<noteq> [] \<and> ParseIP v = None then Inl (BadIP v)
          else if missing_vars vars \<noteq> [] then Inl (MissingVars (missing_vars vars))
          else if \<not> contains (SIPRealmZone s) ''.'' then Inl (BadZone (SIPRealmZone s))
          else Inr (s\<lparr>SBCPublicIP := ParseIP v\<rparr>))"

text \<open>A service-account key by file name; \<open>json.Valid\<close> holds of what decodes.\<close>

definition read_keyfile :: "os_env \<Rightarrow> environ \<Rightarrow> string \<Rightarrow> config_error + string" where
  "read_keyfile os vars var =
     (let kf = Getenv vars var in
      if kf = [] then Inr []
      else case os_read os kf of
        Inl (absent, err) \<Rightarrow> Inl (KeyFileRead var kf err)
      | Inr raw \<Rightarrow> if unmarshal raw = None then Inl (KeyFileJSON var kf) else Inr raw)"

text \<open>Nanoseconds; the multiplication wraps around in 64 bits.\<close>

definition hour :: int where "hour = 3600000000000"

definition parse_ttl :: "environ \<Rightarrow> config_error + int" where
  "parse_ttl vars =
     (let v = Getenv vars ''ORPHAN_TTL_HOURS'' in
      if v = [] then Inr (2 * hour)
      else case atoi v of
        None \<Rightarrow> Inl (BadTTL v)
      | Some n \<Rightarrow> if n < 0 then Inl (BadTTL v) else Inr (wrap64 (n * hour)))"

definition parse_strict :: "environ \<Rightarrow> config_error + bool" where
  "parse_strict vars =
     (let v = Getenv vars ''CONTRACT_STRICT'' in
      if v = [] then Inr True
      else case ParseBool v of None \<Rightarrow> Inl (BadStrict v) | Some b \<Rightarrow> Inr b)"

definition parse_record_legs :: "environ \<Rightarrow> config_error + bool" where
  "parse_record_legs vars =
     (let v = Getenv vars ''RECORD_LEGS''; w = to_lower (trim_space v) in
      if v = [] then Inr False
      else if w \<in> {''on'', ''yes''} then Inr True
      else if w \<in> {''off'', ''no''} then Inr False
      else case ParseBool v of None \<Rightarrow> Inl (BadRecordLegs v) | Some b \<Rightarrow> Inr b)"

definition record_dir :: "os_env \<Rightarrow> environ \<Rightarrow> string" where
  "record_dir os vars =
     (let d = firstNonEmpty (Getenv vars ''RECORD_DIR'') ''recordings'' in
      if IsAbs d then d
      else case findRepoRoot os of None \<Rightarrow> d | Some root \<Rightarrow> path_join root d)"

definition parse :: "os_env \<Rightarrow> environ \<Rightarrow> config_error + settings" where
  "parse os vars =
     andThen (check_required os vars (base_settings vars)) (\<lambda>s.
     andThen (read_keyfile os vars ''GEMINI_KEYFILE'') (\<lambda>gemini.
     andThen (read_keyfile os vars ''DIALOGFLOW_KEYFILE'') (\<lambda>dialogflow.
     andThen (parse_ttl vars) (\<lambda>ttl.
     andThen (parse_strict vars) (\<lambda>strict.
     andThen (parse_record_legs vars) (\<lambda>legs.
       Inr (s\<lparr>GeminiServiceKey := gemini, DialogflowServiceKey := dialogflow, OrphanTTL := ttl,
              ContractStrict := strict, RecordLegs := legs, RecordDir := record_dir os vars\<rparr>)))))))"

section \<open>Load\<close>

text \<open>The process: its environment, and what the first call of \<open>Load\<close> returned.\<close>

record process =
  pr_vars :: environ
  pr_loaded :: "(config_error + settings) option"

definition Load :: "os_env \<Rightarrow> process \<Rightarrow> (config_error + settings) \<times> process" where
  "Load os p =
     (case pr_loaded p of
        Some r \<Rightarrow> (r, p)
      | None \<Rightarrow>
          (let vars = (case findDotEnv os of None \<Rightarrow> pr_vars p | Some path \<Rightarrow> snd (loadDotEnv os path (pr_vars p)));
               r = parse os vars
           in (r, p\<lparr>pr_vars := vars, pr_loaded := Some r\<rparr>)))"

definition MustLoad :: "os_env \<Rightarrow> process \<Rightarrow> (settings \<times> process) go" where
  "MustLoad os p =
     (case Load os p of (Inl err, p') \<Rightarrow> Panic | (Inr s, p') \<Rightarrow> Ret (s, p'))"

section \<open>Properties\<close>

definition dotenv_pairs :: "string \<Rightarrow> (string \<times> string) list" where
  "dotenv_pairs content = filter (\<lambda>(k, v). settable k v) (List.map_filter dotenv_line (scan_lines content))"

lemma fold_dotenv_step:
  "fold dotenv_step ls vars k = (case vars k of Some v \<Rightarrow> Some v
     | None \<Rightarrow> map_of (filter (\<lambda>(k, v). settable k v) (List.map_filter dotenv_line ls)) k)"
proof (induction ls arbitrary: vars)
  case Nil
  show ?case by (simp add: List.map_filter_simps split: option.split)
next
  case (Cons l ls)
  have "fold dotenv_step (l # ls) vars = fold dotenv_step ls (dotenv_step l vars)" by simp
  then show ?case
    by (simp only: Cons.IH) (auto simp: dotenv_step_def Setenv_def List.map_filter_simps split: option.split prod.split)
qed

text \<open>
  After the \<open>.env\<close> file is read, a variable that the process had set keeps its
  value, any other has the value of its first assignment in the file, and one that neither sets
  stays unset.
\<close>

theorem loadDotEnv_lookup:
  assumes "os_read os path = Inr content"
  shows "snd (loadDotEnv os path vars) k = (case vars k of Some v \<Rightarrow> Some v | None \<Rightarrow> map_of (dotenv_pairs content) k)"
  by (simp add: loadDotEnv_def assms fold_dotenv_step dotenv_pairs_def split: option.split)

text \<open>A file with a comment, quotes, a repeated and an already set variable.\<close>

definition sample_dotenv :: string where
  "sample_dotenv = ''# keys'' @ [newline] @ ''A = \"1\" '' @ [newline] @ ''A=2'' @ [newline] @ ''B=3''"

definition sample_os :: os_env where
  "sample_os = \<lparr>os_cwd = Inr ''/w/tests/verbs'',
     os_stat = (\<lambda>p. if p \<in> {''/w/.env'', ''/w/go.mod''} then Inr False else if p = ''/w/schemas'' then Inr True else Inl ''absent''),
     os_read = (\<lambda>p. if p = ''/w/.env'' then Inr sample_dotenv else if p = ''/k'' then Inr ''{}'' else Inl (True, ''absent'')), os_url = (\<lambda>u. None)\<rparr>"

theorem loadDotEnv_lookup_witness:
  "snd (loadDotEnv sample_os ''/w/.env'' [''B'' \<mapsto> ''0'']) ''A'' = Some ''1''
   \<and> snd (loadDotEnv sample_os ''/w/.env'' [''B'' \<mapsto> ''0'']) ''B'' = Some ''0''"
proof -
  have "os_read sample_os ''/w/.env'' = Inr sample_dotenv" by (simp add: sample_os_def)
  moreover have "dotenv_pairs sample_dotenv = [(''A'', ''1''), (''A'', ''2''), (''B'', ''3'')]" by code_simp
  ultimately show ?thesis
    using loadDotEnv_lookup [of sample_os "''/w/.env''" sample_dotenv "[''B'' \<mapsto> ''0'']"] by simp
qed

text \<open>What the rest of the program relies on once the settings are there.\<close>

definition settings_ok :: "settings \<Rightarrow> bool" where
  "settings_ok s \<longleftrightarrow>
     APIBaseURL s \<noteq> [] \<and> last (APIBaseURL s) \<noteq> CHR ''/'' \<and> SPAPIKey s \<noteq> [] \<and> SPSID s \<noteq> []
     \<and> (case SBCPublicIP s of None \<Rightarrow> False | Some p \<Rightarrow> ip_wf p)
     \<and> contains (SIPRealmZone s) ''.'' \<and> HasDeepgram s \<and> HasDeepseek s \<and> NgrokAuthToken s \<noteq> []
     \<and> (DialogflowServiceKey s \<noteq> [] \<longrightarrow> unmarshal (DialogflowServiceKey s) \<noteq> None)
     \<and> (GeminiServiceKey s \<noteq> [] \<longrightarrow> unmarshal (GeminiServiceKey s) \<noteq> None)
     \<and> to_lower (LogLevel s) = LogLevel s \<and> RecordDir s \<noteq> []"

text \<open>
  The optional keys: there is one exactly if its variable names a file. The age after which an
  account counts as an orphan: two hours by default, else the number of hours that is set, which
  must not be negative. Up to 2562047 hours this is the duration itself; a larger number wraps
  around in 64 bits, and the duration may be negative.
\<close>

definition max_ttl_hours :: int where
  "max_ttl_hours = 2562047"

definition ttl_ok :: "environ \<Rightarrow> int \<Rightarrow> bool" where
  "ttl_ok vars ttl \<longleftrightarrow>
     (if Getenv vars ''ORPHAN_TTL_HOURS'' = [] then ttl = 2 * hour
      else \<exists>n\<ge>0. atoi (Getenv vars ''ORPHAN_TTL_HOURS'') = Some n
        \<and> (if n \<le> max_ttl_hours then ttl = n * hour else ttl = wrap64 (n * hour)))"

lemma parse_ttl_ok: "parse_ttl vars = Inr ttl \<Longrightarrow> ttl_ok vars ttl"
  by (auto simp: parse_ttl_def ttl_ok_def Let_def not_less max_ttl_hours_def hour_def intro!: exI split: if_splits option.splits)

lemma read_keyfile_present: "read_keyfile os vars var = Inr raw \<Longrightarrow> raw \<noteq> [] \<longleftrightarrow> Getenv vars var \<noteq> []"
  using unmarshal_Nil by (auto simp: read_keyfile_def Let_def split: if_splits sum.splits prod.splits)

lemma trim_right_last: "trim_right P s \<noteq> [] \<Longrightarrow> \<not> P (last (trim_right P s))"
  by (metis hd_dropWhile last_rev rev_is_Nil_conv trim_right_def)

lemma read_keyfile_valid: "read_keyfile os vars var = Inr raw \<Longrightarrow> raw \<noteq> [] \<Longrightarrow> unmarshal raw \<noteq> None"
  by (auto simp: read_keyfile_def Let_def split: if_splits sum.splits prod.splits)

lemma missing_vars_Nil:
  "missing_vars vars = [] \<longleftrightarrow> APIBaseURL (base_settings vars) \<noteq> [] \<and> SPAPIKey (base_settings vars) \<noteq> []
     \<and> SPSID (base_settings vars) \<noteq> [] \<and> Getenv vars ''JAMBONZ_SBC_PUBLIC_IP'' \<noteq> []
     \<and> HasDeepgram (base_settings vars) \<and> HasDeepseek (base_settings vars) \<and> NgrokAuthToken (base_settings vars) \<noteq> []"
  by (simp add: missing_vars_def requires_def Let_def HasDeepgram_def HasDeepseek_def)

lemma check_required_settings:
  assumes "check_required os vars (base_settings vars) = Inr s"
  shows "\<exists>p. s = (base_settings vars)\<lparr>SBCPublicIP := Some p\<rparr> \<and> ip_wf p" and "missing_vars vars = []"
    and "contains (SIPRealmZone s) ''.''"
  using assms ParseIP_wf
  by (auto simp: check_required_def Let_def missing_vars_Nil split: if_splits option.splits)

lemma path_join_ne: "b \<noteq> [] \<Longrightarrow> path_join a b \<noteq> []"
  by (auto simp: path_join_def clean_path_def Let_def)

lemma record_dir_ne: "record_dir os vars \<noteq> []"
  using path_join_ne
  by (auto simp: record_dir_def Let_def firstNonEmpty_def split: option.splits)

text \<open>
  C31 (type): Whenever the settings load, they are well-formed: every required variable has a
  value, the API URL does not end in a slash, the SBC address is an IP address of 4 or 16 bytes,
  the realm zone has a dot, the Gemini and the Dialogflow key are there exactly if their variable
  names a file, and are then valid JSON, whatever the other variables of these services say, and
  a directory for recordings is set. The orphan age is two hours or the non-negative number of
  hours that was set; beyond 2562047 hours it is that number wrapped around in 64 bits, so that
  only such a number can give a negative age.
\<close>

theorem parse_settings_ok:
  assumes "parse os vars = Inr s"
  shows "settings_ok s
    \<and> (GeminiServiceKey s \<noteq> [] \<longleftrightarrow> Getenv vars ''GEMINI_KEYFILE'' \<noteq> [])
    \<and> (DialogflowServiceKey s \<noteq> [] \<longleftrightarrow> Getenv vars ''DIALOGFLOW_KEYFILE'' \<noteq> [])
    \<and> ttl_ok vars (OrphanTTL s)
    \<and> (OrphanTTL s < 0 \<longrightarrow> (\<exists>n. atoi (Getenv vars ''ORPHAN_TTL_HOURS'') = Some n \<and> max_ttl_hours < n))"
proof -
  from assms obtain s0 gemini dialogflow ttl strict legs where
    c: "check_required os vars (base_settings vars) = Inr s0"
    and k: "read_keyfile os vars ''GEMINI_KEYFILE'' = Inr gemini" "read_keyfile os vars ''DIALOGFLOW_KEYFILE'' = Inr dialogflow"
    and t: "parse_ttl vars = Inr ttl"
    and s: "s = s0\<lparr>GeminiServiceKey := gemini, DialogflowServiceKey := dialogflow, OrphanTTL := ttl,
              ContractStrict := strict, RecordLegs := legs, RecordDir := record_dir os vars\<rparr>"
    by (auto simp: parse_def)
  from check_required_settings [OF c] obtain p where s0: "s0 = (base_settings vars)\<lparr>SBCPublicIP := Some p\<rparr>"
    and p: "ip_wf p" and m: "missing_vars vars = []" and z: "contains (SIPRealmZone s0) ''.''" by blast
  from m have "APIBaseURL s0 \<noteq> []" "SPAPIKey s0 \<noteq> []" "SPSID s0 \<noteq> []" "HasDeepgram s0" "HasDeepseek s0" "NgrokAuthToken s0 \<noteq> []"
    by (auto simp: s0 missing_vars_Nil HasDeepgram_def HasDeepseek_def)
  moreover have "APIBaseURL s0 \<noteq> [] \<Longrightarrow> last (APIBaseURL s0) \<noteq> CHR ''/''"
    using trim_right_last [of "\<lambda>c. c = CHR ''/''" "Getenv vars ''JAMBONZ_API_URL''"] by (simp add: s0 base_settings_def)
  moreover have "to_lower (LogLevel s0) = LogLevel s0" by (simp add: s0 base_settings_def)
  ultimately have "settings_ok s" using p z k [THEN read_keyfile_valid] record_dir_ne
    by (simp add: s settings_ok_def HasDeepgram_def HasDeepseek_def) (simp add: s0)
  moreover have "ttl < 0 \<Longrightarrow> \<exists>n. atoi (Getenv vars ''ORPHAN_TTL_HOURS'') = Some n \<and> max_ttl_hours < n"
    using parse_ttl_ok [OF t] by (auto simp: ttl_ok_def hour_def not_le split: if_splits)
  ultimately show ?thesis using parse_ttl_ok [OF t] k [THEN read_keyfile_present] by (simp add: s)
qed

definition sample_vars :: environ where
  "sample_vars = [''JAMBONZ_API_URL'' \<mapsto> ''http://a/v1/'', ''JAMBONZ_SP_API_KEY'' \<mapsto> ''k'', ''JAMBONZ_SP_SID'' \<mapsto> ''s'',
     ''JAMBONZ_SBC_PUBLIC_IP'' \<mapsto> ''1.2.3.4'', ''DEEPGRAM_API_KEY'' \<mapsto> ''d'', ''DEEPSEEK_API_KEY'' \<mapsto> ''e'',
     ''NGROK_AUTHTOKEN'' \<mapsto> ''n'']"

theorem parse_settings_ok_witness:
  "case parse sample_os (sample_vars(''DIALOGFLOW_KEYFILE'' \<mapsto> ''/k'', ''ORPHAN_TTL_HOURS'' \<mapsto> ''3'')) of
     Inl err \<Rightarrow> False
   | Inr s \<Rightarrow> settings_ok s \<and> APIBaseURL s = ''http://a/v1'' \<and> DialogflowServiceKey s = ''{}''
       \<and> \<not> HasDialogflow s \<and> OrphanTTL s = 3 * hour"
proof -
  let ?v = "sample_vars(''DIALOGFLOW_KEYFILE'' \<mapsto> ''/k'', ''ORPHAN_TTL_HOURS'' \<mapsto> ''3'')"
  have "case parse sample_os ?v of Inl err \<Rightarrow> False
    | Inr s \<Rightarrow> APIBaseURL s = ''http://a/v1'' \<and> DialogflowServiceKey s = ''{}'' \<and> \<not> HasDialogflow s \<and> OrphanTTL s = 3 * hour"
    by code_simp
  then show ?thesis using parse_settings_ok [of sample_os ?v] by (auto split: sum.splits)
qed

text \<open>The required variables, in the order in which they are reported.\<close>

definition required_vars :: "string list" where
  "required_vars = [''JAMBONZ_API_URL'', ''JAMBONZ_SP_API_KEY'', ''JAMBONZ_SP_SID'', ''JAMBONZ_SBC_PUBLIC_IP'',
     ''DEEPGRAM_API_KEY'', ''DEEPSEEK_API_KEY'', ''NGROK_AUTHTOKEN'']"

text \<open>A URL of slashes alone counts as empty.\<close>

definition lacks :: "environ \<Rightarrow> string \<Rightarrow> bool" where
  "lacks vars k \<longleftrightarrow> (if k = ''JAMBONZ_API_URL'' then \<forall>c\<in>set (Getenv vars k). c = CHR ''/'' else Getenv vars k = [])"

lemma missing_vars_filter: "missing_vars vars = filter (lacks vars) required_vars"
proof -
  have "trim_right P u = [] \<longleftrightarrow> (\<forall>c\<in>set u. P c)" for P u by (auto simp: trim_right_def)
  then show ?thesis
    by (simp add: missing_vars_def required_vars_def requires_def Let_def lacks_def base_settings_def)
qed

lemma later_not_missing:
  "read_keyfile os vars var \<noteq> Inl (MissingVars vs)" "parse_ttl vars \<noteq> Inl (MissingVars vs)"
  "parse_strict vars \<noteq> Inl (MissingVars vs)" "parse_record_legs vars \<noteq> Inl (MissingVars vs)"
  by (auto simp: read_keyfile_def parse_ttl_def parse_strict_def parse_record_legs_def Let_def
      split: sum.splits option.splits)

lemma parse_MissingVars:
  "parse os vars = Inl (MissingVars vs) \<longleftrightarrow> check_required os vars (base_settings vars) = Inl (MissingVars vs)"
  by (simp add: parse_def later_not_missing)

text \<open>
  Loading fails for missing variables exactly if some required variable is unset or
  empty and neither the API URL nor the SBC address is malformed; the error names all of them
  at once, in their order.
\<close>

theorem parse_reports_missing:
  "parse os vars = Inl (MissingVars vs) \<longleftrightarrow>
     vs = filter (lacks vars) required_vars \<and> vs \<noteq> []
     \<and> (lacks vars ''JAMBONZ_API_URL'' \<or> os_url os (APIBaseURL (base_settings vars)) = None)
     \<and> (lacks vars ''JAMBONZ_SBC_PUBLIC_IP'' \<or> ParseIP (Getenv vars ''JAMBONZ_SBC_PUBLIC_IP'') \<noteq> None)"
proof -
  have "APIBaseURL (base_settings vars) = [] \<longleftrightarrow> lacks vars ''JAMBONZ_API_URL''"
    by (auto simp: base_settings_def lacks_def trim_right_def)
  moreover have "Getenv vars ''JAMBONZ_SBC_PUBLIC_IP'' = [] \<longleftrightarrow> lacks vars ''JAMBONZ_SBC_PUBLIC_IP''"
    by (simp add: lacks_def)
  ultimately show ?thesis unfolding parse_MissingVars missing_vars_filter [symmetric]
    by (auto simp: check_required_def Let_def split: option.splits if_splits)
qed

theorem parse_reports_missing_witness:
  "parse sample_os (sample_vars(''NGROK_AUTHTOKEN'' := None, ''JAMBONZ_API_URL'' \<mapsto> ''//''))
     = Inl (MissingVars [''JAMBONZ_API_URL'', ''NGROK_AUTHTOKEN''])"
proof -
  let ?vars = "sample_vars(''NGROK_AUTHTOKEN'' := None, ''JAMBONZ_API_URL'' \<mapsto> ''//'')"
  have "ParseIP (Getenv ?vars ''JAMBONZ_SBC_PUBLIC_IP'') \<noteq> None" by code_simp
  then show ?thesis
    by (simp only: parse_reports_missing) (simp add: required_vars_def lacks_def Getenv_def sample_vars_def)
qed

text \<open>
  C37 (termination): The three walks from the working directory end and find the nearest one: the
  \<open>.env\<close> file, the repository root and the schemas directory are those of the working directory
  itself or of its nearest ancestor that has one, up to and including the root.
\<close>

theorem walks_find_nearest:
  assumes "os_cwd os = Inr (abs_path ps)" and "\<forall>p\<in>set ps. name_elem p" and "Getenv vars ''JAMBONZ_IT_SCHEMAS'' = []"
  shows "findDotEnv os = map_option (\<lambda>d. path_join d ''.env'')
           (find (\<lambda>d. is_file os (path_join d ''.env'')) (ancestors ps))
    \<and> findRepoRoot os = find (\<lambda>d. is_file os (path_join d ''go.mod'')) (ancestors ps)
    \<and> ResolveSchemasRoot os vars =
        (case find (\<lambda>d. os_stat os (path_join d ''schemas'') = Inr True) (ancestors ps) of
           None \<Rightarrow> Inl SchemasNotFound | Some d \<Rightarrow> Inr (path_join d ''schemas''))"
  using assms
  by (simp add: findDotEnv_def findRepoRoot_def ResolveSchemasRoot_def Let_def walk_up_ancestors)

theorem walks_find_nearest_witness:
  "findDotEnv sample_os = Some ''/w/.env'' \<and> findRepoRoot sample_os = Some ''/w''
   \<and> ResolveSchemasRoot sample_os Map.empty = Inr ''/w/schemas''"
proof -
  let ?ps = "[''w'', ''tests'', ''verbs'']"
  have found: "find (\<lambda>d. is_file sample_os (path_join d ''.env'')) (ancestors ?ps) = Some ''/w''"
    "find (\<lambda>d. is_file sample_os (path_join d ''go.mod'')) (ancestors ?ps) = Some ''/w''"
    "find (\<lambda>d. os_stat sample_os (path_join d ''schemas'') = Inr True) (ancestors ?ps) = Some ''/w''"
    "path_join ''/w'' ''.env'' = ''/w/.env''" "path_join ''/w'' ''schemas'' = ''/w/schemas''"
    by code_simp+
  have "os_cwd sample_os = Inr (abs_path ?ps)" and "\<forall>p\<in>set ?ps. name_elem p" and "Getenv Map.empty ''JAMBONZ_IT_SCHEMAS'' = []"
    by code_simp+
  from walks_find_nearest [OF this] show ?thesis by (simp only: found option.map option.case simp_thms)
qed

end
