(* ===== verification/Provision_Managed.thy ===== *)
theory Provision_Managed
  imports Provision_Suite Provision_Resources
begin

text \<open>
  The \<open>Managed...\<close> operations of \<open>internal/provision\<close>: create a resource and register its deletion
  with the running test. A test keeps a stack of cleanups, which the testing package runs last
  in, first out, when the test ends, also after a fatal error. The lemmas show that
  what the platform created for a test is asked to be deleted when it ends, in the reverse order,
  but for a last resource whose answer the client refused.
\<close>

datatype managed_kind =
    KAccount | KApplication | KVoipCarrier | KSIPClient | KSipGateway | KPhoneNumber | KLcr
  | KMsTeamsTenant | KApiKey | KCall | KSpeech string

fun kind_label :: "managed_kind \<Rightarrow> string" where
  "kind_label KAccount = ''account''"
| "kind_label KApplication = ''application''"
| "kind_label KVoipCarrier = ''voip_carrier''"
| "kind_label KSIPClient = ''SIP client''"
| "kind_label KSipGateway = ''sip_gateway''"
| "kind_label KPhoneNumber = ''phone_number''"
| "kind_label KLcr = ''lcr''"
| "kind_label KMsTeamsTenant = ''ms_teams_tenant''"
| "kind_label KApiKey = ''api_key''"
| "kind_label KCall = ''call''"
| "kind_label (KSpeech acct) = ''speech credential''"

record cleanup =
  cu_kind :: managed_kind
  cu_client :: client
  cu_sid :: string

text \<open>The test: what it did to the platform, its cleanups, the fatal error, the log.\<close>

record 'sch test_state =
  ts_rest :: "'sch rest_state"
  ts_cleanups :: "cleanup list"
  ts_fatal :: "(string \<times> rest_error) option"
  ts_logs :: "(string \<times> rest_error) list"

definition delete_managed ::
  "'sch rest_env \<Rightarrow> cleanup \<Rightarrow> 'sch rest_state \<Rightarrow> rest_error option \<times> 'sch rest_state" where
  "delete_managed env cu =
     (case cu_kind cu of
        KAccount \<Rightarrow> DeleteAccount env (cu_client cu) (cu_sid cu)
      | KApplication \<Rightarrow> DeleteApplication env (cu_client cu) (cu_sid cu)
      | KVoipCarrier \<Rightarrow> DeleteVoipCarrier env (cu_client cu) (cu_sid cu)
      | KSIPClient \<Rightarrow> DeleteSIPClient env (cu_client cu) (cu_sid cu)
      | KSipGateway \<Rightarrow> DeleteSipGateway env (cu_client cu) (cu_sid cu)
      | KPhoneNumber \<Rightarrow> DeletePhoneNumber env (cu_client cu) (cu_sid cu)
      | KLcr \<Rightarrow> DeleteLcr env (cu_client cu) (cu_sid cu)
      | KMsTeamsTenant \<Rightarrow> DeleteMsTeamsTenant env (cu_client cu) (cu_sid cu)
      | KApiKey \<Rightarrow> DeleteApiKey env (cu_client cu) (cu_sid cu)
      | KCall \<Rightarrow> DeleteCall env (cu_client cu) (cu_sid cu)
      | KSpeech acct \<Rightarrow> DeleteAccountSpeechCredential env (cu_client cu) acct (cu_sid cu))"

text \<open>Nothing happens after a fatal error: \<open>t.Fatalf\<close> ends the test's goroutine.\<close>

definition managed ::
  "('sch rest_state \<Rightarrow> (rest_error + string) \<times> 'sch rest_state) \<Rightarrow> string \<Rightarrow> managed_kind \<Rightarrow> client
     \<Rightarrow> 'sch test_state \<Rightarrow> 'sch test_state" where
  "managed create what kind c t =
     (if ts_fatal t \<noteq> None then t
      else case create (ts_rest t) of
        (Inl err, st) \<Rightarrow> t\<lparr>ts_rest := st, ts_fatal := Some (what, err)\<rparr>
      | (Inr sid, st) \<Rightarrow>
          t\<lparr>ts_rest := st, ts_cleanups := \<lparr>cu_kind = kind, cu_client = c, cu_sid = sid\<rparr> # ts_cleanups t\<rparr>)"

definition ManagedAccount where
  "ManagedAccount env c a = managed (CreateAccount env c a) ''create account'' KAccount c"

definition ManagedApplication where
  "ManagedApplication env c a = managed (CreateApplication env c a) ''create application'' KApplication c"

definition ManagedVoipCarrier where
  "ManagedVoipCarrier env c v = managed (CreateVoipCarrier env c v) ''create voip carrier'' KVoipCarrier c"

text \<open>The user name and password are made here, since the platform does not return them.\<close>

definition sip_client_body :: "string \<Rightarrow> string \<Rightarrow> string \<Rightarrow> client \<Rightarrow> sip_client_create" where
  "sip_client_body runID rand1 rand2 c =
     \<lparr>sn_AccountSID = cl_accountSID c, sn_Username = uniqueUsername runID rand1 ''uas'', sn_Password = randomPassword rand2,
      sn_IsActive = ''1'', sn_AppCalling = [], sn_QueueCalling = [], sn_UserCalling = []\<rparr>"

definition ManagedSIPClient where
  "ManagedSIPClient env runID rand1 rand2 c =
     managed (CreateSIPClient env c (sip_client_body runID rand1 rand2 c)) ''create SIP client'' KSIPClient c"

definition ManagedSipGateway where
  "ManagedSipGateway env c g = managed (CreateSipGateway env c g) ''create sip gateway'' KSipGateway c"

definition ManagedPhoneNumber where
  "ManagedPhoneNumber env c p = managed (ProvisionPhoneNumber env c p) ''provision phone number'' KPhoneNumber c"

definition ManagedLcr where
  "ManagedLcr env c l = managed (CreateLcr env c l) ''create lcr'' KLcr c"

definition ManagedMsTeamsTenant where
  "ManagedMsTeamsTenant env c m = managed (CreateMsTeamsTenant env c m) ''create ms_teams_tenant'' KMsTeamsTenant c"

text \<open>The id of the new key; its token goes to the test and is not needed for the cleanup.\<close>

definition create_key_sid where
  "create_key_sid env c k st =
     (case CreateApiKey env c k st of (Inl err, st') \<Rightarrow> (Inl err, st') | (Inr (sid, token), st') \<Rightarrow> (Inr sid, st'))"

definition ManagedApiKey where
  "ManagedApiKey env c k = managed (create_key_sid env c k) ''create api_key'' KApiKey c"

definition ManagedCall where
  "ManagedCall env c b = managed (CreateCall env c b) ''create call'' KCall c"

definition ManagedAccountSpeechCredential where
  "ManagedAccountSpeechCredential env c acct s =
     managed (CreateAccountSpeechCredential env c acct s) ''create speech credential'' (KSpeech acct) c"

text \<open>The cleanups: a deletion that fails is logged, and the next one runs all the same.\<close>

fun run_cleanups :: "'sch rest_env \<Rightarrow> cleanup list \<Rightarrow> 'sch test_state \<Rightarrow> 'sch test_state" where
  "run_cleanups env [] t = t"
| "run_cleanups env (cu # cus) t =
     (let (err, st) = delete_managed env cu (ts_rest t) in
      run_cleanups env cus (t\<lparr>ts_rest := st,
        ts_logs := ts_logs t @ (case err of None \<Rightarrow> []
          | Some e \<Rightarrow> [(''cleanup: delete '' @ kind_label (cu_kind cu) @ '' '' @ cu_sid cu, e)])\<rparr>))"

section \<open>A test\<close>

datatype managed_op =
    MAccount client account_create
  | MApplication client application_create
  | MVoipCarrier client voip_carrier_create
  | MSIPClient client string string string
  | MSipGateway client sip_gateway_create
  | MPhoneNumber client phone_number_create
  | MLcr client lcr_create
  | MMsTeamsTenant client ms_teams_tenant_create
  | MApiKey client api_key_create
  | MCall client call_create
  | MSpeech client string speech_credential_create

fun managed_step :: "'sch rest_env \<Rightarrow> managed_op \<Rightarrow> 'sch test_state \<Rightarrow> 'sch test_state" where
  "managed_step env (MAccount c a) = ManagedAccount env c a"
| "managed_step env (MApplication c a) = ManagedApplication env c a"
| "managed_step env (MVoipCarrier c v) = ManagedVoipCarrier env c v"
| "managed_step env (MSIPClient c runID r1 r2) = ManagedSIPClient env runID r1 r2 c"
| "managed_step env (MSipGateway c g) = ManagedSipGateway env c g"
| "managed_step env (MPhoneNumber c p) = ManagedPhoneNumber env c p"
| "managed_step env (MLcr c l) = ManagedLcr env c l"
| "managed_step env (MMsTeamsTenant c m) = ManagedMsTeamsTenant env c m"
| "managed_step env (MApiKey c k) = ManagedApiKey env c k"
| "managed_step env (MCall c b) = ManagedCall env c b"
| "managed_step env (MSpeech c acct s) = ManagedAccountSpeechCredential env c acct s"

definition fresh_test :: "'sch rest_state \<Rightarrow> 'sch test_state" where
  "fresh_test st = \<lparr>ts_rest = st, ts_cleanups = [], ts_fatal = None, ts_logs = []\<rparr>"

definition end_test :: "'sch rest_env \<Rightarrow> 'sch test_state \<Rightarrow> 'sch test_state" where
  "end_test env t = run_cleanups env (ts_cleanups t) (t\<lparr>ts_cleanups := []\<rparr>)"

section \<open>What a cleanup sends\<close>

definition cleanup_path :: "cleanup \<Rightarrow> string" where
  "cleanup_path cu =
     (case cu_kind cu of
        KAccount \<Rightarrow> ''/Accounts/'' @ cu_sid cu
      | KApplication \<Rightarrow> ''/Applications/'' @ cu_sid cu
      | KVoipCarrier \<Rightarrow> ''/VoipCarriers/'' @ cu_sid cu
      | KSIPClient \<Rightarrow> ''/Clients/'' @ cu_sid cu
      | KSipGateway \<Rightarrow> ''/SipGateways/'' @ cu_sid cu
      | KPhoneNumber \<Rightarrow> ''/PhoneNumbers/'' @ cu_sid cu
      | KLcr \<Rightarrow> ''/Lcrs/'' @ cu_sid cu
      | KMsTeamsTenant \<Rightarrow> ''/MicrosoftTeamsTenants/'' @ cu_sid cu
      | KApiKey \<Rightarrow> ''/ApiKeys/'' @ cu_sid cu
      | KCall \<Rightarrow> calls_path (cu_client cu) @ ''/'' @ cu_sid cu
      | KSpeech acct \<Rightarrow> credentials_path acct @ ''/'' @ cu_sid cu)"

definition cleanup_call :: "cleanup \<Rightarrow> rest_call" where
  "cleanup_call cu = the_call (cu_client cu) ''DELETE'' (cleanup_path cu) None"

definition deletions :: "rest_call list \<Rightarrow> rest_call list" where
  "deletions log = filter (\<lambda>call. rc_Method call = ''DELETE'') log"

lemma deletions_append [simp]: "deletions (a @ b) = deletions a @ deletions b"
  by (simp add: deletions_def)

text \<open>A call can be deleted by the client that created it, which is scoped to an account.\<close>

definition cleanable :: "cleanup \<Rightarrow> bool" where
  "cleanable cu \<longleftrightarrow> (cu_kind cu = KCall \<longrightarrow> cl_accountSID (cu_client cu) \<noteq> [])"

lemma deletions_DeleteAccount:
  assumes "buildable env c ''DELETE'' (''/Accounts/'' @ sid) None"
  shows "deletions (rs_log (snd (DeleteAccount env c sid st)))
       = deletions (rs_log st) @ [the_call c ''DELETE'' (''/Accounts/'' @ sid) None]"
proof -
  from DeleteAccount_log [OF assms, of st] obtain gets where
    g: "rs_log (snd (DeleteAccount env c sid st)) = rs_log st @ the_call c ''DELETE'' (''/Accounts/'' @ sid) None # gets"
      "\<forall>call\<in>set gets. is_get call" by blast
  then have "deletions gets = []" by (auto simp: deletions_def filter_empty_conv)
  with g show ?thesis by (simp add: deletions_def)
qed

lemmas single_deletions =
  application_del.one_call carrier_del.one_call client_del.one_call gateway_del.one_call number_del.one_call
  lcr_del.one_call tenant_del.one_call key_del.one_call call_del.one_call credential_del.one_call

lemma delete_managed_deletion:
  assumes "buildable env (cu_client cu) ''DELETE'' (cleanup_path cu) None" and "cleanable cu"
  shows "deletions (rs_log (snd (delete_managed env cu st))) = deletions (rs_log st) @ [cleanup_call cu]"
proof (cases "cu_kind cu = KAccount")
  case True
  then show ?thesis using assms deletions_DeleteAccount [of env "cu_client cu" "cu_sid cu" st]
    by (simp add: delete_managed_def cleanup_call_def cleanup_path_def)
next
  case False
  then have "rs_log (snd (delete_managed env cu st)) = rs_log st @ [cleanup_call cu]"
    using assms single_deletions
    by (cases "cu_kind cu") (auto simp: delete_managed_def cleanup_call_def cleanup_path_def cleanable_def)
  then show ?thesis by (simp add: deletions_def cleanup_call_def)
qed

lemma run_cleanups_deletions:
  assumes "\<forall>c p. buildable env c ''DELETE'' p None"
  shows "\<forall>cu\<in>set cus. cleanable cu \<Longrightarrow>
    deletions (rs_log (ts_rest (run_cleanups env cus t))) = deletions (rs_log (ts_rest t)) @ map cleanup_call cus"
proof (induction cus arbitrary: t)
  case (Cons cu cus)
  obtain err st where d: "delete_managed env cu (ts_rest t) = (err, st)" by fastforce
  with delete_managed_deletion [of env cu "ts_rest t"] assms Cons.prems
  have "deletions (rs_log st) = deletions (rs_log (ts_rest t)) @ [cleanup_call cu]" by simp
  with d Cons show ?case by simp
qed simp

section \<open>What creating sends\<close>

abbreviation posts_only :: "rest_call \<Rightarrow> bool" where
  "posts_only call \<equiv> rc_Method call \<noteq> ''DELETE''"

lemma posts_deletions: "sends posts_only s t \<Longrightarrow> deletions (rs_log t) = deletions (rs_log s)"
  by (auto simp: sends_def deletions_def filter_empty_conv)

lemma create_op_posts: "sends posts_only st (snd (create_op env c path body schema what st))"
  unfolding create_op_def by (rule read_op_sends) simp

lemma create_key_sid_posts: "sends posts_only st (snd (create_key_sid env c k st))"
  using setup_steps_send(2) [of st env c k] by (auto simp: create_key_sid_def split: prod.splits sum.splits)

text \<open>The four arguments of \<open>managed\<close>, by operation.\<close>

fun op_create :: "'sch rest_env \<Rightarrow> managed_op \<Rightarrow> 'sch rest_state \<Rightarrow> (rest_error + string) \<times> 'sch rest_state" where
  "op_create env (MAccount c a) = CreateAccount env c a"
| "op_create env (MApplication c a) = CreateApplication env c a"
| "op_create env (MVoipCarrier c v) = CreateVoipCarrier env c v"
| "op_create env (MSIPClient c runID r1 r2) = CreateSIPClient env c (sip_client_body runID r1 r2 c)"
| "op_create env (MSipGateway c g) = CreateSipGateway env c g"
| "op_create env (MPhoneNumber c p) = ProvisionPhoneNumber env c p"
| "op_create env (MLcr c l) = CreateLcr env c l"
| "op_create env (MMsTeamsTenant c m) = CreateMsTeamsTenant env c m"
| "op_create env (MApiKey c k) = create_key_sid env c k"
| "op_create env (MCall c b) = CreateCall env c b"
| "op_create env (MSpeech c acct s) = CreateAccountSpeechCredential env c acct s"

fun op_kind :: "managed_op \<Rightarrow> managed_kind" where
  "op_kind (MAccount c a) = KAccount"
| "op_kind (MApplication c a) = KApplication"
| "op_kind (MVoipCarrier c v) = KVoipCarrier"
| "op_kind (MSIPClient c runID r1 r2) = KSIPClient"
| "op_kind (MSipGateway c g) = KSipGateway"
| "op_kind (MPhoneNumber c p) = KPhoneNumber"
| "op_kind (MLcr c l) = KLcr"
| "op_kind (MMsTeamsTenant c m) = KMsTeamsTenant"
| "op_kind (MApiKey c k) = KApiKey"
| "op_kind (MCall c b) = KCall"
| "op_kind (MSpeech c acct s) = KSpeech acct"

fun op_client :: "managed_op \<Rightarrow> client" where
  "op_client (MAccount c a) = c"
| "op_client (MApplication c a) = c"
| "op_client (MVoipCarrier c v) = c"
| "op_client (MSIPClient c runID r1 r2) = c"
| "op_client (MSipGateway c g) = c"
| "op_client (MPhoneNumber c p) = c"
| "op_client (MLcr c l) = c"
| "op_client (MMsTeamsTenant c m) = c"
| "op_client (MApiKey c k) = c"
| "op_client (MCall c b) = c"
| "op_client (MSpeech c acct s) = c"

text \<open>
  The resources whose creation succeeded for the test, in the order they were created: the first
  one that fails ends the test. What the platform created is another question, see below.
\<close>

fun made :: "'sch rest_env \<Rightarrow> managed_op list \<Rightarrow> 'sch rest_state \<Rightarrow> cleanup list" where
  "made env [] st = []"
| "made env (m # ms) st =
     (case op_create env m st of
        (Inl err, st') \<Rightarrow> []
      | (Inr sid, st') \<Rightarrow> \<lparr>cu_kind = op_kind m, cu_client = op_client m, cu_sid = sid\<rparr> # made env ms st')"

lemma managed_step_managed:
  "\<exists>what. managed_step env m = managed (op_create env m) what (op_kind m) (op_client m)"
  by (cases m) (auto simp: ManagedAccount_def ManagedApplication_def ManagedVoipCarrier_def ManagedSIPClient_def
      ManagedSipGateway_def ManagedPhoneNumber_def ManagedLcr_def ManagedMsTeamsTenant_def ManagedApiKey_def
      ManagedCall_def ManagedAccountSpeechCredential_def)

lemma op_create_posts: "sends posts_only st (snd (op_create env m st))"
  by (cases m) (auto simp: CreateAccount_def CreateApplication_def CreateVoipCarrier_def CreateSIPClient_def
      CreateSipGateway_def ProvisionPhoneNumber_def CreateLcr_def CreateMsTeamsTenant_def CreateCall_def
      CreateAccountSpeechCredential_def intro: create_op_posts create_key_sid_posts)

text \<open>A call is created only by a client scoped to an account, so it can be deleted.\<close>

lemma op_create_cleanable:
  "op_create env m st = (Inr sid, st') \<Longrightarrow> cleanable \<lparr>cu_kind = op_kind m, cu_client = op_client m, cu_sid = sid\<rparr>"
  by (cases m) (auto simp: cleanable_def CreateCall_def split: if_splits)

lemma made_cleanable: "\<forall>cu\<in>set (made env ops st). cleanable cu"
  by (induction ops arbitrary: st) (auto intro: op_create_cleanable [OF sym] split: prod.split sum.split)

lemma managed_step_fatal: "ts_fatal t \<noteq> None \<Longrightarrow> managed_step env m t = t"
  using managed_step_managed [of env m] by (auto simp: managed_def)

lemma fold_managed_fatal: "ts_fatal t \<noteq> None \<Longrightarrow> fold (managed_step env) ops t = t"
  by (induction ops) (simp_all add: managed_step_fatal)

text \<open>While the test runs it deletes nothing, and its cleanups are what it made, the last on top.\<close>

lemma fold_managed_step:
  assumes "ts_fatal t = None"
  shows "ts_cleanups (fold (managed_step env) ops t) = rev (made env ops (ts_rest t)) @ ts_cleanups t
    \<and> deletions (rs_log (ts_rest (fold (managed_step env) ops t))) = deletions (rs_log (ts_rest t))"
  using assms
proof (induction ops arbitrary: t)
  case (Cons m ops)
  obtain what where w: "managed_step env m = managed (op_create env m) what (op_kind m) (op_client m)"
    using managed_step_managed by blast
  obtain r st where r: "op_create env m (ts_rest t) = (r, st)" by fastforce
  with posts_deletions [OF op_create_posts [of "ts_rest t" env m]]
  have d: "deletions (rs_log st) = deletions (rs_log (ts_rest t))" by simp
  show ?case
  proof (cases r)
    case (Inl err)
    with w r d Cons.prems show ?thesis by (simp add: managed_def fold_managed_fatal)
  next
    case (Inr sid)
    with w r d Cons.prems Cons.IH show ?thesis by (simp add: managed_def)
  qed
qed simp

section \<open>What the platform created\<close>

text \<open>
  Read off the requests and the answers alone: a POST that the platform answers with 201 and a body
  with an id has created the resource at the URL of the POST with that id behind it, whatever the
  client makes of the answer.
\<close>

definition created_by :: "'sch rest_env \<Rightarrow> rest_call list \<Rightarrow> rest_call \<Rightarrow> string option" where
  "created_by env before call =
     (if rc_Method call \<noteq> ''POST'' then None
      else case re_server env before call of
        Response status raw \<Rightarrow> if status = 201 then unmarshal_as decode_sid raw else None
      | _ \<Rightarrow> None)"

fun created_urls :: "'sch rest_env \<Rightarrow> rest_call list \<Rightarrow> rest_call list \<Rightarrow> string list" where
  "created_urls env before [] = []"
| "created_urls env before (call # calls) =
     (case created_by env before call of None \<Rightarrow> [] | Some sid \<Rightarrow> [rc_URL call @ ''/'' @ sid])
       @ created_urls env (before @ [call]) calls"

text \<open>
  The two errors of a creation that do not exclude that the resource exists: the answer violates
  its schema, or the token of a new API key does not decode.
\<close>

definition answer_refused :: "rest_error \<Rightarrow> bool" where
  "answer_refused err \<longleftrightarrow> (\<exists>v. err = RContract v) \<or> err = RDecode ''decode SuccessfulApiKeyAdd''"

lemma handle_answer_cases:
  assumes "handle_answer env ''POST'' path schema 201 ans st = ((raw, err), st')"
  shows "rs_log st' = rs_log st \<and>
    (case err of
       None \<Rightarrow> ans = Response 201 raw
     | Some e \<Rightarrow> (\<forall>raw. ans \<noteq> Response 201 raw) \<or> (\<exists>v. e = RContract v))"
  using assms by (auto simp: handle_answer_def Let_def split: rest_answer.splits if_splits prod.splits option.splits)

lemma read_op_created:
  assumes "read_op env c ''POST'' path (Some body) schema 201 dec what st = (r, st')"
  defines "call \<equiv> the_call c ''POST'' path (Some body)"
  shows "rs_log st' = rs_log st \<and> isl r \<or> rs_log st' = rs_log st @ [call]
     \<and> (case r of
          Inr x \<Rightarrow> \<exists>raw. re_server env (rs_log st) call = Response 201 raw \<and> unmarshal_as dec raw = Some x
        | Inl err \<Rightarrow> created_by env (rs_log st) call = None \<or> (\<exists>v. err = RContract v) \<or> err = RDecode what
            \<and> (\<exists>raw. re_server env (rs_log st) call = Response 201 raw \<and> unmarshal_as dec raw = None))"
proof (cases "buildable env c ''POST'' path (Some body)")
  case False
  then show ?thesis using assms(1)
    by (auto simp: read_op_def Request_def buildable_def split: option.splits)
next
  case True
  let ?ans = "re_server env (rs_log st) call" and ?st = "st\<lparr>rs_log := rs_log st @ [call]\<rparr>"
  obtain raw err st2 where h: "handle_answer env ''POST'' path schema 201 ?ans ?st = ((raw, err), st2)"
    by (metis prod.exhaust)
  note hc = handle_answer_cases [OF h]
  have r: "(r, st') = (case err of Some e \<Rightarrow> (Inl e, st2)
      | None \<Rightarrow> ((case unmarshal_as dec raw of None \<Rightarrow> Inl (RDecode what) | Some a \<Rightarrow> Inr a), st2))"
    using assms(1) True h by (simp add: read_op_def Request_buildable call_def split: option.splits)
  have cb: "(\<forall>raw. ?ans \<noteq> Response 201 raw) \<Longrightarrow> created_by env (rs_log st) call = None"
    by (auto simp: created_by_def split: rest_answer.split)
  show ?thesis
  proof (cases err)
    case None
    with r hc show ?thesis by (auto split: option.splits)
  next
    case (Some e)
    with r hc cb show ?thesis by auto
  qed
qed

lemma create_op_created:
  assumes "create_op env c path body schema what st = (r, st')"
  defines "call \<equiv> the_call c ''POST'' path (Some body)"
  shows "rs_log st' = rs_log st \<and> isl r \<or> rs_log st' = rs_log st @ [call]
     \<and> (case r of Inr sid \<Rightarrow> created_by env (rs_log st) call = Some sid
        | Inl err \<Rightarrow> created_by env (rs_log st) call = None \<or> answer_refused err)"
proof -
  have m: "rc_Method call = ''POST''" by (simp add: call_def the_call_def)
  from read_op_created [OF assms(1) [unfolded create_op_def]] m show ?thesis
    unfolding call_def by (auto simp: created_by_def answer_refused_def split: sum.splits)
qed

text \<open>The id of an API key is read alike with and without its token.\<close>

lemma decode_key_members:
  "decode_members [(''sid'', str_field (\<lambda>s p. (s, snd p))), (''token'', str_field (\<lambda>s p. (fst p, s)))] m (a, b) = Some (s, t)
     \<Longrightarrow> decode_members [(''sid'', str_field (\<lambda>s _. s))] m a = Some s"
proof (induction m arbitrary: a b)
  case (Cons kv m)
  obtain k v where kv: "kv = (k, v)" by (cases kv)
  show ?case
  proof (cases "equal_fold k ''sid''")
    case True
    with Cons.prems kv Cons.IH show ?thesis by (cases v) (auto simp: str_field_def)
  next
    case False
    with Cons.prems kv Cons.IH show ?thesis by (cases v) (auto simp: str_field_def split: if_splits)
  qed
qed simp

lemma decode_key_sid: "unmarshal_as decode_api_key raw = Some (s, t) \<Longrightarrow> unmarshal_as decode_sid raw = Some s"
  using decode_key_members
  by (auto simp: unmarshal_as_def decode_api_key_def decode_sid_def decode_struct_def split: option.splits json.splits)

lemma create_key_created:
  assumes "create_key_sid env c k st = (r, st')"
  defines "call \<equiv> the_call c ''POST'' ''/ApiKeys'' (Some (api_key_create_json k))"
  shows "rs_log st' = rs_log st \<and> isl r \<or> rs_log st' = rs_log st @ [call]
     \<and> (case r of Inr sid \<Rightarrow> created_by env (rs_log st) call = Some sid
        | Inl err \<Rightarrow> created_by env (rs_log st) call = None \<or> answer_refused err)"
proof -
  obtain q where q: "CreateApiKey env c k st = (q, st')" and r: "r = (case q of Inl e \<Rightarrow> Inl e | Inr (sid, token) \<Rightarrow> Inr sid)"
    using assms(1) by (auto simp: create_key_sid_def split: prod.splits sum.splits)
  have m: "rc_Method call = ''POST''" by (simp add: call_def the_call_def)
  from read_op_created [OF q [unfolded CreateApiKey_def]] m decode_key_sid r show ?thesis
    unfolding call_def by (cases q) (fastforce simp: created_by_def answer_refused_def)+
qed

lemma created_at:
  "create_op env c path body schema what st = (r, st') \<Longrightarrow>
   (\<And>sid. rc_URL (cleanup_call (cu sid)) = cl_base c @ path @ ''/'' @ sid) \<Longrightarrow>
     rs_log st' = rs_log st \<and> isl r \<or> (\<exists>call. rs_log st' = rs_log st @ [call]
       \<and> (case r of Inr sid \<Rightarrow> created_by env (rs_log st) call = Some sid \<and> rc_URL (cleanup_call (cu sid)) = rc_URL call @ ''/'' @ sid
          | Inl err \<Rightarrow> created_by env (rs_log st) call = None \<or> answer_refused err))"
  using create_op_created [of env c path body schema what st r st']
  by (cases r) (auto simp: the_call_def)

lemma op_create_created:
  assumes "op_create env m st = (r, st')"
  defines "cu \<equiv> \<lambda>sid. \<lparr>cu_kind = op_kind m, cu_client = op_client m, cu_sid = sid\<rparr>"
  shows "rs_log st' = rs_log st \<and> isl r \<or> (\<exists>call. rs_log st' = rs_log st @ [call]
     \<and> (case r of Inr sid \<Rightarrow> created_by env (rs_log st) call = Some sid \<and> rc_URL (cleanup_call (cu sid)) = rc_URL call @ ''/'' @ sid
        | Inl err \<Rightarrow> created_by env (rs_log st) call = None \<or> answer_refused err))"
proof (cases "(\<exists>c k. m = MApiKey c k) \<or> (\<exists>c b. m = MCall c b \<and> cl_accountSID c = [])")
  case True
  then show ?thesis
  proof (elim disjE exE conjE)
    fix c k
    assume m: "m = MApiKey c k"
    with assms(1) have "create_key_sid env c k st = (r, st')" by simp
    from create_key_created [OF this] m show ?thesis
      by (cases r) (auto simp: cu_def the_call_def cleanup_call_def cleanup_path_def)
  next
    fix c b
    assume "m = MCall c b" "cl_accountSID c = []"
    with assms(1) show ?thesis by (auto simp: CreateCall_def)
  qed
next
  case False
  then obtain path body schema what where
    c: "create_op env (op_client m) path body schema what st = (r, st')"
    and p: "cleanup_path (cu sid) = path @ ''/'' @ sid" for sid
    using assms(1) by (cases m) (fastforce simp: cu_def cleanup_path_def CreateAccount_def CreateApplication_def
        CreateVoipCarrier_def CreateSIPClient_def CreateSipGateway_def ProvisionPhoneNumber_def CreateLcr_def
        CreateMsTeamsTenant_def CreateCall_def CreateAccountSpeechCredential_def)+
  have "rc_URL (cleanup_call (cu sid)) = cl_base (op_client m) @ path @ ''/'' @ sid" for sid
    by (simp add: cleanup_call_def the_call_def p) (simp add: cu_def)
  from created_at [OF c, of cu, OF this] show ?thesis .
qed

lemma fold_managed_created:
  assumes "ts_fatal t = None"
  shows "\<exists>new missed. rs_log (ts_rest (fold (managed_step env) ops t)) = rs_log (ts_rest t) @ new
    \<and> created_urls env (rs_log (ts_rest t)) new = map (\<lambda>cu. rc_URL (cleanup_call cu)) (made env ops (ts_rest t)) @ missed
    \<and> (missed = [] \<or> length missed = 1 \<and> (\<exists>what err. ts_fatal (fold (managed_step env) ops t) = Some (what, err) \<and> answer_refused err))"
  using assms
proof (induction ops arbitrary: t)
  case (Cons m ops)
  obtain what where w: "managed_step env m = managed (op_create env m) what (op_kind m) (op_client m)"
    using managed_step_managed by blast
  obtain r st where r: "op_create env m (ts_rest t) = (r, st)" by fastforce
  show ?case
  proof (cases r)
    case (Inl err)
    then have u: "fold (managed_step env) (m # ops) t = t\<lparr>ts_rest := st, ts_fatal := Some (what, err)\<rparr>"
      using w r Cons.prems by (simp add: managed_def fold_managed_fatal)
    have md: "made env (m # ops) (ts_rest t) = []" using r Inl by simp
    from op_create_created [OF r] Inl consider "rs_log st = rs_log (ts_rest t)"
      | call where "rs_log st = rs_log (ts_rest t) @ [call]" "created_by env (rs_log (ts_rest t)) call = None \<or> answer_refused err"
      by auto
    then show ?thesis
    proof cases
      case 1
      then show ?thesis unfolding u md by (intro exI [of _ "[]"]) simp
    next
      case (2 call)
      then show ?thesis unfolding u md
        by (cases "created_by env (rs_log (ts_rest t)) call") (rule exI [of _ "[call]"]; auto)+
    qed
  next
    case (Inr sid)
    let ?t = "t\<lparr>ts_rest := st, ts_cleanups := \<lparr>cu_kind = op_kind m, cu_client = op_client m, cu_sid = sid\<rparr> # ts_cleanups t\<rparr>"
    have u: "managed_step env m t = ?t" using w r Inr Cons.prems by (simp add: managed_def)
    from op_create_created [OF r] Inr obtain call where call: "rs_log st = rs_log (ts_rest t) @ [call]"
      "created_by env (rs_log (ts_rest t)) call = Some sid"
      "rc_URL (cleanup_call \<lparr>cu_kind = op_kind m, cu_client = op_client m, cu_sid = sid\<rparr>) = rc_URL call @ ''/'' @ sid" by auto
    have "ts_fatal ?t = None" using Cons.prems by simp
    from Cons.IH [OF this] obtain new missed where
      n: "rs_log (ts_rest (fold (managed_step env) ops ?t)) = rs_log st @ new"
        "created_urls env (rs_log st) new = map (\<lambda>cu. rc_URL (cleanup_call cu)) (made env ops st) @ missed"
        "missed = [] \<or> length missed = 1 \<and> (\<exists>what err. ts_fatal (fold (managed_step env) ops ?t) = Some (what, err) \<and> answer_refused err)"
      by auto
    have "created_urls env (rs_log (ts_rest t)) (call # new)
        = map (\<lambda>cu. rc_URL (cleanup_call cu)) (made env (m # ops) (ts_rest t)) @ missed"
      using call n(2) r Inr by simp
    moreover have "rs_log (ts_rest (fold (managed_step env) (m # ops) t)) = rs_log (ts_rest t) @ call # new"
      using n(1) call(1) u by simp
    ultimately show ?thesis using n(3) u by (intro exI [of _ "call # new"] exI [of _ missed]) simp
  qed
qed simp

text \<open>
  C2 (liveness): When a test ends, also after a fatal error, it asks for the deletion of what the
  platform created for it, as told by the POSTs that were answered with 201 and an id: one
  deletion for each, at its URL, in the reverse order of creation, and none while the test was
  running, whatever the platform answers to any of them. The one exception is the last creation,
  when the client refused its answer because it violates the schema (or is an API key whose token
  does not decode): the test has then failed with that error, and the resource stays.
\<close>

theorem managed_all_deleted:
  assumes "\<forall>c p. buildable env c ''DELETE'' p None"
  shows "let t = fold (managed_step env) ops (fresh_test st) in
    \<exists>new cleaned missed. rs_log (ts_rest t) = rs_log st @ new \<and> deletions new = []
      \<and> created_urls env (rs_log st) new = cleaned @ missed
      \<and> map rc_URL (deletions (rs_log (ts_rest (end_test env t)))) = map rc_URL (deletions (rs_log st)) @ rev cleaned
      \<and> (missed = [] \<or> length missed = 1 \<and> (\<exists>what err. ts_fatal t = Some (what, err) \<and> answer_refused err))"
proof -
  let ?t = "fold (managed_step env) ops (fresh_test st)"
  have f: "ts_fatal (fresh_test st) = None" "ts_rest (fresh_test st) = st" by (simp_all add: fresh_test_def)
  from fold_managed_created [OF f(1), of env ops] f(2) obtain new missed where
    n: "rs_log (ts_rest ?t) = rs_log st @ new"
      "created_urls env (rs_log st) new = map (\<lambda>cu. rc_URL (cleanup_call cu)) (made env ops st) @ missed"
      "missed = [] \<or> length missed = 1 \<and> (\<exists>what err. ts_fatal ?t = Some (what, err) \<and> answer_refused err)" by auto
  have c: "ts_cleanups ?t = rev (made env ops st)" "deletions (rs_log (ts_rest ?t)) = deletions (rs_log st)"
    using fold_managed_step [OF f(1), of env ops] f(2) by (simp_all add: fresh_test_def)
  have "deletions (rs_log (ts_rest (end_test env ?t))) = deletions (rs_log st) @ map cleanup_call (rev (made env ops st))"
    using c made_cleanable [of env ops st] by (simp add: end_test_def run_cleanups_deletions [OF assms])
  then have "map rc_URL (deletions (rs_log (ts_rest (end_test env ?t))))
      = map rc_URL (deletions (rs_log st)) @ rev (map (\<lambda>cu. rc_URL (cleanup_call cu)) (made env ops st))"
    by (simp add: rev_map)
  moreover have "deletions new = []" using c(2) n(1) by simp
  ultimately show ?thesis using n unfolding Let_def by blast
qed

text \<open>Two accounts are made, the third resource is refused: both accounts are deleted.\<close>

definition sample_ops :: "managed_op list" where
  "sample_ops = (let a = MAccount sample_sp (suite_account_create ''n'' ''S'') in
     [a, a, MSIPClient sample_sp ''me'' ''x'' ''y'', a])"

theorem managed_all_deleted_witness:
  "map rc_URL (deletions (rs_log (ts_rest
     (end_test sample_env (fold (managed_step sample_env) sample_ops (fresh_test sample_state))))))
     = [''u/Accounts/A'', ''u/Accounts/A'']"
proof -
  let ?t = "fold (managed_step sample_env) sample_ops (fresh_test sample_state)"
  have l: "rs_log sample_state = []" "deletions [] = []" by (simp_all add: sample_state_def deletions_def)
  have u: "created_urls sample_env [] (rs_log (ts_rest ?t)) = [''u/Accounts/A'', ''u/Accounts/A'']" by code_simp
  have "case ts_fatal ?t of Some (what, RApi e) \<Rightarrow> True | _ \<Rightarrow> False" by code_simp
  then have f: "\<nexists>what err. ts_fatal ?t = Some (what, err) \<and> answer_refused err"
    by (auto simp: answer_refused_def split: option.splits rest_error.splits)
  have "\<forall>c p. buildable sample_env c ''DELETE'' p None" by (simp add: sample_buildable)
  from managed_all_deleted [OF this, of sample_ops sample_state] f obtain new cleaned where
    n: "rs_log (ts_rest ?t) = new" "created_urls sample_env [] new = cleaned"
      "map rc_URL (deletions (rs_log (ts_rest (end_test sample_env ?t)))) = rev cleaned"
    unfolding Let_def l by auto
  from n(2) have "cleaned = [''u/Accounts/A'', ''u/Accounts/A'']" by (simp only: u n(1) [symmetric])
  with n(3) show ?thesis by simp
qed

section \<open>What counts as deleted\<close>

text \<open>The statuses that mean that a resource is gone: asked for, or gone before.\<close>

fun gone_statuses :: "managed_kind \<Rightarrow> int set" where
  "gone_statuses KApiKey = {200, 204, 404}"
| "gone_statuses (KSpeech acct) = {204, 401, 404}"
| "gone_statuses kind = {204, 404}"

lemmas single_verdicts =
  application_del.succeeds carrier_del.succeeds client_del.succeeds gateway_del.succeeds number_del.succeeds
  lcr_del.succeeds tenant_del.succeeds key_del.succeeds call_del.succeeds credential_del.succeeds

lemma DeleteAccount_verdict:
  assumes "\<forall>m p. buildable env c m p None" and "answered env c ''DELETE'' (''/Accounts/'' @ sid) None st = Response status raw"
  shows "fst (DeleteAccount env c sid st) = None \<longleftrightarrow> status \<in> {204, 404}
    \<or> status = 403 \<and> (\<nexists>body. re_server env (rs_log st @ [the_call c ''DELETE'' (''/Accounts/'' @ sid) None])
                              (the_call c ''GET'' (''/Accounts/'' @ sid) None) = Response 200 body)"
  using assms
  by (auto simp: DeleteAccount_def accountVisible_def write_op_def Request_buildable answered_def handle_answer_def
      split: rest_answer.split prod.split)

text \<open>
  C36 (error): A deletion succeeds exactly if the platform says that the resource is gone: 204 and
  404 for every kind, 200 too for an API key, 401 too for a speech credential (whose account may
  be gone), and for an account 403 too, unless a second request shows that the account is still
  visible, so that a lost permission is not taken for a deletion. Anything else is reported.
\<close>

theorem delete_managed_verdict:
  assumes "\<forall>m p. buildable env (cu_client cu) m p None" and "cleanable cu"
    and "re_server env (rs_log st) (cleanup_call cu) = Response status raw"
  shows "fst (delete_managed env cu st) = None \<longleftrightarrow> status \<in> gone_statuses (cu_kind cu)
    \<or> cu_kind cu = KAccount \<and> status = 403
      \<and> (\<nexists>body. re_server env (rs_log st @ [cleanup_call cu])
                   (the_call (cu_client cu) ''GET'' (cleanup_path cu) None) = Response 200 body)"
proof (cases "cu_kind cu = KAccount")
  case True
  with DeleteAccount_verdict [of env "cu_client cu" "cu_sid cu" st status raw] assms show ?thesis
    by (simp add: delete_managed_def cleanup_call_def cleanup_path_def answered_def)
next
  case False
  have "answered env (cu_client cu) ''DELETE'' (cleanup_path cu) None st = Response status raw"
    using assms(3) by (simp add: answered_def cleanup_call_def)
  with False assms(1,2) show ?thesis
    by (cases "cu_kind cu") (simp_all add: single_verdicts delete_managed_def cleanup_path_def cleanable_def, auto)
qed

text \<open>A server that answers 403 to the deletion and does not show the account afterwards.\<close>

definition forbidding_env :: "unit rest_env" where
  "forbidding_env = sample_env\<lparr>re_server := \<lambda>log call. Response (if rc_Method call = ''DELETE'' then 403 else 404) []\<rparr>"

theorem delete_managed_verdict_witness:
  "fst (delete_managed forbidding_env \<lparr>cu_kind = KAccount, cu_client = sample_sp, cu_sid = ''A''\<rparr> sample_state) = None"
  using delete_managed_verdict [of forbidding_env "\<lparr>cu_kind = KAccount, cu_client = sample_sp, cu_sid = ''A''\<rparr>"
      sample_state 403 "[]"]
  by (simp add: forbidding_env_def buildable_def sample_env_def cleanable_def cleanup_call_def the_call_def)

section \<open>A created resource that is not cleaned up\<close>

abbreviation account_schema :: string where
  "account_schema \<equiv> ''rest/accounts/createAccount.response.201.json''"

lemma CreateAccount_result:
  assumes "buildable env c ''POST'' ''/Accounts'' (Some (account_create_json a))"
    and "re_server env (rs_log st) (the_call c ''POST'' ''/Accounts'' (Some (account_create_json a))) = Response status body"
  shows "fst (CreateAccount env c a st) = Inr sid \<longleftrightarrow>
    status = 201 \<and> fst (ValidateResponse (re_schema env) account_schema body (rs_val st)) = None
    \<and> unmarshal_as decode_sid body = Some sid"
  using assms
  by (auto simp: CreateAccount_def create_op_def read_op_def Request_buildable handle_answer_def unmarshal_as_def
      unmarshal_Nil split: prod.split option.splits)

text \<open>
  C30 (error): An account that the platform created (201 with its id) is registered for deletion
  exactly if the answer also satisfies its schema. If it does not, the test ends with a fatal
  error and no cleanup, so nothing deletes the account: a drift of the API's schema leaks what
  was created.
\<close>

theorem ManagedAccount_registers:
  assumes "buildable env c ''POST'' ''/Accounts'' (Some (account_create_json a))" and "ts_fatal t = None"
    and "re_server env (rs_log (ts_rest t)) (the_call c ''POST'' ''/Accounts'' (Some (account_create_json a))) = Response 201 body"
    and "unmarshal_as decode_sid body = Some sid"
  shows "if fst (ValidateResponse (re_schema env) account_schema body (rs_val (ts_rest t))) = None
    then ts_cleanups (ManagedAccount env c a t) = \<lparr>cu_kind = KAccount, cu_client = c, cu_sid = sid\<rparr> # ts_cleanups t
         \<and> ts_fatal (ManagedAccount env c a t) = None
    else ts_cleanups (ManagedAccount env c a t) = ts_cleanups t \<and> ts_fatal (ManagedAccount env c a t) \<noteq> None"
proof -
  obtain r st where r: "CreateAccount env c a (ts_rest t) = (r, st)" by fastforce
  note v = CreateAccount_result [OF assms(1,3)]
  show ?thesis
  proof (cases r)
    case (Inl err)
    with v [of sid] r assms(2,4) show ?thesis by (simp add: ManagedAccount_def managed_def)
  next
    case (Inr x)
    with v [of x] r assms(2,4) show ?thesis by (simp add: ManagedAccount_def managed_def)
  qed
qed

text \<open>The sample platform with a schema that the answer violates.\<close>

definition drifted_env :: "unit rest_env" where
  "drifted_env = sample_env\<lparr>re_schema := (re_schema sample_env)\<lparr>se_validate := \<lambda>s j. Some ''drift''\<rparr>\<rparr>"

theorem ManagedAccount_registers_witness:
  "ts_cleanups (ManagedAccount drifted_env sample_sp (suite_account_create ''n'' ''S'') (fresh_test sample_state)) = []
   \<and> ts_fatal (ManagedAccount drifted_env sample_sp (suite_account_create ''n'' ''S'') (fresh_test sample_state)) \<noteq> None"
proof -
  let ?a = "suite_account_create ''n'' ''S''" and ?body = "''{\"sid\":\"A\"}''"
  have b: "buildable drifted_env sample_sp ''POST'' ''/Accounts'' (Some (account_create_json ?a))"
    by (simp add: buildable_def drifted_env_def sample_env_def)
  have s: "re_server drifted_env (rs_log (ts_rest (fresh_test sample_state)))
      (the_call sample_sp ''POST'' ''/Accounts'' (Some (account_create_json ?a))) = Response 201 ?body"
    by code_simp
  have d: "unmarshal_as decode_sid ?body = Some ''A''" by code_simp
  have f: "ts_fatal (fresh_test sample_state) = None" "ts_cleanups (fresh_test sample_state) = []" by (simp_all add: fresh_test_def)
  have "fst (ValidateResponse (re_schema drifted_env) account_schema ?body (rs_val (ts_rest (fresh_test sample_state)))) \<noteq> None"
    by code_simp
  with ManagedAccount_registers [OF b f(1) s d] f(2) show ?thesis by (simp only: if_False) simp
qed

end
