(* ===== verification/Probe.thy ===== *)
theory Probe
  imports Config Sip_Resolver_Serve Sip_Stack Provision_Managed
begin

text \<open>
  \<open>cmd/probe/main.go\<close>: one account, key, realm, client and call, to see whether the platform routes
  to a synthetic realm. The program is composed of the models of what it calls: the resolver, the
  SIP stack with its registration and the REST client; the network side of each is a parameter.
  \<open>log.Fatalf\<close> ends the process without running deferred functions, a panic runs them. The
  properties say in which of these cases the account is deleted again, the registration
  withdrawn and the resolver closed, and what becomes of a run that is interrupted.
\<close>

section \<open>The program\<close>

text \<open>
  How the program ends: an exit by \<open>log.Fatalf\<close>, a panic or a return with what there is to be torn
  down, or not at all.
\<close>

datatype probe_end =
    is_Fatal: Fatal string rest_error
  | Panicked "static_resolver option" "stack option"
  | Passed static_resolver stack
  | Waiting

text \<open>
  Listening for DNS; the user agent and the registrar's answers; the INVITEs that are dispatched
  before the 20 seconds are over; answering the first of them (codec, the dialog's reply);
  what happens to that call and what \<open>WaitState\<close> sees until its context ends; and, for the
  shutdown, how the drain of each call goes, in which order, and the de-registration.
\<close>

record probe_sip =
  ps_listen :: "string + string"
  ps_ua :: "string option"
  ps_register :: "register_answer list"
  ps_arrivals :: "(int \<times> sip_request) list"
  ps_answer :: "string \<times> dialog_reply"
  ps_during :: "call_event list"
  ps_rounds :: "(call_state \<times> string option) list"
  ps_drain :: "call \<Rightarrow> leg_drain"
  ps_order :: "nat list"
  ps_dereg :: bool

text \<open>\<open>if err != nil { log.Fatalf(...) }\<close> after a step.\<close>

definition or_fatal ::
  "string \<Rightarrow> (rest_error + 'a) \<times> 'st \<Rightarrow> ('a \<Rightarrow> 'st \<Rightarrow> probe_end \<times> 'st) \<Rightarrow> probe_end \<times> 'st" where
  "or_fatal what m k = (case m of (Inl err, st) \<Rightarrow> (Fatal what err, st) | (Inr x, st) \<Rightarrow> k x st)"

definition of_error :: "rest_error option \<times> 'st \<Rightarrow> (rest_error + unit) \<times> 'st" where
  "of_error m = (case m of (None, st) \<Rightarrow> (Inr (), st) | (Some err, st) \<Rightarrow> (Inl err, st))"

text \<open>The handler offers the call to \<open>inbound\<close>, which has room for four, and never blocks on it.\<close>

definition probe_handler :: "call \<Rightarrow> call chan \<Rightarrow> call chan go" where
  "probe_handler call inbound =
     go_bind (try_send call inbound) (\<lambda>sent. Ret (case sent of Some ch \<Rightarrow> ch | None \<Rightarrow> inbound))"

definition probe_calls :: "(int \<times> sip_request) list \<Rightarrow> call list" where
  "probe_calls arrivals = map (\<lambda>(now, req). newInboundCall now req []) arrivals"

definition probe_user :: string where "probe_user = ''probe-uas''"

definition probe_password :: string where "probe_password = ''probe-secret-1234567890abcdef''"

definition probe_config :: "string \<Rightarrow> config" where
  "probe_config realm = \<lparr>cf_SIPDomain = realm, cf_User = probe_user, cf_Pass = probe_password, cf_Transport = ''tcp'',
     cf_LogLevel = [], cf_Owner = [], cf_TLSBindHost = [], cf_TLSBindPort = 0\<rparr>"

definition probe_hook :: webhook where
  "probe_hook = \<lparr>wh_URL = ''https://example.invalid/hook'', wh_Method = ''POST'', wh_Username = [], wh_Password = []\<rparr>"

definition probe_call :: "string \<Rightarrow> call_create" where
  "probe_call realm =
     \<lparr>cc_ApplicationSID = [], cc_CallHook = Some probe_hook, cc_CallStatusHook = Some probe_hook,
      cc_AppJSON = ''[{\"verb\":\"answer\"},{\"verb\":\"pause\",\"length\":1},{\"verb\":\"hangup\"}]'',
      cc_From = ''441514533212'', cc_FromHost = [],
      cc_To = \<lparr>ct_Type = ''user'', ct_Name = probe_user @ ''@'' @ realm, ct_Number = [], ct_Trunk = [], ct_SipURI = [],
               ct_AuthUser = [], ct_AuthPass = [], ct_Headers = []\<rparr>,
      cc_Timeout = 0, cc_TimeLimit = 30, cc_Tag = [], cc_Headers = [], cc_AnswerOnBridge = False,
      cc_SynthVendor = ''google'', cc_SynthLabel = [], cc_SynthLanguage = ''en-US'', cc_SynthVoice = ''en-US-Standard-A'',
      cc_RecogVendor = ''google'', cc_RecogLabel = [], cc_RecogLanguage = ''en-US''\<rparr>"

text \<open>
  Step 8, with the channel as the handlers left it and the calls the stack tracks: the call that is
  received is the first of them. An error of \<open>Answer\<close> is fatal, the result of \<open>WaitState\<close> is not
  looked at.
\<close>

definition probe_answer :: "probe_sip \<Rightarrow> static_resolver \<Rightarrow> stack \<Rightarrow> probe_end" where
  "probe_answer sip resolver stack =
     (let calls = probe_calls (ps_arrivals sip); tracked = fold (\<lambda>c. track (Some c)) calls stack in
      case go_fold probe_handler calls (make_chan 4) of
        Panic \<Rightarrow> Panicked (Some resolver) (Some tracked)
      | Ret inbound \<Rightarrow>
      case try_recv inbound of
        Got call rest \<Rightarrow>
          (case go_bind (Answer (fst (ps_answer sip)) (snd (ps_answer sip)) call)
                  (\<lambda>(err, c1). case err of
                     Some e \<Rightarrow> Ret (Some e, c1)
                   | None \<Rightarrow> go_bind (meanwhile (ps_during sip) c1) (\<lambda>c2. Ret (None, c2))) of
             Panic \<Rightarrow> Panicked (Some resolver) (Some tracked)
           | Ret (Some e, c1) \<Rightarrow> Fatal ''answer'' (RMsg (call_error_text e))
           | Ret (None, c2) \<Rightarrow>
               (case WaitState StateEnded (ps_rounds sip) of
                  PollPending \<Rightarrow> Waiting
                | _ \<Rightarrow> Passed resolver (tracked\<lparr>sk_calls := c2 # tl (sk_calls tracked)\<rparr>)))
      | _ \<Rightarrow> Fatal ''INVITE never arrived at our UAS'' (RMsg []))"

text \<open>Steps 5 to 8: the resolver, the stack with its registration, the call.\<close>

definition probe_leg ::
  "'sch rest_env \<Rightarrow> client \<Rightarrow> string \<Rightarrow> string \<Rightarrow> probe_sip \<Rightarrow> 'sch rest_state \<Rightarrow> probe_end \<times> 'sch rest_state" where
  "probe_leg env acct realm sbcIP sip st =
     or_fatal ''resolver'' (map_sum RMsg id (NewStaticResolver_started ParseIP [(realm, sbcIP)] (ps_listen sip)), st) (\<lambda>resolver st1.
     or_fatal ''sip stack''
         (map_sum RMsg id (Start (ps_ua sip) (\<lambda>host. None) (ps_register sip) True (probe_config realm)), st1) (\<lambda>stack st2.
     or_fatal ''create call'' (CreateCall env acct (probe_call realm) st2) (\<lambda>callSID st3.
     (probe_answer sip resolver stack, st3))))"

text \<open>Steps 3 and 4: the realm, which must read back, and the client.\<close>

definition probe_realm ::
  "'sch rest_env \<Rightarrow> client \<Rightarrow> client \<Rightarrow> string \<Rightarrow> string \<Rightarrow> ('sch rest_state \<Rightarrow> probe_end \<times> 'sch rest_state)
     \<Rightarrow> 'sch rest_state \<Rightarrow> probe_end \<times> 'sch rest_state" where
  "probe_realm env sp acct realm sid k st =
     or_fatal ''set sip_realm'' (of_error (SetSipRealm env acct sid realm st)) (\<lambda>_ st1.
     or_fatal ''verify get account'' (GetAccount env sp sid st1) (\<lambda>a st2.
     if \<not> equal_fold (ac_Realm a) realm
     then (Fatal (''sip_realm not set in DB: got '' @ go_quote (ac_Realm a) @ '' want '' @ go_quote realm) (RMsg []), st2) else
     or_fatal ''create client'' (CreateSIPClient env acct
         \<lparr>sn_AccountSID = sid, sn_Username = probe_user, sn_Password = probe_password, sn_IsActive = ''1'',
          sn_AppCalling = [], sn_QueueCalling = [], sn_UserCalling = []\<rparr> st2) (\<lambda>clientSID st3. k st3)))"

text \<open>\<open>accountToken[:8]\<close> is evaluated for the log and panics on a shorter token.\<close>

definition probe_steps ::
  "'sch rest_env \<Rightarrow> client \<Rightarrow> string \<Rightarrow> settings \<Rightarrow> string \<Rightarrow> probe_sip \<Rightarrow> string \<Rightarrow> 'sch rest_state
     \<Rightarrow> probe_end \<times> 'sch rest_state" where
  "probe_steps env sp name cfg sbcIP sip sid st =
     or_fatal ''create api key''
       (CreateApiKey env sp \<lparr>ak_AccountSID = sid, ak_ServiceProviderSID = [], ak_ExpirySecs = None\<rparr> st) (\<lambda>(key, token) st1.
     if length token < 8 then (Panicked None None, st1) else
     let acct = client_New (APIBaseURL cfg) token sid ''probe-acct''; realm = to_lower name @ ''.'' @ SIPRealmZone cfg in
     probe_realm env sp acct realm sid (probe_leg env acct realm sbcIP sip) st1)"

definition cleanupAccount :: "'sch rest_env \<Rightarrow> client \<Rightarrow> string \<Rightarrow> 'sch rest_state \<Rightarrow> 'sch rest_state" where
  "cleanupAccount env sp sid st =
     (let (res, st1) = ListSIPClientsForAccount env sp sid st;
          clients = (case res of Inl err \<Rightarrow> [] | Inr cls \<Rightarrow> cls)
      in snd (DeleteAccount env sp sid (delete_clients_of env sp sid clients st1)))"

text \<open>
  What a return or a panic runs, last in first out: \<open>stack.Stop\<close> and \<open>resolver.Close\<close>, if they were
  deferred by then. \<open>None\<close> is a \<open>Stop\<close> that does not return.
\<close>

definition Close_resolver :: "static_resolver \<Rightarrow> static_resolver" where
  "Close_resolver r = (case Close_begin r of Ret r' \<Rightarrow> Close_end r' | Panic \<Rightarrow> r)"

definition Stop_probe :: "probe_sip \<Rightarrow> stack \<Rightarrow> stack option" where
  "Stop_probe sip s = Sip_Stack.Stop (ps_drain sip) (ps_order sip) (ps_dereg sip) s"

text \<open>
  \<open>defer cleanupAccount(sp, accountSID)\<close> around the steps. The steps run under the context of
  \<open>withInterrupt\<close> (\<open>env\<close>), the cleanup under a context of its own (\<open>env0\<close>).
\<close>

definition probe ::
  "'sch rest_env \<Rightarrow> 'sch rest_env \<Rightarrow> client \<Rightarrow> string \<Rightarrow> settings \<Rightarrow> string \<Rightarrow> probe_sip \<Rightarrow> 'sch rest_state
     \<Rightarrow> probe_end \<times> 'sch rest_state" where
  "probe env env0 sp runID cfg sbcIP sip st =
     (let name = resource_name runID ''probe'' in
      or_fatal ''create account'' (CreateAccount env sp (suite_account_create name (SPSID cfg)) st) (\<lambda>sid st1.
        case probe_steps env sp name cfg sbcIP sip sid st1 of
          (Passed r s, st2) \<Rightarrow>
            (case Stop_probe sip s of
               None \<Rightarrow> (Waiting, st2)
             | Some s' \<Rightarrow> (Passed (Close_resolver r) s', cleanupAccount env0 sp sid st2))
        | (Panicked r (Some s), st2) \<Rightarrow>
            (case Stop_probe sip s of
               None \<Rightarrow> (Waiting, st2)
             | Some s' \<Rightarrow> (Panicked (map_option Close_resolver r) (Some s'), cleanupAccount env0 sp sid st2))
        | (Panicked r None, st2) \<Rightarrow> (Panicked (map_option Close_resolver r) None, cleanupAccount env0 sp sid st2)
        | (res, st2) \<Rightarrow> (res, st2)))"

text \<open>
  A signal that arrives when \<open>k\<close> requests have been sent: the context is cancelled, and every request
  made with it from then on fails without an answer.
\<close>

definition withInterrupt :: "nat option \<Rightarrow> 'sch rest_env \<Rightarrow> 'sch rest_env" where
  "withInterrupt signal env = (case signal of None \<Rightarrow> env | Some k \<Rightarrow>
     env\<lparr>re_server := (\<lambda>log call. if k < length log + 1 then DoError ''context canceled'' else re_server env log call)\<rparr>)"

text \<open>The whole program; \<open>show_ip\<close> is \<open>net.IP.String\<close>, the second component what was sent.\<close>

definition probe_main ::
  "'sch rest_env \<Rightarrow> os_env \<Rightarrow> (ip option \<Rightarrow> string) \<Rightarrow> nat option \<Rightarrow> string \<Rightarrow> probe_sip \<Rightarrow> process
     \<Rightarrow> probe_end \<times> rest_call list" where
  "probe_main env os show_ip signal runID sip p =
     (case Load os p of
        (Inl err, p') \<Rightarrow> (Fatal ''config'' (RMsg (config_error_text err)), [])
      | (Inr cfg, p') \<Rightarrow>
      case ResolveSchemasRoot os (pr_vars p') of
        Inl err \<Rightarrow> (Fatal ''schemas'' (RMsg (schemas_error_text err)), [])
      | Inr root \<Rightarrow>
      case contract_New (re_schema env) root of
        Inl err \<Rightarrow> (Fatal ''contract'' (RMsg err), [])
      | Inr v \<Rightarrow>
          (let sp = client_New (APIBaseURL cfg) (SPAPIKey cfg) [] ''sp'';
               (res, st) = probe (withInterrupt signal env) env sp runID cfg (show_ip (SBCPublicIP cfg)) sip
                 \<lparr>rs_log = [], rs_val = v\<rparr>
           in (res, rs_log st)))"

section \<open>What is deleted\<close>

lemma or_fatal_sends:
  assumes "sends P s (snd m)" and "\<And>x t. sends P t (snd (k x t))"
  shows "sends P s (snd (or_fatal what m k))"
proof -
  obtain r t where m: "m = (r, t)" by fastforce
  with assms(1) have "sends P s t" by simp
  then show ?thesis using m assms(2) sends_trans by (cases r) (fastforce simp: or_fatal_def)+
qed

lemma of_error_sends: "sends P s (snd m) \<Longrightarrow> sends P s (snd (of_error m))"
  by (auto simp: of_error_def split: prod.splits option.splits)

lemma create_steps_send:
  "sends posts_only st (snd (CreateSIPClient env c b st))" "sends posts_only st (snd (CreateCall env c body st))"
  by (auto simp: CreateSIPClient_def CreateCall_def intro: create_op_posts)

lemma probe_leg_posts: "sends posts_only st (snd (probe_leg env acct realm sbcIP sip st))"
  unfolding probe_leg_def by (auto intro!: or_fatal_sends create_steps_send split: sum.split)

lemma probe_realm_posts:
  "(\<And>u. sends posts_only u (snd (k u))) \<Longrightarrow> sends posts_only st (snd (probe_realm env sp acct realm sid k st))"
  unfolding probe_realm_def by (auto intro!: or_fatal_sends of_error_sends setup_steps_send create_steps_send)

lemma probe_steps_posts: "sends posts_only st (snd (probe_steps env sp name cfg sbcIP sip sid st))"
  unfolding probe_steps_def Let_def
  by (auto intro!: or_fatal_sends setup_steps_send probe_realm_posts probe_leg_posts)

section \<open>Runs that get to their last step\<close>

lemma or_fatalE:
  assumes "or_fatal what m k = (e, st)" and "\<not> is_Fatal e"
  obtains x t where "m = (Inr x, t)" "k x t = (e, st)"
  using assms by (auto simp: or_fatal_def split: prod.splits sum.splits)

lemma map_sum_id_Inr [simp]: "map_sum f id x = Inr y \<longleftrightarrow> x = Inr y"
  by (cases x) auto

lemma probe_legE:
  assumes "probe_leg env acct realm sbcIP sip st = (e, st')" and "\<not> is_Fatal e"
  obtains r s call where
    "NewStaticResolver_started ParseIP [(realm, sbcIP)] (ps_listen sip) = Inr r"
    "Start (ps_ua sip) (\<lambda>host. None) (ps_register sip) True (probe_config realm) = Inr s"
    "CreateCall env acct (probe_call realm) st = (Inr call, st')" "e = probe_answer sip r s"
proof -
  note step = or_fatalE [OF _ assms(2)]
  from assms(1) [unfolded probe_leg_def] show ?thesis
    by (elim step) (auto intro: that)
qed

lemma probe_realmE:
  assumes "probe_realm env sp acct realm sid k st = (e, st')" and "\<not> is_Fatal e"
  obtains u st1 a st2 c cl st3 where
    "of_error (SetSipRealm env acct sid realm st) = (Inr u, st1)" "GetAccount env sp sid st1 = (Inr a, st2)"
    "CreateSIPClient env acct c st2 = (Inr cl, st3)" "k st3 = (e, st')"
proof -
  note step = or_fatalE [OF _ assms(2)]
  from assms(1) [unfolded probe_realm_def] obtain u st1 a st2 where 1:
    "of_error (SetSipRealm env acct sid realm st) = (Inr u, st1)" "GetAccount env sp sid st1 = (Inr a, st2)"
    and rest: "(if \<not> equal_fold (ac_Realm a) realm
       then (Fatal (''sip_realm not set in DB: got '' @ go_quote (ac_Realm a) @ '' want '' @ go_quote realm) (RMsg []), st2) else
       or_fatal ''create client'' (CreateSIPClient env acct
         \<lparr>sn_AccountSID = sid, sn_Username = probe_user, sn_Password = probe_password, sn_IsActive = ''1'',
          sn_AppCalling = [], sn_QueueCalling = [], sn_UserCalling = []\<rparr> st2) (\<lambda>clientSID st3. k st3)) = (e, st')"
    by (elim step) blast
  from rest assms(2) have "or_fatal ''create client'' (CreateSIPClient env acct
         \<lparr>sn_AccountSID = sid, sn_Username = probe_user, sn_Password = probe_password, sn_IsActive = ''1'',
          sn_AppCalling = [], sn_QueueCalling = [], sn_UserCalling = []\<rparr> st2) (\<lambda>clientSID st3. k st3) = (e, st')"
    by (auto split: if_splits)
  then show ?thesis by (elim step) (rule that [OF 1])
qed

lemma probe_stepsE:
  assumes "probe_steps env sp name cfg sbcIP sip sid st = (e, st')" and "\<not> is_Fatal e" and "e \<noteq> Panicked None None"
  obtains k key st1 acct where
    "CreateApiKey env sp k st = (Inr key, st1)"
    "probe_realm env sp acct (to_lower name @ ''.'' @ SIPRealmZone cfg) sid
       (probe_leg env acct (to_lower name @ ''.'' @ SIPRealmZone cfg) sbcIP sip) st1 = (e, st')"
proof -
  from or_fatalE [OF assms(1) [unfolded probe_steps_def] assms(2)] obtain key st1 where
    k: "CreateApiKey env sp \<lparr>ak_AccountSID = sid, ak_ServiceProviderSID = [], ak_ExpirySecs = None\<rparr> st = (Inr key, st1)"
    and rest: "(case key of (key, token) \<Rightarrow> \<lambda>st1. if length token < 8 then (Panicked None None, st1) else
       let acct = client_New (APIBaseURL cfg) token sid ''probe-acct''; realm = to_lower name @ ''.'' @ SIPRealmZone cfg in
       probe_realm env sp acct realm sid (probe_leg env acct realm sbcIP sip) st1) st1 = (e, st')" by blast
  show ?thesis
    by (rule that [OF k, of "client_New (APIBaseURL cfg) (snd key) sid ''probe-acct''"])
      (use rest assms(3) in \<open>auto simp: Let_def split: prod.splits if_splits\<close>)
qed

section \<open>What is torn down\<close>

lemma cleanupAccount_sent:
  assumes "buildable env sp ''DELETE'' (''/Accounts/'' @ sid) None"
  shows "the_call sp ''DELETE'' (''/Accounts/'' @ sid) None \<in> set (rs_log (cleanupAccount env sp sid st))"
proof -
  have "the_call sp ''DELETE'' (''/Accounts/'' @ sid) None \<in> set (rs_log (snd (DeleteAccount env sp sid u)))" for u
    using DeleteAccount_log [OF assms, of u] by auto
  then show ?thesis by (simp add: cleanupAccount_def Let_def split: prod.split)
qed

text \<open>The stack that the probe starts has registered, and its realm is not empty.\<close>

lemma probe_Start:
  "realm \<noteq> [] \<Longrightarrow> Start ua tls regs h (probe_config realm) = Inr s \<Longrightarrow> sk_regTx s \<and> \<not> sk_stopped s"
  by (auto simp: Start_def probe_config_def probe_user_def probe_password_def Let_def split: option.splits if_splits)

lemma track_all: "fold (\<lambda>c. track (Some c)) calls s = s\<lparr>sk_calls := sk_calls s @ calls\<rparr>"
  by (induction calls arbitrary: s) (simp_all add: track_def)

lemma probe_answer_stack:
  assumes "probe_answer sip r s = e"
  shows "e = Passed r' s' \<Longrightarrow> r' = r \<and> sk_regTx s' = sk_regTx s \<and> sk_stopped s' = sk_stopped s"
    and "e = Panicked ro so \<Longrightarrow> ro = Some r \<and> (\<exists>s'. so = Some s' \<and> sk_regTx s' = sk_regTx s \<and> sk_stopped s' = sk_stopped s)"
  using assms by (auto simp: probe_answer_def Let_def track_all split: go.splits recv.splits option.splits poll.splits)

lemma Stop_probe_torn:
  "Stop_probe sip s = Some t \<Longrightarrow> sk_regTx s \<Longrightarrow> \<not> sk_stopped s \<Longrightarrow>
     sk_stopped t \<and> Deregistered (ps_dereg sip) \<in> set (sk_events t)"
  by (auto simp: Stop_probe_def Sip_Stack.Stop_def Let_def split: if_splits option.splits)

lemma Close_resolver_started:
  "NewStaticResolver_started p h l = Inr r \<Longrightarrow> \<not> rv_open (Close_resolver r)"
  by (auto simp: NewStaticResolver_started_def resolver_start_def Close_resolver_def Close_begin_def Close_end_def close_chan_def
      split: sum.splits)

text \<open>The teardown that a run ends with, if it gets there.\<close>

fun torn_down :: "probe_sip \<Rightarrow> probe_end \<Rightarrow> bool" where
  "torn_down sip (Passed r s) \<longleftrightarrow> \<not> rv_open r \<and> sk_stopped s \<and> Deregistered (ps_dereg sip) \<in> set (sk_events s)"
| "torn_down sip (Panicked (Some r) (Some s)) \<longleftrightarrow> \<not> rv_open r \<and> sk_stopped s \<and> Deregistered (ps_dereg sip) \<in> set (sk_events s)"
| "torn_down sip (Panicked None None) \<longleftrightarrow> True"
| "torn_down sip _ \<longleftrightarrow> False"

lemma realm_ne: "to_lower name @ ''.'' @ SIPRealmZone cfg \<noteq> []"
  by simp

lemma probe_steps_torn:
  assumes "probe_steps env sp name cfg sbcIP sip sid st = (e, st')"
  shows "e = Passed r s \<Longrightarrow> Stop_probe sip s = Some t \<Longrightarrow> torn_down sip (Passed (Close_resolver r) t)"
    and "e = Panicked ro (Some s) \<Longrightarrow> Stop_probe sip s = Some t \<Longrightarrow>
      torn_down sip (Panicked (map_option Close_resolver ro) (Some t))"
    and "e = Panicked ro None \<Longrightarrow> ro = None"
proof -
  let ?realm = "to_lower name @ ''.'' @ SIPRealmZone cfg"
  have through: "\<exists>r0 s0. NewStaticResolver_started ParseIP [(?realm, sbcIP)] (ps_listen sip) = Inr r0
     \<and> sk_regTx s0 \<and> \<not> sk_stopped s0 \<and> probe_answer sip r0 s0 = e" if "\<not> is_Fatal e" "e \<noteq> Panicked None None"
  proof -
    from probe_stepsE [OF assms that] obtain st1 acct where
      "probe_realm env sp acct ?realm sid (probe_leg env acct ?realm sbcIP sip) st1 = (e, st')" by blast
    from probe_realmE [OF this that(1)] obtain st3 where "probe_leg env acct ?realm sbcIP sip st3 = (e, st')" by blast
    from probe_legE [OF this that(1)] obtain r0 s0 where
      "NewStaticResolver_started ParseIP [(?realm, sbcIP)] (ps_listen sip) = Inr r0"
      "Start (ps_ua sip) (\<lambda>host. None) (ps_register sip) True (probe_config ?realm) = Inr s0" "e = probe_answer sip r0 s0" by blast
    with probe_Start [OF realm_ne this(2)] show ?thesis by blast
  qed
  {
    assume e: "e = Passed r s" and t: "Stop_probe sip s = Some t"
    with through obtain r0 s0 where
      "NewStaticResolver_started ParseIP [(to_lower name @ ''.'' @ SIPRealmZone cfg, sbcIP)] (ps_listen sip) = Inr r0"
      "sk_regTx s0" "\<not> sk_stopped s0" "probe_answer sip r0 s0 = e" by auto
    with probe_answer_stack(1) [OF this(4) e] e t Stop_probe_torn [OF t] Close_resolver_started
    show "torn_down sip (Passed (Close_resolver r) t)" by auto
  next
    assume e: "e = Panicked ro (Some s)" and t: "Stop_probe sip s = Some t"
    with through obtain r0 s0 where
      "NewStaticResolver_started ParseIP [(to_lower name @ ''.'' @ SIPRealmZone cfg, sbcIP)] (ps_listen sip) = Inr r0"
      "sk_regTx s0" "\<not> sk_stopped s0" "probe_answer sip r0 s0 = e" by auto
    with probe_answer_stack(2) [OF this(4) e] e t Stop_probe_torn [OF t] Close_resolver_started
    show "torn_down sip (Panicked (map_option Close_resolver ro) (Some t))" by auto
  next
    assume e: "e = Panicked ro None"
    show "ro = None"
    proof (rule ccontr)
      assume "ro \<noteq> None"
      with e through obtain r0 s0 where a: "probe_answer sip r0 s0 = e" by auto
      from probe_answer_stack(2) [OF a e] show False by simp
    qed
  }
qed

text \<open>
  C34 (safety): Once the probe has created its account, one of three things happens. The run returns
  or panics; then the registration has been withdrawn, the resolver closed and the account asked
  to be deleted. A step fails, and the process exits without any of this: the account stays
  behind. Or it hangs, and nothing is deleted either.
\<close>

theorem probe_deletes_iff:
  assumes "buildable env0 sp ''DELETE'' (''/Accounts/'' @ sid) None"
    and "CreateAccount env sp (suite_account_create (resource_name runID ''probe'') (SPSID cfg)) st = (Inr sid, st1)"
    and "probe env env0 sp runID cfg sbcIP sip st = (res, st')" and "deletions (rs_log st) = []"
  shows "(the_call sp ''DELETE'' (''/Accounts/'' @ sid) None \<in> set (rs_log st') \<longleftrightarrow> torn_down sip res)
     \<and> (torn_down sip res \<or> is_Fatal res \<or> res = Waiting)"
proof -
  let ?name = "resource_name runID ''probe''" and ?del = "the_call sp ''DELETE'' (''/Accounts/'' @ sid) None"
  obtain e st2 where s: "probe_steps env sp ?name cfg sbcIP sip sid st1 = (e, st2)" by fastforce
  have "sends posts_only st st1"
    using setup_steps_send(1) [of st env sp "suite_account_create ?name (SPSID cfg)"] assms(2) by simp
  also have "sends posts_only st1 st2"
    using probe_steps_posts [of st1 env sp ?name cfg sbcIP sip sid] by (simp only: s snd_conv)
  finally have "deletions (rs_log st2) = []" using assms(4) by (simp add: posts_deletions)
  then have no: "?del \<notin> set (rs_log st2)" by (auto simp: deletions_def filter_empty_conv)
  have yes: "?del \<in> set (rs_log (cleanupAccount env0 sp sid st2))" by (rule cleanupAccount_sent [OF assms(1)])
  note p = assms(3) [unfolded probe_def Let_def or_fatal_def assms(2), simplified, unfolded s, simplified]
  show ?thesis
  proof (cases e)
    case (Fatal w err)
    with p no show ?thesis by auto
  next
    case (Panicked ro so)
    show ?thesis
    proof (cases so)
      case None
      with Panicked probe_steps_torn(3) [OF s] have "ro = None" by simp
      with p Panicked None yes show ?thesis by auto
    next
      case (Some k)
      with p Panicked no yes probe_steps_torn(2) [OF s] show ?thesis by (fastforce split: option.splits)
    qed
  next
    case (Passed r k)
    with p no yes probe_steps_torn(1) [OF s] show ?thesis by (fastforce split: option.splits)
  next
    case Waiting
    with p no show ?thesis by auto
  qed
qed

text \<open>A platform on which every step succeeds, and a SIP side on which the call arrives and ends.\<close>

definition probe_server :: "rest_call list \<Rightarrow> rest_call \<Rightarrow> rest_answer" where
  "probe_server log call =
     (let m = rc_Method call; u = rc_URL call in
      if m = ''POST'' then
        (if u = ''u/Accounts'' then Response 201 ''{\"sid\":\"A\"}''
         else if u = ''u/ApiKeys'' then Response 201 ''{\"sid\":\"K\",\"token\":\"0123456789\"}''
         else if u = ''u/Clients'' \<or> u = ''/Clients'' then Response 201 ''{\"sid\":\"C\"}''
         else if u = ''/Accounts/A/Calls'' then Response 201 ''{\"sid\":\"L\"}''
         else Response 204 [])
      else if m = ''GET'' then
        (if u = ''u/Accounts/A'' then Response 200 ''{\"account_sid\":\"A\",\"sip_realm\":\"it-me-probe.smoke.test\"}''
         else if u = ''u/Clients'' then Response 200 ''[{\"client_sid\":\"C\",\"account_sid\":\"A\"}]''
         else Response 404 [])
      else Response 204 [])"

definition probe_env :: "unit rest_env" where
  "probe_env = sample_env\<lparr>re_server := probe_server\<rparr>"

definition sample_sip :: probe_sip where
  "sample_sip = \<lparr>ps_listen = Inr ''127.0.0.1:53'', ps_ua = None, ps_register = [TxError ''timeout'' False, TxOk],
     ps_arrivals = [(1, sample_invite)], ps_answer = (''PCMU'', plain_reply), ps_during = [DialogEnded 7],
     ps_rounds = [(StateAnswered, None), (StateEnded, None)], ps_drain = (\<lambda>c. stuck_leg), ps_order = [], ps_dereg = True\<rparr>"

definition sample_cfg :: settings where
  "sample_cfg = base_settings Map.empty"


lemma sample_run_passes: "torn_down sample_sip (fst (probe probe_env probe_env sample_sp ''me'' sample_cfg ''1.2.3.4'' sample_sip sample_state))"
  by code_simp

theorem probe_deletes_iff_witness:
  "\<exists>r s st'. probe probe_env probe_env sample_sp ''me'' sample_cfg ''1.2.3.4'' sample_sip sample_state = (Passed r s, st')
     \<and> \<not> rv_open r \<and> Deregistered True \<in> set (sk_events s)
     \<and> the_call sample_sp ''DELETE'' ''/Accounts/A'' None \<in> set (rs_log st')"
proof -
  let ?c = "CreateAccount probe_env sample_sp (suite_account_create (resource_name ''me'' ''probe'') (SPSID sample_cfg)) sample_state"
  obtain res st' where p: "probe probe_env probe_env sample_sp ''me'' sample_cfg ''1.2.3.4'' sample_sip sample_state = (res, st')" by fastforce
  have t: "torn_down sample_sip res" using sample_run_passes by (simp add: p)
  have "case fst (probe probe_env probe_env sample_sp ''me'' sample_cfg ''1.2.3.4'' sample_sip sample_state) of Passed r s \<Rightarrow> True | _ \<Rightarrow> False"
    by code_simp
  then obtain r s where res: "res = Passed r s" by (auto simp: p split: probe_end.splits)
  have "fst ?c = Inr ''A''" by code_simp
  then have c: "?c = (Inr ''A'', snd ?c)" by (simp add: prod_eq_iff)
  have b: "buildable probe_env sample_sp ''DELETE'' (''/Accounts/'' @ ''A'') None"
    by (simp add: buildable_def probe_env_def sample_env_def)
  have "deletions (rs_log sample_state) = []" by (simp add: deletions_def sample_state_def)
  from probe_deletes_iff [OF b c p this] t have "the_call sample_sp ''DELETE'' (''/Accounts/'' @ ''A'') None \<in> set (rs_log st')" by blast
  moreover have "\<not> rv_open r \<and> Deregistered True \<in> set (sk_events s)" using t by (simp add: res sample_sip_def)
  ultimately show ?thesis using p res by simp
qed

section \<open>Interrupted runs\<close>

text \<open>A request that succeeds under an interrupt at \<open>k\<close> was answered before it.\<close>

lemma Request_in_time:
  assumes "Request (withInterrupt (Some k) env) c m p b sch expect st = ((raw, err), st')"
    and "err = None \<or> (\<exists>e a. err = Some e \<and> AsAPIError e = Some a)"
  shows "length (rs_log st') = Suc (length (rs_log st)) \<and> length (rs_log st') \<le> k"
proof -
  let ?env = "withInterrupt (Some k) env" and ?call = "the_call c m p b"
  have "re_build ?env m (cl_base c @ p) = None \<and> (\<forall>x. b = Some x \<longrightarrow> re_marshal ?env x = None)"
    using assms by (auto simp: Request_def split: option.splits)
  then have "buildable ?env c m p b" by (simp add: buildable_def)
  from assms(1) [unfolded Request_buildable [OF this]]
  have h: "handle_answer ?env m p sch expect (re_server ?env (rs_log st) ?call) (st\<lparr>rs_log := rs_log st @ [?call]\<rparr>) = ((raw, err), st')" .
  have "\<not> k < Suc (length (rs_log st))"
  proof
    assume "k < Suc (length (rs_log st))"
    then have "re_server ?env (rs_log st) ?call = DoError ''context canceled''" by (simp add: withInterrupt_def)
    with h assms(2) show False by (auto simp: handle_answer_def)
  qed
  moreover have "rs_log st' = rs_log st @ [?call]" using arg_cong [OF h, of "\<lambda>r. rs_log (snd r)"] by simp
  ultimately show ?thesis by simp
qed

lemma read_op_in_time:
  "read_op (withInterrupt (Some k) env) c m p b sch expect dec what st = (Inr x, st') \<Longrightarrow>
     length (rs_log st') = Suc (length (rs_log st)) \<and> length (rs_log st') \<le> k"
  using Request_in_time by (fastforce simp: read_op_def split: prod.splits option.splits)

lemma SetSipRealm_in_time:
  assumes "of_error (SetSipRealm (withInterrupt (Some k) env) c sid realm st) = (Inr u, st')"
  shows "length (rs_log st') = Suc (length (rs_log st)) \<and> length (rs_log st') \<le> k"
proof -
  obtain raw err st1 where r: "Request (withInterrupt (Some k) env) c ''POST'' (''/Accounts/'' @ sid @ ''/SipRealms/'' @ realm) None [] 204 st
    = ((raw, err), st1)" by (metis prod.exhaust)
  with assms have "ignoring {500} err = None" "st' = st1"
    by (auto simp: of_error_def SetSipRealm_def write_op_def split: option.splits)
  then show ?thesis using Request_in_time [OF r] by (auto simp: ignoring_def split: option.splits if_splits)
qed

text \<open>The six requests of a run: account, key, realm, its verification, client and call.\<close>

lemma probe_steps_in_time:
  assumes "probe_steps (withInterrupt (Some k) env) sp name cfg sbcIP sip sid st = (e, st')"
    and "\<not> is_Fatal e" and "e \<noteq> Panicked None None"
  shows "length (rs_log st) + 5 \<le> k"
proof -
  let ?env = "withInterrupt (Some k) env" and ?realm = "to_lower name @ ''.'' @ SIPRealmZone cfg"
  from probe_stepsE [OF assms] obtain kk key st1 acct where 1: "CreateApiKey ?env sp kk st = (Inr key, st1)"
    "probe_realm ?env sp acct ?realm sid (probe_leg ?env acct ?realm sbcIP sip) st1 = (e, st')" by blast
  from probe_realmE [OF 1(2) assms(2)] obtain u st2 a st3 c cl st4 where 2:
    "of_error (SetSipRealm ?env acct sid ?realm st1) = (Inr u, st2)" "GetAccount ?env sp sid st2 = (Inr a, st3)"
    "CreateSIPClient ?env acct c st3 = (Inr cl, st4)" "probe_leg ?env acct ?realm sbcIP sip st4 = (e, st')" by blast
  from probe_legE [OF 2(4) assms(2)] obtain call where 3: "CreateCall ?env acct (probe_call ?realm) st4 = (Inr call, st')" by blast
  have "length (rs_log st1) = Suc (length (rs_log st))"
    using read_op_in_time [OF 1(1) [unfolded CreateApiKey_def]] by simp
  moreover have "length (rs_log st2) = Suc (length (rs_log st1))" using SetSipRealm_in_time [OF 2(1)] by simp
  moreover have "length (rs_log st3) = Suc (length (rs_log st2))" using read_op_in_time [OF 2(2) [unfolded GetAccount_def]] by simp
  moreover have "length (rs_log st4) = Suc (length (rs_log st3))"
    using read_op_in_time [OF 2(3) [unfolded CreateSIPClient_def create_op_def]] by simp
  moreover have "length (rs_log st') = Suc (length (rs_log st4)) \<and> length (rs_log st') \<le> k"
    using 3 by (auto simp: CreateCall_def create_op_def dest: read_op_in_time split: if_splits)
  ultimately show ?thesis by simp
qed

text \<open>
  C35 (error): A signal does not lead to the cleanup that \<open>withInterrupt\<close> is there for. If it arrives
  before the answer to the sixth and last request, the cancelled context makes the request in
  flight fail, \<open>log.Fatalf\<close> ends the process, and nothing at all is deleted. The one exception is
  a run that has already panicked over a short token.
\<close>

theorem probe_interrupted:
  assumes "probe (withInterrupt (Some k) env) env0 sp runID cfg sbcIP sip st = (res, st')"
    and "k < length (rs_log st) + 6" and "deletions (rs_log st) = []"
  shows "is_Fatal res \<and> deletions (rs_log st') = [] \<or> res = Panicked None None"
proof -
  let ?env = "withInterrupt (Some k) env" and ?name = "resource_name runID ''probe''"
  obtain r st1 where c: "CreateAccount ?env sp (suite_account_create ?name (SPSID cfg)) st = (r, st1)" by fastforce
  have "sends posts_only st st1"
    using setup_steps_send(1) [of st ?env sp "suite_account_create ?name (SPSID cfg)"] c by simp
  then have d1: "deletions (rs_log st1) = []" using assms(3) by (simp add: posts_deletions)
  show ?thesis
  proof (cases r)
    case (Inl err)
    with assms(1) c d1 show ?thesis by (auto simp: probe_def or_fatal_def Let_def)
  next
    case (Inr sid)
    have l: "length (rs_log st1) = Suc (length (rs_log st))"
      using read_op_in_time [OF c [unfolded Inr CreateAccount_def create_op_def]] by simp
    obtain e st2 where s: "probe_steps ?env sp ?name cfg sbcIP sip sid st1 = (e, st2)" by fastforce
    have "is_Fatal e \<or> e = Panicked None None" using probe_steps_in_time [OF s] l assms(2) by linarith
    moreover have "deletions (rs_log st2) = []"
      using probe_steps_posts [of st1 ?env sp ?name cfg sbcIP sip sid] d1 by (simp only: s snd_conv posts_deletions)
    ultimately show ?thesis using assms(1) c Inr s
      by (cases e) (auto simp: probe_def or_fatal_def Let_def)
  qed
qed

theorem probe_interrupted_witness:
  "\<exists>res st'. probe (withInterrupt (Some 3) probe_env) probe_env sample_sp ''me'' sample_cfg ''1.2.3.4'' sample_sip sample_state = (res, st')
     \<and> is_Fatal res \<and> length (rs_log st') = 4 \<and> deletions (rs_log st') = []"
proof -
  let ?p = "probe (withInterrupt (Some 3) probe_env) probe_env sample_sp ''me'' sample_cfg ''1.2.3.4'' sample_sip sample_state"
  obtain res st' where p: "?p = (res, st')" by fastforce
  have "deletions (rs_log sample_state) = []" "3 < length (rs_log sample_state) + 6"
    by (simp_all add: deletions_def sample_state_def)
  with probe_interrupted [OF p] have "is_Fatal res \<and> deletions (rs_log st') = [] \<or> res = Panicked None None" by blast
  moreover have "is_Fatal (fst ?p) \<and> length (rs_log (snd ?p)) = 4" by code_simp
  ultimately show ?thesis using p by auto
qed

end
