(* ===== verification/Spec2Isabelle.thy ===== *)
theory Spec2Isabelle
  imports Webhook_Hub Webhook_Tunnel Sip_Observer Sip_Wait Sip_Stack_Life Sip_Tls Sip_Realm Recording_Suite Speech Probe
begin

text \<open>
  A verification library for the jambonz smoke tester (Go), a harness that drives a telephony
  platform from outside and checks what it does. One test run provisions accounts on the
  platform over REST (\<open>internal/provision\<close>), registers test phones and places and receives calls
  through a small SIP stack (\<open>internal/sip\<close>), and meanwhile plays the application server of
  those calls: the platform asks it for verb scripts and reports events to it over HTTP hooks
  and WebSockets (\<open>internal/webhook\<close>), whose responses and requests are checked against JSON
  schemas (\<open>internal/contract\<close>). Calls are recorded and archived (\<open>internal/recording\<close>). Many
  tests run in parallel against one webhook server and one platform, so the hard part of the
  program is to hand every event to the right test, to end every call whatever happens, and
  not to let one test's malformed or late traffic disturb another.

  \<^bold>\<open>Common ground.\<close>
  \<^item> \<open>Prelude\<close>: \<open>'a go\<close> is the value a Go function returns or a panic, with slice and index
    expressions checked as Go checks them and 64-bit wrap-around. The locales \<open>guarded_machine\<close>
    (a partial step function that keeps an invariant) and \<open>step_system\<close> (the same for a step
    relation) lift single steps to runs; the components that are state machines interpret them.
    \<open>refined_machine\<close> extends the first by a specification that the machine implements.
  \<^item> \<open>Go_Strings\<close>, \<open>Go_Bytes\<close>, \<open>Json\<close>: the functions of \<open>strings\<close>, \<open>strconv\<close>, \<open>fmt\<close>,
    \<open>encoding/binary\<close> and \<open>encoding/json\<close> that the program uses, on byte strings.
  \<^item> \<open>Go_Path\<close>, \<open>Go_Net\<close>, \<open>Go_Time\<close>, \<open>Json_Struct\<close>: cleaned paths and the walk towards the root,
    \<open>net.ParseIP\<close> and the printing of addresses with their round trip, \<open>time.Parse\<close> for two
    layouts, and decoding into structs.
  \<^item> \<open>Go_Chan\<close>: buffered channels. \<open>bounded_sink\<close> is the contract of a recorder that never
    blocks (first come first kept, the overflow counted), \<open>keyed_store\<close> that of a lookup table.

  \<^bold>\<open>The webhook server.\<close>
  \<^item> \<open>Webhook_Types\<close> (\<open>types.go\<close>): callbacks, accessors, hook outcomes, frames.
  \<^item> \<open>Webhook_Registry\<close> (\<open>registry.go\<close>): sessions live in a heap that only grows, the registry
    maps test ids and call_sids into it; its invariant \<open>registry_ok\<close> says that every entry
    points to a session of that test and no queue is over its bound of 32. \<open>bounded_sink\<close> and
    \<open>keyed_store\<close> are interpreted on the callback queue and on the call_sid index.
  \<^item> \<open>Webhook_Boxes\<close>: what a test may rely on, one bounded box of callbacks per registered test,
    and the proof that the registry refines it (an interpretation of \<open>refined_machine\<close>).
  \<^item> \<open>Webhook_Correlation\<close> (\<open>correlation.go\<close>), \<open>Contract\<close> (\<open>contract.go\<close>), \<open>Webhook_Server\<close>
    (\<open>server.go\<close>): which test a request belongs to, response validation, the three hook handlers
    and the routing between them.
  \<^item> \<open>Webhook_WS\<close> (\<open>ws.go\<close>) and \<open>Webhook_AppWS\<close> (\<open>appws.go\<close>): the capture socket and the
    application protocol. A connection is the list of frames it delivers; a reader's blocking
    \<open>select\<close> takes what each round observes as a list, so a list that runs out is a wait that is
    still pending, never a result.
  \<^item> \<open>Webhook_Delivery\<close> and \<open>Webhook_Hub\<close> put these together. A desk has a box of callbacks per test
    and the calls bound to tests; the server with its handlers, its registry and its heap, and
    then the server with any number of WebSocket connections whose frames interleave with HTTP
    requests and with what tests do, are proved to implement it (\<open>refined_machine\<close>), and a hook for
    a registered test is what \<open>WaitCallbackFor\<close> hands to that test.
  \<^item> \<open>Webhook_Tunnel\<close> (\<open>tunnel.go\<close>, the start of \<open>server.go\<close>): addresses, listening, serving and
    closing, with and without the ngrok tunnel; the SDK and the HTTP library are parameters.

  \<^bold>\<open>The SIP stack.\<close>
  \<^item> \<open>Sip_Message\<close> (\<open>state.go\<close>, \<open>messages.go\<close>), \<open>Sip_Call\<close> and \<open>Sip_Media\<close> (\<open>call.go\<close>): the call
    leg. Each operation takes a \<open>dialog_reply\<close>: what the third-party dialog answered and which
    operations of other goroutines ran between the operation's check of the state and its
    change of it. \<open>call_ok\<close> is the invariant (the end stamp, the closed done channel and the
    unregistration go together, once), proved for every interleaving.
  \<^item> \<open>Sip_Wait\<close> (\<open>call.go\<close>): \<open>WaitState\<close> and \<open>setState\<close> as goroutines over the call's one-place wake-up
    channel: one waiter misses nothing, two may.
  \<^item> \<open>Sip_Observer\<close> (\<open>observer.go\<close>): the Call-ID registry and the recording middleware.
  \<^item> \<open>Sip_Drain\<close> (\<open>drain.go\<close>), \<open>Sip_Stack\<close> (\<open>uas.go\<close>, \<open>uac.go\<close>, \<open>uac_cancel.go\<close>): bounded hangup
    of all live calls, registration, dispatch, shutdown, outbound calls.
  \<^item> \<open>Sip_Stack_Life\<close> (\<open>uas.go\<close>): dispatches, handlers, operations on the calls and the steps of \<open>Stop\<close>
    in any interleaving, and \<open>Stop\<close> of \<open>Sip_Stack\<close> as the run in which nothing else happens.
  \<^item> \<open>Sip_Resolver\<close> (\<open>resolver.go\<close>): the DNS answers for synthetic realms. \<open>Sip_Resolver_Serve\<close>: the
    reading goroutine, the handlers it starts and \<open>Close\<close>, interleaved in any way: what each
    datagram is answered with, and that everything ends. \<open>Sip_Realm\<close>: the resolver that a suite
    account configures answers for its realm. \<open>Sip_Tls\<close> (\<open>tls.go\<close>): the certificate template and
    the listener it is for.
  \<^item> \<open>Recording\<close> (\<open>archive.go\<close>): names and files of archived recordings. \<open>Wav\<close>: the WAV files
    that recording and speech synthesis write are what the SIP stack reads. \<open>Recording_Suite\<close>:
    the recordings of many legs and tests, from the audio pump to the archive and back.

  \<^bold>\<open>Provisioning\<close> (\<open>internal/provision\<close>).
  \<^item> \<open>Provision_Client\<close> (\<open>client.go\<close>): one request, its verdict and its errors. The server is a
    function of the requests so far; the state is the log of requests, so that a lemma can say
    what was sent. The locale \<open>deletion\<close> is the contract of an idempotent deletion.
  \<^item> \<open>Provision_Tags\<close> (\<open>tags.go\<close>): run id and names. \<open>Provision_Accounts\<close>, \<open>Provision_Resources\<close>: the
    resources, one definition per operation; each deletion interprets \<open>deletion\<close>.
  \<^item> \<open>Provision_Suite\<close> (\<open>suite.go\<close>, \<open>sweeper_accounts.go\<close>): setup, teardown and the sweep of what
    crashed runs left: what each may delete, and that nothing it made is forgotten.
  \<^item> \<open>Provision_Managed\<close> (the \<open>Managed\<close> functions): a test with its stack of cleanups.

  \<^bold>\<open>Around them.\<close>
  \<^item> \<open>Config\<close> (\<open>config.go\<close>, \<open>contract/source.go\<close>): settings from the environment and the dotenv file.
  \<^item> \<open>Speech\<close> (\<open>tts/deepgram.go\<close>, \<open>stt/deepgram.go\<close>): cached prompts, transcripts.
  \<^item> \<open>Probe\<close> (\<open>cmd/probe\<close>): the whole run, composed of the models of the REST client, the resolver and
    the SIP stack; when its deferred teardown runs, and what an interrupt does to it.

  This theory adds what spans the configuration and the sweep: how long an account is safe.

  \<^bold>\<open>Conventions.\<close> Mutexes make an operation atomic; where the code releases one and takes it
  again, the model has two steps and lets others run in between. Third-party packages, the
  file system, the network and the clock are arguments of the definitions. Recursion that
  is not structural has a measure (chunks of a file, labels of a name, the rest of a JSON
  text, the depth of a directory); no fuel is used anywhere. Deadlines of REST calls show as
  failing answers of the server.

  \<^bold>\<open>Not modelled.\<close> What third-party packages do inside (SIP transactions and RTP, the HTTP and
  WebSocket protocols, key generation and signing, ngrok, the JSON-Schema compiler, the speech
  vendors): each is an argument that says what it answers. Debug and progress log lines, except
  the warnings that a lemma counts. Audio levels are rationals without the rounding of \<open>float64\<close>;
  letter case and white space are ASCII, except in transcripts, which are code points. A wait
  for a state in \<open>Sip_Call\<close> and \<open>Probe\<close> takes the states it sees as given; \<open>Sip_Wait\<close> shows that it
  does see them. The test suites under \<open>src/tests\<close> are clients of this code and are not modelled.
\<close>

section \<open>Configuration and sweeping\<close>

lemma parse_OrphanTTL:
  assumes "parse os vars = Inr s" and "atoi (Getenv vars ''ORPHAN_TTL_HOURS'') = Some n" and "0 < n"
  shows "OrphanTTL s = wrap64 (n * hour)"
proof -
  have "Getenv vars ''ORPHAN_TTL_HOURS'' \<noteq> []" using assms(2) by (auto simp: atoi_def)
  with assms show ?thesis by (auto simp: parse_def parse_ttl_def Let_def)
qed

lemma parse_OrphanTTL_fits: "0 < n \<Longrightarrow> n \<le> max_ttl_hours \<Longrightarrow> wrap64 (n * hour) = n * hour"
  by (rule wrap64_id) (simp_all add: max_ttl_hours_def hour_def)

text \<open>
  C29 (bounds): With \<open>ORPHAN_TTL_HOURS\<close> set to a positive number of at most 2562047 hours, a sweep
  configured from the environment takes an account for an orphan only if it carries the harness
  prefix, belongs to another run and was verifiably created at least that long ago. One hour
  more, and the duration wraps around to a negative one: the age no longer matters, so that the
  account of a run that is going on is swept.
\<close>

theorem sweep_age_gate:
  assumes "parse os vars = Inr s" and "atoi (Getenv vars ''ORPHAN_TTL_HOURS'') = Some n" and "0 < n"
  shows "(n \<le> max_ttl_hours \<longrightarrow>
      shouldSweep a (run_prefix run) (OrphanTTL s) now =
        (has_prefix (ac_Name' a) NamePrefix \<and> \<not> has_prefix (ac_Name' a) (run_prefix run)
         \<and> (\<exists>created. parseAPITime (ac_CreatedAt a) = Some created \<and> n * hour \<le> now - created)))
    \<and> (n = max_ttl_hours + 1 \<longrightarrow>
      shouldSweep a (run_prefix run) (OrphanTTL s) now =
        (has_prefix (ac_Name' a) NamePrefix \<and> \<not> has_prefix (ac_Name' a) (run_prefix run)))"
proof (intro conjI impI)
  have t: "OrphanTTL s = wrap64 (n * hour)" using assms by (rule parse_OrphanTTL)
  {
    assume "n \<le> max_ttl_hours"
    then have "OrphanTTL s = n * hour" and "0 < n * hour"
      using t parse_OrphanTTL_fits assms(3) by (simp_all add: hour_def)
    then show "shouldSweep a (run_prefix run) (OrphanTTL s) now =
        (has_prefix (ac_Name' a) NamePrefix \<and> \<not> has_prefix (ac_Name' a) (run_prefix run)
         \<and> (\<exists>created. parseAPITime (ac_CreatedAt a) = Some created \<and> n * hour \<le> now - created))"
      by (auto simp: shouldSweep_def split: option.splits)
  next
    assume "n = max_ttl_hours + 1"
    then have "OrphanTTL s < 0" using t by (simp add: wrap64_def max_ttl_hours_def hour_def)
    then show "shouldSweep a (run_prefix run) (OrphanTTL s) now =
        (has_prefix (ac_Name' a) NamePrefix \<and> \<not> has_prefix (ac_Name' a) (run_prefix run))"
      by (simp add: shouldSweep_def)
  }
qed

definition young_account :: account where
  "young_account = no_account\<lparr>ac_Name' := ''it-other-verbs'', ac_CreatedAt := ''2026-01-01T00:00:00Z''\<rparr>"

text \<open>One nanosecond after its creation, the account of another run is swept, or is not.\<close>

theorem sweep_age_gate_witness:
  "(\<exists>s created. parse sample_os (sample_vars(''ORPHAN_TTL_HOURS'' \<mapsto> ''2562048'')) = Inr s
      \<and> parseAPITime (ac_CreatedAt young_account) = Some created
      \<and> shouldSweep young_account (run_prefix ''me'') (OrphanTTL s) (created + 1))
   \<and> (\<exists>s created. parse sample_os (sample_vars(''ORPHAN_TTL_HOURS'' \<mapsto> ''2'')) = Inr s
      \<and> parseAPITime (ac_CreatedAt young_account) = Some created
      \<and> \<not> shouldSweep young_account (run_prefix ''me'') (OrphanTTL s) (created + 1))"
proof -
  let ?v = "sample_vars(''ORPHAN_TTL_HOURS'' \<mapsto> ''2562048'')" and ?w = "sample_vars(''ORPHAN_TTL_HOURS'' \<mapsto> ''2'')"
  have "\<not> isl (parse sample_os ?v)" "\<not> isl (parse sample_os ?w)" by code_simp+
  then obtain s u where s: "parse sample_os ?v = Inr s" and u: "parse sample_os ?w = Inr u"
    by (metis isl_def sum.exhaust)
  have "parseAPITime (ac_CreatedAt young_account) \<noteq> None" by code_simp
  then obtain created where c: "parseAPITime (ac_CreatedAt young_account) = Some created" by blast
  have n: "atoi (Getenv ?v ''ORPHAN_TTL_HOURS'') = Some (max_ttl_hours + 1)" "atoi (Getenv ?w ''ORPHAN_TTL_HOURS'') = Some 2"
    by code_simp+
  have p: "has_prefix (ac_Name' young_account) NamePrefix" "\<not> has_prefix (ac_Name' young_account) (run_prefix ''me'')"
    by code_simp+
  have m: "0 < max_ttl_hours + 1" "(0::int) < 2" "2 \<le> max_ttl_hours" "\<not> 2 * hour \<le> created + 1 - created"
    by (simp_all add: max_ttl_hours_def hour_def)
  have "shouldSweep young_account (run_prefix ''me'') (OrphanTTL s) (created + 1)"
    using sweep_age_gate [OF s n(1) m(1), of young_account "''me''" "created + 1"] p by simp
  moreover have "\<not> shouldSweep young_account (run_prefix ''me'') (OrphanTTL u) (created + 1)"
    using sweep_age_gate [OF u n(2) m(2), of young_account "''me''" "created + 1"] m c by (simp only: option.inject) blast
  ultimately show ?thesis using s u c by blast
qed

end
